(* ===== verification/Rust_Std.thy ===== *)
theory Rust_Std
  imports Main "HOL-Library.Word" "HOL-Library.List_Lexorder" "HOL-Library.Char_ord"
begin

text \<open>
  The prelude: what the crates use of the Rust language and its standard library.

  A Rust \<open>str\<close> or \<open>[u8]\<close> is the list of its bytes (\<open>string\<close>); \<open>u64\<close> and
  \<open>usize\<close> are 64 bit words, \<open>u32\<close> is a 32 bit word; a \<open>Result\<close> is a sum with
  the error on the left. The theory gives the string operations (\<open>trim\<close>, \<open>split\<close>,
  \<open>split_once\<close>, \<open>strip_prefix\<close>, \<open>parse\<close>, ASCII case folding, \<open>join\<close>), the
  saturating operations, the header map, and the lemmas on them that the
  components share: \<open>word_to_nat\<close> collects the rules that read words as numbers.
\<close>

named_theorems word_to_nat \<open>rules that read 64 bit words as natural numbers\<close>

type_synonym str = string
type_synonym u32 = "32 word"
type_synonym u64 = "64 word"
type_synonym usize = "64 word"

section \<open>Results\<close>

definition rbind :: "'e + 'a \<Rightarrow> ('a \<Rightarrow> 'e + 'b) \<Rightarrow> 'e + 'b" where
  "rbind r f = (case r of Inl e \<Rightarrow> Inl e | Inr x \<Rightarrow> f x)"

definition ok_or :: "'a option \<Rightarrow> 'e \<Rightarrow> 'e + 'a" where
  "ok_or x e = (case x of None \<Rightarrow> Inl e | Some v \<Rightarrow> Inr v)"

definition is_ok :: "'e + 'a \<Rightarrow> bool" where
  "is_ok r \<longleftrightarrow> (case r of Inl _ \<Rightarrow> False | Inr _ \<Rightarrow> True)"

lemma rbind_simps [simp]: "rbind (Inl e) f = Inl e" "rbind (Inr x) f = f x"
  by (simp_all add: rbind_def)

lemma rbind_Inr_iff: "rbind r f = Inr y \<longleftrightarrow> (\<exists>x. r = Inr x \<and> f x = Inr y)"
  by (cases r) simp_all

lemma rbind_Inl_iff: "rbind r f = Inl e \<longleftrightarrow> r = Inl e \<or> (\<exists>x. r = Inr x \<and> f x = Inl e)"
  by (cases r) simp_all

lemma ok_or_simps [simp]: "ok_or None e = Inl e" "ok_or (Some v) e = Inr v"
  by (simp_all add: ok_or_def)

lemma ok_or_Inr_iff [simp]: "ok_or x e = Inr v \<longleftrightarrow> x = Some v"
  by (cases x) simp_all

lemma is_ok_simps [simp]: "is_ok (Inr x)" "\<not> is_ok (Inl e)"
  by (simp_all add: is_ok_def)

lemma is_ok_iff: "is_ok r \<longleftrightarrow> (\<exists>x. r = Inr x)"
  by (cases r) simp_all

lemmas result_splits = sum.splits option.splits if_splits

section \<open>Bytes and ASCII classes\<close>

abbreviation byte :: "char \<Rightarrow> nat" where
  "byte c \<equiv> of_char c"

definition is_ascii_digit :: "char \<Rightarrow> bool" where
  "is_ascii_digit c \<longleftrightarrow> 48 \<le> byte c \<and> byte c \<le> 57"

definition is_ascii_upper :: "char \<Rightarrow> bool" where
  "is_ascii_upper c \<longleftrightarrow> 65 \<le> byte c \<and> byte c \<le> 90"

definition is_ascii_lower :: "char \<Rightarrow> bool" where
  "is_ascii_lower c \<longleftrightarrow> 97 \<le> byte c \<and> byte c \<le> 122"

definition is_ascii_alphanumeric :: "char \<Rightarrow> bool" where
  "is_ascii_alphanumeric c \<longleftrightarrow> is_ascii_digit c \<or> is_ascii_upper c \<or> is_ascii_lower c"

definition is_ascii_hexdigit :: "char \<Rightarrow> bool" where
  "is_ascii_hexdigit c \<longleftrightarrow>
     is_ascii_digit c \<or> (65 \<le> byte c \<and> byte c \<le> 70) \<or> (97 \<le> byte c \<and> byte c \<le> 102)"

definition to_lower :: "char \<Rightarrow> char" where
  "to_lower c = (if is_ascii_upper c then char_of (byte c + 32) else c)"

definition to_upper :: "char \<Rightarrow> char" where
  "to_upper c = (if is_ascii_lower c then char_of (byte c - 32) else c)"

definition to_ascii_lowercase :: "str \<Rightarrow> str" where
  "to_ascii_lowercase s = map to_lower s"

definition eq_ignore_ascii_case :: "str \<Rightarrow> str \<Rightarrow> bool" where
  "eq_ignore_ascii_case a b \<longleftrightarrow> to_ascii_lowercase a = to_ascii_lowercase b"

lemma to_lower_idem [simp]: "to_lower (to_lower c) = to_lower c"
  by (auto simp: to_lower_def is_ascii_upper_def)

lemma to_ascii_lowercase_idem [simp]:
  "to_ascii_lowercase (to_ascii_lowercase s) = to_ascii_lowercase s"
  by (simp add: to_ascii_lowercase_def comp_def)

lemma length_to_ascii_lowercase [simp]: "length (to_ascii_lowercase s) = length s"
  by (simp add: to_ascii_lowercase_def)

lemma to_ascii_lowercase_Nil [simp]: "to_ascii_lowercase s = [] \<longleftrightarrow> s = []"
  by (simp add: to_ascii_lowercase_def)

section \<open>Splitting, stripping and joining\<close>

text \<open>\<open>str::split(c)\<close>: always at least one piece.\<close>

fun split_on :: "char \<Rightarrow> str \<Rightarrow> str list" where
  "split_on c [] = [[]]"
| "split_on c (x # xs) =
     (if x = c then [] # split_on c xs
      else (case split_on c xs of [] \<Rightarrow> [[x]] | p # ps \<Rightarrow> (x # p) # ps))"

text \<open>\<open>str::split_once(c)\<close>: the text before and after the first \<open>c\<close>.\<close>

fun split_once :: "char \<Rightarrow> str \<Rightarrow> (str \<times> str) option" where
  "split_once c [] = None"
| "split_once c (x # xs) =
     (if x = c then Some ([], xs)
      else (case split_once c xs of None \<Rightarrow> None | Some (a, b) \<Rightarrow> Some (x # a, b)))"

text \<open>\<open>str::rsplit_once(c)\<close>: the text before and after the last \<open>c\<close>.\<close>

definition rsplit_once :: "char \<Rightarrow> str \<Rightarrow> (str \<times> str) option" where
  "rsplit_once c s =
     (case split_once c (rev s) of None \<Rightarrow> None | Some (a, b) \<Rightarrow> Some (rev b, rev a))"

definition starts_with :: "str \<Rightarrow> str \<Rightarrow> bool" where
  "starts_with p s \<longleftrightarrow> take (length p) s = p"

definition ends_with :: "str \<Rightarrow> str \<Rightarrow> bool" where
  "ends_with p s \<longleftrightarrow> starts_with (rev p) (rev s)"

definition strip_prefix :: "str \<Rightarrow> str \<Rightarrow> str option" where
  "strip_prefix p s = (if starts_with p s then Some (drop (length p) s) else None)"

definition strip_suffix :: "str \<Rightarrow> str \<Rightarrow> str option" where
  "strip_suffix p s = map_option rev (strip_prefix (rev p) (rev s))"

definition unwrap_or :: "'a option \<Rightarrow> 'a \<Rightarrow> 'a" where
  "unwrap_or x d = (case x of None \<Rightarrow> d | Some v \<Rightarrow> v)"

text \<open>\<open>str::trim_start_matches(pat)\<close> for a string pattern: strip the pattern as often as it
  is a prefix (nothing is stripped for the empty pattern).\<close>

function trim_start_matches :: "str \<Rightarrow> str \<Rightarrow> str" where
  "trim_start_matches p s =
     (if p \<noteq> [] \<and> starts_with p s then trim_start_matches p (drop (length p) s) else s)"
  by pat_completeness auto
termination
proof (relation "measure (\<lambda>(p, s). length s)")
  fix p s :: str
  assume a: "p \<noteq> [] \<and> starts_with p s"
  then have "s \<noteq> []" by (cases s) (auto simp: starts_with_def)
  with a show "((p, drop (length p) s), (p, s)) \<in> measure (\<lambda>(p, s). length s)"
    by simp
qed simp

declare trim_start_matches.simps [simp del]

definition trim_end_matches :: "str \<Rightarrow> str \<Rightarrow> str" where
  "trim_end_matches p s = rev (trim_start_matches (rev p) (rev s))"

text \<open>\<open>str::find(pat)\<close> followed by the slice after the match: the text after the first
  occurrence of a pattern.\<close>

fun after_first :: "str \<Rightarrow> str \<Rightarrow> str option" where
  "after_first p [] = (if p = [] then Some [] else None)"
| "after_first p (x # xs) =
     (if starts_with p (x # xs) then Some (drop (length p) (x # xs)) else after_first p xs)"

definition contains_str :: "str \<Rightarrow> str \<Rightarrow> bool" where
  "contains_str p s \<longleftrightarrow> after_first p s \<noteq> None"

text \<open>\<open>[str]::join(sep)\<close>.\<close>

fun join :: "str \<Rightarrow> str list \<Rightarrow> str" where
  "join sep [] = []"
| "join sep [x] = x"
| "join sep (x # y # ys) = x @ sep @ join sep (y # ys)"

lemma split_on_not_Nil [simp]: "split_on c s \<noteq> []"
  by (cases s) (auto split: list.splits)

lemma split_on_no_sep: "p \<in> set (split_on c s) \<Longrightarrow> c \<notin> set p"
proof (induction s arbitrary: p)
  case (Cons x xs)
  then show ?case
    by (cases "split_on c xs") (auto split: if_splits)
qed simp

lemma set_split_on: "p \<in> set (split_on c s) \<Longrightarrow> set p \<subseteq> set s"
proof (induction s arbitrary: p)
  case (Cons x xs)
  then show ?case
    by (cases "split_on c xs") (fastforce split: if_splits)+
qed simp

lemma split_on_unique:"c \<notin> set s \<Longrightarrow> split_on c s = [s]"
  by (induction s) auto

lemma split_on_append: "c \<notin> set p \<Longrightarrow> split_on c (p @ c # s) = p # split_on c s"
  by (induction p) auto

lemma join_Cons: "ps \<noteq> [] \<Longrightarrow> join sep (p # ps) = p @ sep @ join sep ps"
  by (cases ps) simp_all

lemma join_Cons_head: "join sep ((x # p) # ps) = x # join sep (p # ps)"
  by (cases ps) simp_all

text \<open>Splitting and joining on one separator are inverse to each other.\<close>

lemma join_split_on: "join [c] (split_on c s) = s"
proof (induction s)
  case (Cons x xs)
  obtain p ps where "split_on c xs = p # ps"
    by (cases "split_on c xs") auto
  with Cons show ?case
    by (auto simp: join_Cons join_Cons_head)
qed simp

lemma split_on_join:
  "ps \<noteq> [] \<Longrightarrow> (\<And>p. p \<in> set ps \<Longrightarrow> c \<notin> set p) \<Longrightarrow> split_on c (join [c] ps) = ps"
proof (induction ps)
  case (Cons p ps)
  then show ?case
    by (cases ps) (auto simp: split_on_unique split_on_append)
qed simp

lemma split_once_Some_iff:
  "split_once c s = Some (a, b) \<longleftrightarrow> s = a @ c # b \<and> c \<notin> set a"
proof (induction s arbitrary: a)
  case (Cons x xs)
  show ?case
  proof (cases "x = c")
    case True
    then show ?thesis by (cases a) auto
  next
    case False
    then show ?thesis
      using Cons.IH [of "tl a"]
      by (cases a) (auto split: option.splits)
  qed
qed simp

lemma split_once_None_iff: "split_once c s = None \<longleftrightarrow> c \<notin> set s"
  by (induction s) (auto split: option.splits)

lemma split_once_append [simp]: "c \<notin> set a \<Longrightarrow> split_once c (a @ c # b) = Some (a, b)"
  by (simp add: split_once_Some_iff)

lemma starts_with_append [simp]: "starts_with p (p @ s)"
  by (simp add: starts_with_def)

lemma starts_with_iff: "starts_with p s \<longleftrightarrow> (\<exists>t. s = p @ t)"
  by (metis append_eq_conv_conj append_take_drop_id starts_with_def)

lemma strip_prefix_append [simp]: "strip_prefix p (p @ s) = Some s"
  by (simp add: strip_prefix_def)

lemma strip_prefix_Some_iff: "strip_prefix p s = Some t \<longleftrightarrow> s = p @ t"
  by (auto simp: strip_prefix_def starts_with_iff)

lemma after_first_Some: "after_first p s = Some t \<Longrightarrow> \<exists>u. s = u @ p @ t"
proof (induction s)
  case (Cons x xs)
  show ?case
  proof (cases "starts_with p (x # xs)")
    case True
    with Cons.prems show ?thesis
      by (metis after_first.simps(2) append_Nil append_take_drop_id option.inject starts_with_def)
  next
    case False
    with Cons obtain u where "xs = u @ p @ t" by auto
    then show ?thesis by (metis append_Cons)
  qed
qed (simp split: if_splits)

lemma contains_str_append: "contains_str p (u @ p @ t)"
proof (induction u)
  case Nil
  show ?case
  proof (cases "p @ t")
    case (Cons a list)
    then have "starts_with p (a # list)" by (metis starts_with_append)
    then show ?thesis by (simp add: contains_str_def Cons)
  qed (simp add: contains_str_def)
next
  case (Cons a u)
  then show ?case by (auto simp: contains_str_def)
qed

lemma contains_str_iff: "contains_str p s \<longleftrightarrow> (\<exists>u t. s = u @ p @ t)"
  by (metis after_first_Some contains_str_append contains_str_def not_None_eq)

section \<open>Trimming whitespace\<close>

text \<open>
  \<open>str::trim\<close> removes the code points of the Unicode property \<open>White_Space\<close> at both ends.
  The strings are UTF-8 byte lists, so a whitespace code point is one of these byte
  sequences: six ASCII ones, U+0085, U+00A0, U+1680, U+2000 to U+200A, U+2028, U+2029,
  U+202F, U+205F and U+3000. UTF-8 is self-synchronising: in a valid string such a
  sequence at an end of the string is a whole code point.
\<close>

definition bytes :: "nat list \<Rightarrow> str" where
  "bytes ns = map char_of ns"

definition white_space :: "str list" where
  "white_space =
     map (\<lambda>n. bytes [n]) [9, 10, 11, 12, 13, 32] @
     [bytes [194, 133], bytes [194, 160], bytes [225, 154, 128]] @
     map (\<lambda>n. bytes [226, 128, n])
       [128, 129, 130, 131, 132, 133, 134, 135, 136, 137, 138, 168, 169, 175] @
     [bytes [226, 129, 159], bytes [227, 128, 128]]"

text \<open>Drop the given sequences (all of them non-empty) at the start as often as one is there.\<close>

function trim_seqs :: "str list \<Rightarrow> str \<Rightarrow> str" where
  "trim_seqs ws s =
     (case find (\<lambda>w. w \<noteq> [] \<and> starts_with w s) ws of
        None \<Rightarrow> s
      | Some w \<Rightarrow> trim_seqs ws (drop (length w) s))"
  by pat_completeness auto
termination
proof (relation "measure (\<lambda>(ws, s). length s)")
  fix ws and s w :: str
  assume "find (\<lambda>w. w \<noteq> [] \<and> starts_with w s) ws = Some w"
  then have w: "w \<noteq> []" "starts_with w s" by (auto simp: find_Some_iff)
  then have "s \<noteq> []" by (cases s) (auto simp: starts_with_def)
  with w show "((ws, drop (length w) s), (ws, s)) \<in> measure (\<lambda>(ws, s). length s)"
    by simp
qed simp

declare trim_seqs.simps [simp del]

definition trim_start :: "str \<Rightarrow> str" where
  "trim_start s = trim_seqs white_space s"

definition trim_end :: "str \<Rightarrow> str" where
  "trim_end s = rev (trim_seqs (map rev white_space) (rev s))"

definition trim :: "str \<Rightarrow> str" where
  "trim s = trim_end (trim_start s)"

text \<open>A byte that may start, and one that may end, the UTF-8 form of a whitespace character.\<close>

definition ws_first :: "char \<Rightarrow> bool" where
  "ws_first c \<longleftrightarrow> byte c \<in> {9, 10, 11, 12, 13, 32, 194, 225, 226, 227}"

definition ws_last :: "char \<Rightarrow> bool" where
  "ws_last c \<longleftrightarrow> byte c \<in> {9, 10, 11, 12, 13, 32} \<or> 128 \<le> byte c"

lemma trim_seqs_stop:
  assumes "\<And>w. w \<in> set ws \<Longrightarrow> \<not> (w \<noteq> [] \<and> starts_with w s)"
  shows "trim_seqs ws s = s"
proof -
  have "find (\<lambda>w. w \<noteq> [] \<and> starts_with w s) ws = None"
    using assms by (auto simp: find_None_iff)
  then show ?thesis by (subst trim_seqs.simps) simp
qed

lemma trim_seqs_Nil [simp]: "trim_seqs ws [] = []"
  by (rule trim_seqs_stop) (auto simp: starts_with_def)

lemma trim_seqs_fixed:
  "w \<in> set ws \<Longrightarrow> w \<noteq> [] \<Longrightarrow> \<not> starts_with w (trim_seqs ws s)"
proof (induction ws s rule: trim_seqs.induct)
  case (1 ws s)
  show ?case
  proof (cases "find (\<lambda>w. w \<noteq> [] \<and> starts_with w s) ws")
    case None
    then have "trim_seqs ws s = s" by (subst trim_seqs.simps) simp
    with None "1.prems" show ?thesis by (auto simp: find_None_iff)
  next
    case (Some v)
    then have "trim_seqs ws s = trim_seqs ws (drop (length v) s)"
      by (subst trim_seqs.simps) simp
    with "1.IH" [OF Some "1.prems"] show ?thesis by simp
  qed
qed

lemma trim_seqs_suffix: "\<exists>u. s = u @ trim_seqs ws s"
proof (induction ws s rule: trim_seqs.induct)
  case (1 ws s)
  show ?case
  proof (cases "find (\<lambda>w. w \<noteq> [] \<and> starts_with w s) ws")
    case None
    then have "trim_seqs ws s = s" by (subst trim_seqs.simps) simp
    then show ?thesis by simp
  next
    case (Some v)
    then have eq: "trim_seqs ws s = trim_seqs ws (drop (length v) s)"
      by (subst trim_seqs.simps) simp
    from "1.IH" [OF Some] obtain u where "drop (length v) s = u @ trim_seqs ws s"
      by (auto simp: eq)
    then show ?thesis by (metis append.assoc append_take_drop_id)
  qed
qed

lemma white_space_first: "w \<in> set white_space \<Longrightarrow> \<exists>c t. w = c # t \<and> ws_first c"
  by (auto simp: white_space_def bytes_def ws_first_def)

lemma white_space_last: "w \<in> set (map rev white_space) \<Longrightarrow> \<exists>c t. w = c # t \<and> ws_last c"
  by (auto simp: white_space_def bytes_def ws_last_def)

lemma trim_start_id: "s = [] \<or> \<not> ws_first (hd s) \<Longrightarrow> trim_start s = s"
  unfolding trim_start_def
  by (rule trim_seqs_stop) (auto dest!: white_space_first simp: starts_with_iff)

lemma trim_end_id:
  assumes "s = [] \<or> \<not> ws_last (last s)"
  shows "trim_end s = s"
proof -
  have "\<not> (w \<noteq> [] \<and> starts_with w (rev s))" if "w \<in> set (map rev white_space)" for w
  proof
    assume a: "w \<noteq> [] \<and> starts_with w (rev s)"
    from white_space_last [OF that] obtain c t where w: "w = c # t" "ws_last c" by blast
    with a obtain u where "rev s = c # t @ u" by (auto simp: starts_with_iff)
    then have "s = rev u @ rev t @ [c]" by (simp add: rev_swap)
    with w assms show False by simp
  qed
  then have "trim_seqs (map rev white_space) (rev s) = rev s"
    by (rule trim_seqs_stop)
  then show ?thesis by (simp add: trim_end_def)
qed

lemma trim_id: "s = [] \<or> (\<not> ws_first (hd s) \<and> \<not> ws_last (last s)) \<Longrightarrow> trim s = s"
  by (auto simp: trim_def trim_start_id trim_end_id)

lemma trim_Nil [simp]: "trim [] = []"
  by (simp add: trim_id)

text \<open>Trimming yields a contiguous part of the string.\<close>

lemma trim_substring: "\<exists>u v. s = u @ trim s @ v"
proof -
  obtain u where u: "s = u @ trim_start s"
    using trim_seqs_suffix [of s] by (auto simp: trim_start_def)
  obtain v where "rev (trim_start s) = v @ rev (trim s)"
    using trim_seqs_suffix [of "rev (trim_start s)"] by (auto simp: trim_def trim_end_def)
  then have "trim_start s = trim s @ rev v" by (simp add: rev_swap)
  with u show ?thesis by metis
qed

lemma set_trim: "set (trim s) \<subseteq> set s"
proof -
  obtain u v where "s = u @ trim s @ v" using trim_substring by blast
  then show ?thesis by (metis Un_iff set_append subsetI)
qed

section \<open>Parsing integers\<close>

definition digit_of :: "char \<Rightarrow> nat option" where
  "digit_of c =
     (if is_ascii_digit c then Some (byte c - 48)
      else if 65 \<le> byte c \<and> byte c \<le> 70 then Some (byte c - 55)
      else if 97 \<le> byte c \<and> byte c \<le> 102 then Some (byte c - 87)
      else None)"

fun digits_value :: "nat \<Rightarrow> nat \<Rightarrow> str \<Rightarrow> nat option" where
  "digits_value r acc [] = Some acc"
| "digits_value r acc (c # cs) =
     (case digit_of c of
        None \<Rightarrow> None
      | Some d \<Rightarrow> if d < r then digits_value r (acc * r + d) cs else None)"

text \<open>\<open>from_str_radix\<close> on an unsigned type of \<open>w\<close> bits: an optional \<open>+\<close>, then one or
  more digits, and the value has to fit.\<close>

definition from_str_radix :: "nat \<Rightarrow> nat \<Rightarrow> str \<Rightarrow> nat option" where
  "from_str_radix w r s =
     (let ds = (if 1 < length s \<and> hd s = CHR ''+'' then tl s else s)
      in if ds = [] then None
         else (case digits_value r 0 ds of
                 None \<Rightarrow> None
               | Some v \<Rightarrow> if v < 2 ^ w then Some v else None))"

definition parse_u64_std :: "str \<Rightarrow> u64 option" where
  "parse_u64_std s = map_option of_nat (from_str_radix 64 10 s)"

definition parse_u32_std :: "str \<Rightarrow> u32 option" where
  "parse_u32_std s = map_option of_nat (from_str_radix 32 10 s)"

definition parse_usize_hex :: "str \<Rightarrow> usize option" where
  "parse_usize_hex s = map_option of_nat (from_str_radix 64 16 s)"

lemma from_str_radix_bound: "from_str_radix w r s = Some v \<Longrightarrow> v < 2 ^ w"
  by (auto simp: from_str_radix_def Let_def split: option.splits if_splits)

text \<open>Printing in decimal (\<open>format!\<close> of an unsigned integer).\<close>

fun show_nat :: "nat \<Rightarrow> str" where
  "show_nat n =
     (if n < 10 then [char_of (48 + n)] else show_nat (n div 10) @ [char_of (48 + n mod 10)])"

declare show_nat.simps [simp del]

lemma byte_char_of [simp]: "n < 256 \<Longrightarrow> byte (char_of n) = n"
  by simp

lemma digit_of_show: "d < 10 \<Longrightarrow> digit_of (char_of (48 + d)) = Some d"
  by (simp add: digit_of_def is_ascii_digit_def)

lemma digits_value_append:
  "digits_value r acc (xs @ ys) =
     (case digits_value r acc xs of None \<Rightarrow> None | Some v \<Rightarrow> digits_value r v ys)"
  by (induction xs arbitrary: acc) (auto split: option.splits)

lemma digits_value_show_nat: "digits_value 10 0 (show_nat n) = Some n"
proof (induction n rule: show_nat.induct)
  case (1 n)
  show ?case
  proof (cases "n < 10")
    case True
    then show ?thesis by (subst show_nat.simps) (simp add: digit_of_show)
  next
    case False
    with "1" have "digits_value 10 0 (show_nat (n div 10)) = Some (n div 10)" by simp
    with False show ?thesis
      by (subst show_nat.simps) (simp add: digits_value_append digit_of_show)
  qed
qed

lemma show_nat_digits: "c \<in> set (show_nat n) \<Longrightarrow> is_ascii_digit c"
proof (induction n rule: show_nat.induct)
  case (1 n)
  have d: "is_ascii_digit (char_of (48 + n mod 10))"
    by (simp add: is_ascii_digit_def)
  show ?case
  proof (cases "n < 10")
    case True
    with "1.prems" d show ?thesis by (subst (asm) show_nat.simps) simp
  next
    case False
    with "1.prems" have "c \<in> set (show_nat (n div 10)) \<or> c = char_of (48 + n mod 10)"
      by (subst (asm) show_nat.simps) auto
    with "1.IH" [OF False] d show ?thesis by auto
  qed
qed

lemma show_nat_not_Nil [simp]: "show_nat n \<noteq> []"
  by (subst show_nat.simps) simp

lemma from_str_radix_show_nat: "n < 2 ^ w \<Longrightarrow> from_str_radix w 10 (show_nat n) = Some n"
proof -
  assume "n < 2 ^ w"
  moreover have "hd (show_nat n) \<noteq> CHR ''+''"
    using show_nat_digits [of "hd (show_nat n)" n] by (auto simp: is_ascii_digit_def)
  ultimately show ?thesis
    by (simp add: from_str_radix_def digits_value_show_nat)
qed

lemma u64_bound: "unat (n :: u64) < 18446744073709551616"
  using unsigned_less [of n, where ?'a = nat] by simp

text \<open>Parsing a printed \<open>u64\<close> gives it back.\<close>

lemma parse_show_u64: "parse_u64_std (show_nat (unat (n :: u64))) = Some n"
proof -
  have "unat n < 2 ^ 64" using u64_bound by simp
  then show ?thesis by (simp add: parse_u64_std_def from_str_radix_show_nat)
qed

section \<open>Word arithmetic\<close>

definition saturating_sub :: "u64 \<Rightarrow> u64 \<Rightarrow> u64" where
  "saturating_sub a b = (if a < b then 0 else a - b)"

definition saturating_add :: "u64 \<Rightarrow> u64 \<Rightarrow> u64" where
  "saturating_add a b = (if unat a + unat b < 2 ^ 64 then a + b else - 1)"

lemma unat_saturating_sub [word_to_nat]: "unat (saturating_sub a b) = unat a - unat b"
proof (cases "a < b")
  case True
  then have "unat a < unat b" by (simp add: word_less_nat_alt)
  with True show ?thesis by (simp add: saturating_sub_def)
next
  case False
  then have "b \<le> a" by simp
  then show ?thesis by (simp add: saturating_sub_def unat_sub)
qed

lemma unat_minus_one_pos [word_to_nat]: "0 < (n :: u64) \<Longrightarrow> unat (n - 1) = unat n - 1"
  using unat_minus_one [of n] by (simp add: word_neq_0_conv)

lemma unat_plus_one_less [word_to_nat]: "(a :: u64) < b \<Longrightarrow> unat (a + 1) = unat a + 1"
proof -
  assume "a < b"
  then have "unat a < unat b" by (simp add: word_less_nat_alt)
  moreover have "unat b < 2 ^ 64" using u64_bound by simp
  ultimately have "unat a + 1 < 2 ^ 64" by simp
  then show ?thesis by (simp add: unat_word_ariths)
qed

lemma unat_sub_of_nat: "k \<le> unat r \<Longrightarrow> unat (r - of_nat k) = unat r - k" for r :: usize
proof -
  assume k: "k \<le> unat r"
  then have "k < 2 ^ 64"
    using u64_bound [of r] by simp
  then have "unat (of_nat k :: usize) = k"
    by (simp add: unat_of_nat take_bit_eq_mod)
  with k show ?thesis
    by (simp add: unat_sub word_le_nat_alt)
qed

lemma unat_saturating_add [word_to_nat]:
  "unat (saturating_add a b) = min (unat a + unat b) 18446744073709551615"
proof (cases "unat a + unat b < 2 ^ 64")
  case True
  then have "unat (a + b) = unat a + unat b"
    by (simp add: unat_word_ariths)
  with True show ?thesis
    by (simp add: saturating_add_def)
next
  case False
  have "unat (- 1 :: u64) = 18446744073709551615"
    by (simp add: unsigned_minus_1_eq_mask mask_eq_exp_minus_1)
  with False show ?thesis
    by (simp add: saturating_add_def)
qed

lemmas word_order_nat = word_less_nat_alt word_le_nat_alt

section \<open>Header maps\<close>

text \<open>
  A header map is the list of its fields in insertion order. Names are in lower case
  (the HTTP library stores them so). A value is what \<open>HeaderValue::to_str\<close> makes of it:
  its text, or \<open>None\<close> where the value is not visible ASCII and the conversion fails.
\<close>

type_synonym headers = "(str \<times> str option) list"

definition hdr_get :: "headers \<Rightarrow> str \<Rightarrow> str option option" where
  "hdr_get hs n = map_of hs n"

definition hdr_contains :: "headers \<Rightarrow> str \<Rightarrow> bool" where
  "hdr_contains hs n \<longleftrightarrow> n \<in> set (map fst hs)"

definition hdr_remove :: "headers \<Rightarrow> str \<Rightarrow> headers" where
  "hdr_remove hs n = filter (\<lambda>(k, v). k \<noteq> n) hs"

definition hdr_insert :: "headers \<Rightarrow> str \<Rightarrow> str \<Rightarrow> headers" where
  "hdr_insert hs n v = hdr_remove hs n @ [(n, Some v)]"

lemma hdr_contains_iff: "hdr_contains hs n \<longleftrightarrow> hdr_get hs n \<noteq> None"
  by (auto simp: hdr_contains_def hdr_get_def map_of_eq_None_iff)

lemma hdr_get_remove: "hdr_get (hdr_remove hs n) k = (if k = n then None else hdr_get hs k)"
  by (induction hs) (auto simp: hdr_get_def hdr_remove_def)

lemma hdr_get_insert:
  "hdr_get (hdr_insert hs n v) k = (if k = n then Some (Some v) else hdr_get hs k)"
  using hdr_get_remove [of hs n k]
  by (auto simp: hdr_get_def hdr_insert_def map_add_def split: option.splits)

text \<open>\<open>headers.get(n).and_then(|v| v.to_str().ok())\<close>.\<close>

definition hdr_text :: "headers \<Rightarrow> str \<Rightarrow> str option" where
  "hdr_text hs n = (case hdr_get hs n of None \<Rightarrow> None | Some v \<Rightarrow> v)"

text \<open>A request target: the path, the query and the authority of \<open>http::Uri\<close>.\<close>

record uri =
  uri_path :: str
  uri_query :: "str option"
  uri_authority :: "str option"

definition path_and_query :: "uri \<Rightarrow> str" where
  "path_and_query u =
     uri_path u @ (case uri_query u of None \<Rightarrow> [] | Some q \<Rightarrow> CHR ''?'' # q)"

lemmas hdr_simps = hdr_get_def hdr_contains_def hdr_text_def

end
