(* ===== verification/Http_Utils.thy ===== *)
theory Http_Utils
  imports Rust_Std
begin

text \<open>
  The request-parsing helpers of \<open>crates/s32p-support/src/utils.rs\<close>: byte ranges, integer
  and date headers, entity-tag conditions and the detection of server-side encryption.

  The HTTP-date parser is a library function and a parameter (\<open>httpdate\<close>). A
  \<open>SystemTime\<close> is the number of nanoseconds since the Unix epoch. Every \<open>Err\<close>
  of the source is an \<open>Err\<close> with its message; \<open>Panic\<close> is a Rust panic.
\<close>

datatype rerr = Err str | Panic str

type_synonym 'a result = "rerr + 'a"
type_synonym system_time = int

definition nanos :: int where
  "nanos = 1000000000"

section \<open>Byte ranges\<close>

record byte_range =
  start :: u64
  end_excl :: u64

definition byte_range_len :: "byte_range \<Rightarrow> u64" where
  "byte_range_len r = saturating_sub (end_excl r) (start r)"

definition byte_range_is_empty :: "byte_range \<Rightarrow> bool" where
  "byte_range_is_empty r \<longleftrightarrow> byte_range_len r = 0"

definition trim_slashes :: "str \<Rightarrow> str" where
  "trim_slashes s = trim_end_matches ''/'' (trim_start_matches ''/'' (trim s))"

definition parse_u32 :: "str \<Rightarrow> u32 option" where
  "parse_u32 s = parse_u32_std s"

definition parse_u64_strict :: "str \<Rightarrow> str \<Rightarrow> u64 result" where
  "parse_u64_strict s what =
     (let v = trim s
      in if v = [] then Inl (Err (''empty '' @ what))
         else ok_or (parse_u64_std v) (Err (''invalid '' @ what)))"

definition parse_one_range :: "str \<Rightarrow> u64 \<Rightarrow> byte_range result" where
  "parse_one_range spec sz =
     (case split_once CHR ''-'' spec of
        None \<Rightarrow> Inl (Err ''bad Range syntax'')
      | Some (a, b) \<Rightarrow>
          if a = [] then
            (case parse_u64_std b of
               None \<Rightarrow> Inl (Err ''bad Range suffix'')
             | Some suffix \<Rightarrow>
                 if suffix = 0 then Inl (Err ''bad Range suffix'')
                 else Inr \<lparr>start = saturating_sub sz suffix, end_excl = sz\<rparr>)
          else
            (case parse_u64_std a of
               None \<Rightarrow> Inl (Err ''bad Range start'')
             | Some st \<Rightarrow>
                 if st \<ge> sz then Inl (Err ''Range start beyond EOF'')
                 else
                   rbind
                     (if b = [] then Inr (sz - 1)
                      else (case parse_u64_std b of
                              None \<Rightarrow> Inl (Err ''bad Range end'')
                            | Some e \<Rightarrow> Inr (if e \<ge> sz then sz - 1 else e)))
                     (\<lambda>end_incl.
                        if end_incl < st then Inl (Err ''Range end < start'')
                        else Inr \<lparr>start = st, end_excl = end_incl + 1\<rparr>)))"

definition parse_range_header :: "str \<Rightarrow> u64 \<Rightarrow> byte_range option result" where
  "parse_range_header h0 sz =
     (let h = trim h0
      in if h = [] then Inr None
         else if \<not> starts_with ''bytes='' h then Inl (Err ''unsupported Range unit'')
         else let spec = drop (length ''bytes='') h
              in if CHR '','' \<in> set spec then Inl (Err ''multiple ranges not supported'')
                 else rbind (parse_one_range spec sz) (\<lambda>r. Inr (Some r)))"

definition MAX_RANGES :: nat where
  "MAX_RANGES = 50"

fun parse_ranges_loop :: "u64 \<Rightarrow> byte_range list \<Rightarrow> str list \<Rightarrow> byte_range list result" where
  "parse_ranges_loop sz ranges [] = Inr ranges"
| "parse_ranges_loop sz ranges (s # specs) =
     (let spec = trim s
      in if spec = [] then Inl (Err ''empty range in Range header'')
         else if length ranges = MAX_RANGES then Inl (Err ''too many ranges'')
         else rbind (parse_one_range spec sz)
                (\<lambda>r. parse_ranges_loop sz (ranges @ [r]) specs))"

definition parse_ranges_header :: "str \<Rightarrow> u64 \<Rightarrow> byte_range list result" where
  "parse_ranges_header h0 sz =
     (let h = trim h0
      in if \<not> starts_with ''bytes='' h then Inl (Err ''unsupported Range unit'')
         else rbind (parse_ranges_loop sz [] (split_on CHR '','' (drop (length ''bytes='') h)))
                (\<lambda>ranges. if ranges = [] then Inl (Err ''no ranges in Range header'')
                          else Inr ranges))"

section \<open>Dates\<close>

definition parse_http_date :: "(str \<Rightarrow> system_time option) \<Rightarrow> str \<Rightarrow> system_time result" where
  "parse_http_date httpdate s = ok_or (httpdate (trim s)) (Err ''invalid HTTP-date value'')"

text \<open>
  \<open>UNIX_EPOCH + Duration::from_secs(n)\<close>: the seconds of a \<open>SystemTime\<close> are an \<open>i64\<close>,
  and the addition panics where the sum does not fit.
\<close>

definition epoch_plus_secs :: "u64 \<Rightarrow> system_time result" where
  "epoch_plus_secs n =
     (if unat n < 2 ^ 63 then Inr (int (unat n) * nanos)
      else Inl (Panic ''overflow when adding duration to instant''))"

definition parse_amz_last_modified_match ::
    "(str \<Rightarrow> system_time option) \<Rightarrow> str \<Rightarrow> system_time result" where
  "parse_amz_last_modified_match httpdate v =
     (let s = trim v
      in case parse_u64_std s of
           Some secs \<Rightarrow> epoch_plus_secs secs
         | None \<Rightarrow> parse_http_date httpdate s)"

section \<open>Entity-tag conditions\<close>

datatype etag_condition = AnyTag | OneOf "str list"

fun etag_matches :: "etag_condition \<Rightarrow> str \<Rightarrow> bool" where
  "etag_matches AnyTag current = True"
| "etag_matches (OneOf tags) current = list_ex (\<lambda>t. t = current) tags"

definition dquote :: str where
  "dquote = [CHR 0x22]"

definition normalize_etag_token :: "str \<Rightarrow> str option" where
  "normalize_etag_token tok =
     (let t = trim tok
      in if t = [] then None
         else if t = ''*'' then Some ''*''
         else let t = trim (unwrap_or (strip_prefix ''W/'' t) t);
                  t = unwrap_or (strip_prefix dquote t) t;
                  t = unwrap_or (strip_suffix dquote t) t;
                  t = trim t
              in if t = [] then None else Some t)"

text \<open>The loop over the comma-separated parts: \<open>None\<close> is the early return of
  \<open>ETagCondition::Any\<close> at a part that normalises to \<open>*\<close>.\<close>

fun etag_parts :: "str list \<Rightarrow> str list \<Rightarrow> str list option" where
  "etag_parts out [] = Some out"
| "etag_parts out (part # parts) =
     (case normalize_etag_token part of
        None \<Rightarrow> etag_parts out parts
      | Some tok \<Rightarrow> if tok = ''*'' then None else etag_parts (out @ [tok]) parts)"

definition parse_etag_condition :: "str \<Rightarrow> etag_condition result" where
  "parse_etag_condition value =
     (let raw = trim value
      in if raw = [] then Inl (Err ''empty ETag precondition value'')
         else if raw = ''*'' \<or> raw = dquote @ ''*'' @ dquote then Inr AnyTag
         else (case etag_parts [] (split_on CHR '','' raw) of
                 None \<Rightarrow> Inr AnyTag
               | Some out \<Rightarrow>
                   if out = [] then
                     Inl (Err ''ETag precondition header present but contains no usable ETag tokens'')
                   else Inr (OneOf (remdups_adj (sort out)))))"

section \<open>Server-side encryption\<close>

definition SSE_C_HEADER_NAMES :: "str list" where
  "SSE_C_HEADER_NAMES =
     [''x-amz-server-side-encryption-customer-algorithm'',
      ''x-amz-server-side-encryption-customer-key'',
      ''x-amz-server-side-encryption-customer-key-md5'',
      ''x-amz-copy-source-server-side-encryption-customer-algorithm'',
      ''x-amz-copy-source-server-side-encryption-customer-key'',
      ''x-amz-copy-source-server-side-encryption-customer-key-md5'']"

definition SSE_ALGORITHM_HEADER :: str where
  "SSE_ALGORITHM_HEADER = ''x-amz-server-side-encryption''"

definition SSE_KMS_AUX_HEADER_NAMES :: "str list" where
  "SSE_KMS_AUX_HEADER_NAMES =
     [''x-amz-server-side-encryption-aws-kms-key-id'',
      ''x-amz-server-side-encryption-context'',
      ''x-amz-server-side-encryption-bucket-key-enabled'']"

datatype detected_sse = CustomerKey | ServerS3 | ServerKms | ServerKmsDsse | UnknownSse

definition detect_unsupported_sse :: "headers \<Rightarrow> detected_sse option" where
  "detect_unsupported_sse hs =
     (if list_ex (hdr_contains hs) SSE_C_HEADER_NAMES then Some CustomerKey
      else case hdr_get hs SSE_ALGORITHM_HEADER of
        Some value \<Rightarrow>
          (case value of
             Some v \<Rightarrow>
               Some (let t = trim v in
                     if t = ''AES256'' then ServerS3
                     else if t = ''aws:kms'' then ServerKms
                     else if t = ''aws:kms:dsse'' then ServerKmsDsse
                     else UnknownSse)
           | None \<Rightarrow> Some UnknownSse)
      | None \<Rightarrow>
          if list_ex (hdr_contains hs) SSE_KMS_AUX_HEADER_NAMES then Some ServerKms else None)"

section \<open>Lemmas\<close>

text \<open>The shape every accepted range has.\<close>

definition range_within :: "u64 \<Rightarrow> byte_range \<Rightarrow> bool" where
  "range_within sz r \<longleftrightarrow>
     start r \<le> end_excl r \<and> end_excl r \<le> sz \<and> (0 < sz \<longrightarrow> start r < end_excl r)"

lemma suffix_range_within:
  "suffix \<noteq> 0 \<Longrightarrow> range_within sz \<lparr>start = saturating_sub sz suffix, end_excl = sz\<rparr>"
proof -
  assume "suffix \<noteq> 0"
  then have "0 < unat suffix" by (simp add: unat_gt_0)
  then show ?thesis by (auto simp: range_within_def word_order_nat word_to_nat)
qed

lemma clamp_range_within:
  assumes "st < sz" "st \<le> e" "e < sz"
  shows "range_within sz \<lparr>start = st, end_excl = e + 1\<rparr>"
proof -
  have "unat (e + 1) = unat e + 1" using assms(3) by (rule unat_plus_one_less)
  with assms show ?thesis by (simp add: range_within_def word_order_nat)
qed

lemma last_below_size: "st < (sz :: u64) \<Longrightarrow> sz - 1 < sz"
proof -
  assume "st < sz"
  then have pos: "0 < unat sz" by (simp add: word_less_nat_alt)
  then have "0 < sz" by (simp add: word_less_nat_alt)
  then have "unat (sz - 1) = unat sz - 1" by (rule unat_minus_one_pos)
  with pos show ?thesis by (simp add: word_less_nat_alt)
qed

lemma parse_one_range_within:
  assumes "parse_one_range spec sz = Inr r"
  shows "range_within sz r"
proof -
  obtain a b where ab: "split_once CHR ''-'' spec = Some (a, b)"
    using assms by (auto simp: parse_one_range_def split: option.splits)
  show ?thesis
  proof (cases "a = []")
    case True
    with assms ab show ?thesis
      by (auto simp: parse_one_range_def suffix_range_within split: option.splits if_splits)
  next
    case False
    with assms ab obtain st e where st: "st < sz" "st \<le> e"
      and r: "r = \<lparr>start = st, end_excl = e + 1\<rparr>"
      and e: "e = sz - 1 \<or> e < sz"
      by (auto simp: parse_one_range_def rbind_Inr_iff not_le not_less
               split: option.splits if_splits)
    have "e < sz" using e last_below_size [OF st(1)] by auto
    with st r show ?thesis by (simp add: clamp_range_within)
  qed
qed

lemma parse_ranges_loop_Inr:
  assumes "parse_ranges_loop sz acc specs = Inr rs"
  shows "\<exists>ys. rs = acc @ ys \<and> length ys = length specs \<and>
              list_all2 (\<lambda>s r. parse_one_range (trim s) sz = Inr r) specs ys \<and>
              (length acc \<le> MAX_RANGES \<longrightarrow> length rs \<le> MAX_RANGES)"
  using assms
proof (induction specs arbitrary: acc)
  case (Cons s specs)
  from Cons.prems obtain r where r: "parse_one_range (trim s) sz = Inr r"
    and rest: "parse_ranges_loop sz (acc @ [r]) specs = Inr rs"
    and cap: "length acc \<noteq> MAX_RANGES"
    by (auto simp: rbind_Inr_iff Let_def split: if_splits)
  from Cons.IH [OF rest] obtain ys where
    "rs = (acc @ [r]) @ ys" "length ys = length specs"
    "list_all2 (\<lambda>s r. parse_one_range (trim s) sz = Inr r) specs ys"
    "length (acc @ [r]) \<le> MAX_RANGES \<longrightarrow> length rs \<le> MAX_RANGES" by blast
  with r cap show ?case by (intro exI [of _ "r # ys"]) auto
qed simp

lemma split_on_snoc_no_sep: "c \<notin> set a \<Longrightarrow> c \<notin> set b \<Longrightarrow> x \<noteq> c \<Longrightarrow> split_on c (a @ x # b) = [a @ x # b]"
  by (rule split_on_unique) auto

lemma show_nat_no_char: "\<not> is_ascii_digit c \<Longrightarrow> c \<notin> set (show_nat n)"
  using show_nat_digits by blast

lemma digit_not_ws: "is_ascii_digit c \<Longrightarrow> \<not> ws_last c" "is_ascii_digit c \<Longrightarrow> \<not> ws_first c"
  by (auto simp: is_ascii_digit_def ws_last_def ws_first_def)

lemma last_show_nat: "is_ascii_digit (last (show_nat n))"
  using show_nat_digits [of "last (show_nat n)" n] by simp

text \<open>A printed closed range, read against an object size.\<close>

lemma parse_one_range_show:
  "parse_one_range (show_nat (unat a) @ CHR ''-'' # show_nat (unat b)) sz =
     (if a \<ge> sz then Inl (Err ''Range start beyond EOF'')
      else let e = (if b \<ge> sz then sz - 1 else b)
           in if e < a then Inl (Err ''Range end < start'')
              else Inr \<lparr>start = a, end_excl = e + 1\<rparr>)"
proof -
  have "CHR ''-'' \<notin> set (show_nat (unat a))"
    by (rule show_nat_no_char) (simp add: is_ascii_digit_def)
  then have "split_once CHR ''-'' (show_nat (unat a) @ CHR ''-'' # show_nat (unat b)) =
             Some (show_nat (unat a), show_nat (unat b))" by simp
  then show ?thesis
    by (simp add: parse_one_range_def parse_show_u64)
qed

lemma normalize_etag_token_not_Nil: "normalize_etag_token t = Some x \<Longrightarrow> x \<noteq> []"
  by (auto simp: normalize_etag_token_def Let_def split: if_splits)

lemma etag_parts_Some:
  "etag_parts out parts = Some res \<longleftrightarrow>
     ''*'' \<notin> set (List.map_filter normalize_etag_token parts) \<and>
     res = out @ List.map_filter normalize_etag_token parts"
  by (induction parts arbitrary: out) (auto simp: List.map_filter_simps split: option.splits)

lemma set_map_filter_Some: "set (List.map_filter f xs) = {y. Some y \<in> set (map f xs)}"
  by (induction xs) (auto simp: List.map_filter_simps split: option.splits)

lemma sorted_distinct_remdups_adj: "sorted (xs :: str list) \<Longrightarrow> distinct (remdups_adj xs)"
  by (induction xs rule: remdups_adj.induct) auto

lemmas trim_eval = trim_id ws_first_def ws_last_def
lemmas range_eval = parse_ranges_header_def parse_range_header_def parse_one_range_def
  parse_u64_std_def from_str_radix_def digit_of_def is_ascii_digit_def starts_with_def
  MAX_RANGES_def saturating_sub_def

section \<open>Properties\<close>

text \<open>
  C13. An accepted multi-range header yields one range per comma-separated
  specification, in order, at least one and at most fifty, and every one of them lies
  within the object, is not reversed and is not empty unless the object is.
\<close>
theorem parse_ranges_header_sound:
  assumes "parse_ranges_header h sz = Inr rs"
  shows "rs \<noteq> [] \<and> length rs \<le> MAX_RANGES \<and> list_all (range_within sz) rs \<and>
         list_all2 (\<lambda>s r. parse_one_range (trim s) sz = Inr r)
           (split_on CHR '','' (drop 6 (trim h))) rs"
proof -
  from assms have loop: "parse_ranges_loop sz [] (split_on CHR '','' (drop 6 (trim h))) = Inr rs"
    and ne: "rs \<noteq> []"
    by (auto simp: parse_ranges_header_def Let_def rbind_Inr_iff eval_nat_numeral split: if_splits)
  from parse_ranges_loop_Inr [OF loop]
  have all2: "list_all2 (\<lambda>s r. parse_one_range (trim s) sz = Inr r)
                (split_on CHR '','' (drop 6 (trim h))) rs"
    and cap: "length rs \<le> MAX_RANGES" by auto
  from all2 have "list_all (range_within sz) rs"
    by (induction rule: list_all2_induct) (auto simp: parse_one_range_within)
  with ne cap all2 show ?thesis by simp
qed

theorem parse_ranges_header_sound_witness:
  "parse_ranges_header ''bytes=0-9,-50'' 200 =
     Inr [\<lparr>start = 0, end_excl = 10\<rparr>, \<lparr>start = 150, end_excl = 200\<rparr>] \<and>
   list_all (range_within 200) [\<lparr>start = 0, end_excl = 10\<rparr>, \<lparr>start = 150, end_excl = 200\<rparr>]"
proof -
  have h: "parse_ranges_header ''bytes=0-9,-50'' 200 =
     Inr [\<lparr>start = 0, end_excl = 10\<rparr>, \<lparr>start = 150, end_excl = 200\<rparr>]"
    by (simp add: range_eval trim_eval Let_def)
  show ?thesis using h parse_ranges_header_sound [OF h] by simp
qed

text \<open>
  A printed closed range \<open>bytes=a-b\<close> is read back as the half-open range it
  denotes: rejected when it starts at or past the end of the object or is reversed,
  otherwise clamped to the object, with no wrap-around for any 64 bit \<open>a\<close>, \<open>b\<close> and size.
\<close>
theorem parse_range_header_closed:
  fixes a b sz :: u64
  shows "parse_range_header (''bytes='' @ show_nat (unat a) @ ''-'' @ show_nat (unat b)) sz =
     (if unat sz \<le> unat a then Inl (Err ''Range start beyond EOF'')
      else if unat b < unat a then Inl (Err ''Range end < start'')
      else Inr (Some \<lparr>start = a, end_excl = of_nat (min (unat b + 1) (unat sz))\<rparr>))"
proof -
  let ?spec = "show_nat (unat a) @ ''-'' @ show_nat (unat b)"
  have "last (''bytes='' @ ?spec) = last (show_nat (unat b))" by simp
  then have "\<not> ws_last (last (''bytes='' @ ?spec))"
    using last_show_nat [of "unat b"] digit_not_ws by simp
  then have trim: "trim (''bytes='' @ ?spec) = ''bytes='' @ ?spec"
    by (intro trim_id) (simp add: ws_first_def)
  have nocomma: "CHR '','' \<notin> set ?spec"
    by (simp add: show_nat_no_char is_ascii_digit_def)
  have "parse_range_header (''bytes='' @ ?spec) sz =
        rbind (parse_one_range ?spec sz) (\<lambda>r. Inr (Some r))"
    using nocomma by (simp add: parse_range_header_def trim [simplified] starts_with_def)
  also have "\<dots> = (if unat sz \<le> unat a then Inl (Err ''Range start beyond EOF'')
      else if unat b < unat a then Inl (Err ''Range end < start'')
      else Inr (Some \<lparr>start = a, end_excl = of_nat (min (unat b + 1) (unat sz))\<rparr>))"
  proof (cases "unat sz \<le> unat a")
    case True
    then show ?thesis
      by (simp add: parse_one_range_show word_order_nat)
  next
    case False
    then have lt: "a < sz" by (simp add: word_less_nat_alt)
    then have pos: "0 < sz" "unat (sz - 1) = unat sz - 1"
      using False by (simp_all add: word_less_nat_alt unat_minus_one_pos)
    show ?thesis
      using False pos(2)
      by (auto simp: parse_one_range_show word_order_nat Let_def min_def)
  qed
  finally show ?thesis .
qed

text \<open>
  A parsed entity-tag list is sorted, free of duplicates and not empty, and a tag
  matches it exactly when some comma-separated part of the header normalises to that tag.
\<close>
theorem parse_etag_condition_matches:
  assumes "parse_etag_condition v = Inr (OneOf tags)"
  shows "sorted tags \<and> distinct tags \<and> tags \<noteq> [] \<and>
         (etag_matches (OneOf tags) e \<longleftrightarrow>
            Some e \<in> set (map normalize_etag_token (split_on CHR '','' (trim v))))"
proof -
  obtain out where out: "etag_parts [] (split_on CHR '','' (trim v)) = Some out" "out \<noteq> []"
    and tags: "tags = remdups_adj (sort out)"
    using assms by (auto simp: parse_etag_condition_def Let_def split: if_splits option.splits)
  have "set out = {e. Some e \<in> set (map normalize_etag_token (split_on CHR '','' (trim v)))}"
    using out(1) by (auto simp: etag_parts_Some set_map_filter_Some)
  moreover have "sort out \<noteq> []" using out(2) by (metis set_empty set_sort)
  moreover have "sorted (sort out)" by simp
  ultimately show ?thesis
    using out(2) tags sorted_distinct_remdups_adj [of "sort out"]
    by (auto simp: list_ex_iff sorted_remdups_adj)
qed

theorem parse_etag_condition_matches_witness:
  "parse_etag_condition ''b,a'' = Inr (OneOf [''a'', ''b'']) \<and>
   etag_matches (OneOf [''a'', ''b'']) ''b''"
proof -
  have h: "parse_etag_condition ''b,a'' = Inr (OneOf [''a'', ''b''])"
    by (simp add: parse_etag_condition_def trim_eval normalize_etag_token_def Let_def
        strip_prefix_def strip_suffix_def starts_with_def unwrap_or_def dquote_def less_char_def
        less_eq_char_def)
  show ?thesis
    using h parse_etag_condition_matches [OF h, of "''b''"]
    by simp
qed

text \<open>
  The encryption gate lets a request through exactly when it carries none of the
  ten server-side-encryption headers, whatever their values are.
\<close>
theorem detect_unsupported_sse_None:
  "detect_unsupported_sse hs = None \<longleftrightarrow>
     \<not> list_ex (hdr_contains hs)
         (SSE_C_HEADER_NAMES @ [SSE_ALGORITHM_HEADER] @ SSE_KMS_AUX_HEADER_NAMES)"
  by (auto simp: detect_unsupported_sse_def hdr_contains_iff split: option.splits)

text \<open>
  An epoch value in \<open>x-amz-if-match-last-modified-time\<close> is converted to that
  second, and a value of \<open>2^63\<close> or more makes the conversion panic instead of being
  rejected.
\<close>
theorem parse_amz_last_modified_match_epoch:
  fixes n :: u64
  shows "parse_amz_last_modified_match httpdate (show_nat (unat n)) =
     (if unat n < 2 ^ 63 then Inr (int (unat n) * nanos)
      else Inl (Panic ''overflow when adding duration to instant''))"
proof -
  have "\<not> ws_first (hd (show_nat (unat n)))" "\<not> ws_last (last (show_nat (unat n)))"
    using digit_not_ws show_nat_digits [of "hd (show_nat (unat n))" "unat n"] last_show_nat
    by auto
  then have "trim (show_nat (unat n)) = show_nat (unat n)"
    by (intro trim_id) simp
  then show ?thesis
    by (simp add: parse_amz_last_modified_match_def parse_show_u64 epoch_plus_secs_def Let_def)
qed

end
