(* ===== verification/Preconditions.thy ===== *)
theory Preconditions
  imports Http_Utils
begin

text \<open>
  Conditional requests, \<open>crates/s32p-support/src/preconditions.rs\<close>: the parsed \<open>If-*\<close>,
  copy-source and delete headers, and the three evaluations (reads, writes, copy source).
  Header parsing takes the HTTP-date parser as its parameter.
\<close>

definition trunc_to_seconds :: "system_time \<Rightarrow> system_time" where
  "trunc_to_seconds t = (if 0 \<le> t then (t div nanos) * nanos else t)"

record conditional_headers =
  if_match :: "etag_condition option"
  if_none_match :: "etag_condition option"
  if_modified_since :: "system_time option"
  if_unmodified_since :: "system_time option"
  copy_source_if_match :: "etag_condition option"
  copy_source_if_none_match :: "etag_condition option"
  copy_source_if_modified_since :: "system_time option"
  copy_source_if_unmodified_since :: "system_time option"
  amz_if_match_size :: "u64 option"
  amz_if_match_last_modified_time :: "system_time option"

datatype precondition_outcome = Proceed | NotModified | PreconditionFailed

section \<open>Parsing\<close>

definition header_to_str :: "headers \<Rightarrow> str \<Rightarrow> str option result" where
  "header_to_str hs name =
     (case hdr_get hs name of
        None \<Rightarrow> Inr None
      | Some None \<Rightarrow> Inl (Err (''header '' @ name @ '' is not valid ASCII''))
      | Some (Some v) \<Rightarrow>
          if trim v = [] then Inl (Err (''empty header value for '' @ name))
          else Inr (Some (trim v)))"

text \<open>The \<open>match header_to_str(..)? { Some(v) => Some(p(v)?), None => None }\<close> of every field.\<close>

definition parse_header :: "(str \<Rightarrow> 'a result) \<Rightarrow> headers \<Rightarrow> str \<Rightarrow> 'a option result" where
  "parse_header p hs name =
     rbind (header_to_str hs name)
       (\<lambda>v. case v of None \<Rightarrow> Inr None | Some s \<Rightarrow> rbind (p s) (\<lambda>x. Inr (Some x)))"

definition parse_conditional_headers ::
    "(str \<Rightarrow> system_time option) \<Rightarrow> headers \<Rightarrow> conditional_headers result" where
  "parse_conditional_headers httpdate hs =
     rbind (parse_header parse_etag_condition hs ''if-match'') (\<lambda>im.
     rbind (parse_header parse_etag_condition hs ''if-none-match'') (\<lambda>inm.
     rbind (parse_header (parse_http_date httpdate) hs ''if-modified-since'') (\<lambda>ims.
     rbind (parse_header (parse_http_date httpdate) hs ''if-unmodified-since'') (\<lambda>ius.
     rbind (parse_header parse_etag_condition hs ''x-amz-copy-source-if-match'') (\<lambda>cim.
     rbind (parse_header parse_etag_condition hs ''x-amz-copy-source-if-none-match'') (\<lambda>cinm.
     rbind (parse_header (parse_http_date httpdate) hs ''x-amz-copy-source-if-modified-since'') (\<lambda>cims.
     rbind (parse_header (parse_http_date httpdate) hs ''x-amz-copy-source-if-unmodified-since'') (\<lambda>cius.
     rbind (parse_header (\<lambda>v. parse_u64_strict v ''x-amz-if-match-size'') hs ''x-amz-if-match-size'') (\<lambda>ms.
     rbind (parse_header (parse_amz_last_modified_match httpdate) hs
              ''x-amz-if-match-last-modified-time'') (\<lambda>mt.
     Inr \<lparr>if_match = im, if_none_match = inm, if_modified_since = ims, if_unmodified_since = ius,
          copy_source_if_match = cim, copy_source_if_none_match = cinm,
          copy_source_if_modified_since = cims, copy_source_if_unmodified_since = cius,
          amz_if_match_size = ms, amz_if_match_last_modified_time = mt\<rparr>))))))))))"

section \<open>Evaluation\<close>

definition evaluate_read_preconditions ::
    "conditional_headers \<Rightarrow> str \<Rightarrow> system_time \<Rightarrow> precondition_outcome" where
  "evaluate_read_preconditions cond etag lm0 =
     (let lm = trunc_to_seconds lm0
      in if (case if_match cond of Some ifm \<Rightarrow> \<not> etag_matches ifm etag | None \<Rightarrow> False)
         then PreconditionFailed
         else if (case if_unmodified_since cond of
                    Some ius \<Rightarrow> lm > trunc_to_seconds ius | None \<Rightarrow> False)
         then PreconditionFailed
         else if (case if_none_match cond of Some inm \<Rightarrow> etag_matches inm etag | None \<Rightarrow> False)
         then NotModified
         else if (case if_modified_since cond of
                    Some ims \<Rightarrow> lm \<le> trunc_to_seconds ims | None \<Rightarrow> False)
         then NotModified
         else Proceed)"

definition evaluate_write_preconditions ::
    "conditional_headers \<Rightarrow> (str \<times> system_time) option \<Rightarrow> precondition_outcome" where
  "evaluate_write_preconditions cond existing =
     (if (case if_match cond of
            Some ifm \<Rightarrow> (case existing of Some (etag, _) \<Rightarrow> \<not> etag_matches ifm etag | None \<Rightarrow> True)
          | None \<Rightarrow> False)
      then PreconditionFailed
      else if (case if_none_match cond of
                 Some inm \<Rightarrow> (case existing of Some (etag, _) \<Rightarrow> etag_matches inm etag | None \<Rightarrow> False)
               | None \<Rightarrow> False)
      then PreconditionFailed
      else if (case if_unmodified_since cond of
                 Some ius \<Rightarrow>
                   (case existing of
                      Some (_, lm) \<Rightarrow> trunc_to_seconds lm > trunc_to_seconds ius | None \<Rightarrow> False)
               | None \<Rightarrow> False)
      then PreconditionFailed
      else if (case if_modified_since cond of
                 Some ims \<Rightarrow>
                   (case existing of
                      Some (_, lm) \<Rightarrow> trunc_to_seconds lm \<le> trunc_to_seconds ims | None \<Rightarrow> True)
               | None \<Rightarrow> False)
      then PreconditionFailed
      else Proceed)"

definition evaluate_copy_source_preconditions ::
    "conditional_headers \<Rightarrow> str \<Rightarrow> system_time \<Rightarrow> precondition_outcome" where
  "evaluate_copy_source_preconditions cond etag lm0 =
     (let lm = trunc_to_seconds lm0
      in if (case copy_source_if_match cond of Some ifm \<Rightarrow> \<not> etag_matches ifm etag | None \<Rightarrow> False)
         then PreconditionFailed
         else if (case copy_source_if_unmodified_since cond of
                    Some ius \<Rightarrow> lm > trunc_to_seconds ius | None \<Rightarrow> False)
         then PreconditionFailed
         else if (case copy_source_if_none_match cond of
                    Some inm \<Rightarrow> etag_matches inm etag | None \<Rightarrow> False)
         then PreconditionFailed
         else if (case copy_source_if_modified_since cond of
                    Some ims \<Rightarrow> lm \<le> trunc_to_seconds ims | None \<Rightarrow> False)
         then PreconditionFailed
         else Proceed)"

section \<open>Lemmas\<close>

lemma trunc_to_seconds_idem [simp]: "trunc_to_seconds (trunc_to_seconds t) = trunc_to_seconds t"
  by (simp add: trunc_to_seconds_def nanos_def)

lemma parse_header_present:
  "parse_header p hs name = Inr r \<Longrightarrow> (r = None) = (\<not> hdr_contains hs name)"
  by (auto simp: parse_header_def header_to_str_def hdr_contains_iff rbind_Inr_iff
           split: option.splits if_splits)

lemma parse_conditional_headers_fields:
  assumes "parse_conditional_headers httpdate hs = Inr c"
  shows "parse_header parse_etag_condition hs ''if-match'' = Inr (if_match c)"
    and "parse_header parse_etag_condition hs ''if-none-match'' = Inr (if_none_match c)"
    and "parse_header (parse_http_date httpdate) hs ''if-modified-since'' = Inr (if_modified_since c)"
    and "parse_header (parse_http_date httpdate) hs ''if-unmodified-since'' =
           Inr (if_unmodified_since c)"
    and "parse_header parse_etag_condition hs ''x-amz-copy-source-if-match'' =
           Inr (copy_source_if_match c)"
    and "parse_header parse_etag_condition hs ''x-amz-copy-source-if-none-match'' =
           Inr (copy_source_if_none_match c)"
    and "parse_header (parse_http_date httpdate) hs ''x-amz-copy-source-if-modified-since'' =
           Inr (copy_source_if_modified_since c)"
    and "parse_header (parse_http_date httpdate) hs ''x-amz-copy-source-if-unmodified-since'' =
           Inr (copy_source_if_unmodified_since c)"
    and "parse_header (\<lambda>v. parse_u64_strict v ''x-amz-if-match-size'') hs ''x-amz-if-match-size'' =
           Inr (amz_if_match_size c)"
    and "parse_header (parse_amz_last_modified_match httpdate) hs
           ''x-amz-if-match-last-modified-time'' = Inr (amz_if_match_last_modified_time c)"
  using assms by (clarsimp simp: parse_conditional_headers_def rbind_Inr_iff)+

lemma parse_header_None: "parse_header p hs name = Inr None \<longleftrightarrow> \<not> hdr_contains hs name"
  by (auto simp: parse_header_def header_to_str_def hdr_contains_iff rbind_Inr_iff
           split: option.splits if_splits)

text \<open>The abstract reading of the headers: an object passes a tag condition or a date bound.\<close>

definition tag_ok :: "etag_condition option \<Rightarrow> str \<Rightarrow> bool" where
  "tag_ok c etag \<longleftrightarrow> (case c of None \<Rightarrow> True | Some t \<Rightarrow> etag_matches t etag)"

definition tag_differs :: "etag_condition option \<Rightarrow> str \<Rightarrow> bool" where
  "tag_differs c etag \<longleftrightarrow> (case c of None \<Rightarrow> True | Some t \<Rightarrow> \<not> etag_matches t etag)"

definition not_after :: "system_time \<Rightarrow> system_time option \<Rightarrow> bool" where
  "not_after lm b \<longleftrightarrow> (case b of None \<Rightarrow> True | Some t \<Rightarrow> trunc_to_seconds lm \<le> trunc_to_seconds t)"

definition strictly_after :: "system_time \<Rightarrow> system_time option \<Rightarrow> bool" where
  "strictly_after lm b \<longleftrightarrow> (case b of None \<Rightarrow> True | Some t \<Rightarrow> trunc_to_seconds t < trunc_to_seconds lm)"

lemmas precondition_spec = tag_ok_def tag_differs_def not_after_def strictly_after_def

section \<open>Properties\<close>


text \<open>
  The copy-source evaluation is the read evaluation on the copy-source headers
  with every 304 turned into a 412.
\<close>
theorem evaluate_copy_source_equiv_read:
  "evaluate_copy_source_preconditions c etag lm =
     (case evaluate_read_preconditions
             (c\<lparr>if_match := copy_source_if_match c, if_none_match := copy_source_if_none_match c,
                if_modified_since := copy_source_if_modified_since c,
                if_unmodified_since := copy_source_if_unmodified_since c\<rparr>) etag lm of
        NotModified \<Rightarrow> PreconditionFailed | out \<Rightarrow> out)"
  by (simp add: evaluate_copy_source_preconditions_def evaluate_read_preconditions_def Let_def)

text \<open>
  A conditional write proceeds exactly when \<open>If-Match\<close> names the existing
  object, \<open>If-None-Match\<close> does not (so \<open>*\<close> demands that nothing exists), and both date
  bounds hold for it; an absent object passes everything but \<open>If-Match\<close> and
  \<open>If-Modified-Since\<close>. No write is ever answered 304.
\<close>
theorem evaluate_write_preconditions_spec:
  "evaluate_write_preconditions c existing =
     (if (case existing of
            None \<Rightarrow> if_match c = None \<and> if_modified_since c = None
          | Some (etag, lm) \<Rightarrow>
              tag_ok (if_match c) etag \<and> tag_differs (if_none_match c) etag \<and>
              not_after lm (if_unmodified_since c) \<and> strictly_after lm (if_modified_since c))
      then Proceed else PreconditionFailed)"
  by (auto simp: evaluate_write_preconditions_def precondition_spec split: option.splits)

text \<open>
  Where the conditional headers parse, each field is set exactly when its header
  is present, so no present condition is dropped.
\<close>
theorem parse_conditional_headers_complete:
  assumes "parse_conditional_headers httpdate hs = Inr c"
  shows "(if_match c = None) = (\<not> hdr_contains hs ''if-match'') \<and>
         (if_none_match c = None) = (\<not> hdr_contains hs ''if-none-match'') \<and>
         (if_modified_since c = None) = (\<not> hdr_contains hs ''if-modified-since'') \<and>
         (if_unmodified_since c = None) = (\<not> hdr_contains hs ''if-unmodified-since'') \<and>
         (copy_source_if_match c = None) = (\<not> hdr_contains hs ''x-amz-copy-source-if-match'') \<and>
         (copy_source_if_none_match c = None) =
           (\<not> hdr_contains hs ''x-amz-copy-source-if-none-match'') \<and>
         (copy_source_if_modified_since c = None) =
           (\<not> hdr_contains hs ''x-amz-copy-source-if-modified-since'') \<and>
         (copy_source_if_unmodified_since c = None) =
           (\<not> hdr_contains hs ''x-amz-copy-source-if-unmodified-since'') \<and>
         (amz_if_match_size c = None) = (\<not> hdr_contains hs ''x-amz-if-match-size'') \<and>
         (amz_if_match_last_modified_time c = None) =
           (\<not> hdr_contains hs ''x-amz-if-match-last-modified-time'')"
  using parse_conditional_headers_fields [OF assms, THEN parse_header_present] by simp

theorem parse_conditional_headers_complete_witness:
  "\<exists>c. parse_conditional_headers (\<lambda>_. None) [(''if-match'', Some ''abc'')] = Inr c \<and>
       if_match c = Some (OneOf [''abc'']) \<and> if_none_match c = None"
proof -
  let ?hs = "[(''if-match'', Some ''abc'')]"
  have m: "parse_header parse_etag_condition ?hs ''if-match'' = Inr (Some (OneOf [''abc'']))"
    by (simp add: parse_header_def header_to_str_def hdr_simps trim_eval parse_etag_condition_def
        normalize_etag_token_def Let_def strip_prefix_def strip_suffix_def starts_with_def
        unwrap_or_def dquote_def)
  have n: "parse_header p ?hs name = Inr None" if "name \<noteq> ''if-match''"
    for p :: "str \<Rightarrow> 'a result" and name
    using that by (simp add: parse_header_None hdr_contains_def)
  obtain c where c: "parse_conditional_headers (\<lambda>_. None) ?hs = Inr c"
    and im: "if_match c = Some (OneOf [''abc''])"
    by (simp add: parse_conditional_headers_def m n)
  have "if_none_match c = None"
    using parse_conditional_headers_complete [OF c] by (simp add: hdr_contains_def)
  with c im show ?thesis by blast
qed

end
