(* ===== verification/Uri_Encoding.thy ===== *)
theory Uri_Encoding
  imports Rust_Std
begin

text \<open>
  The percent-encoding helpers of \<open>crates/s32p-support/src/uri_encoding.rs\<close>: the encoder of
  list responses, the canonical path of SigV4 verification, and the lossy decoder of object
  keys. The functions of the percent-encoding crate are parameters: \<open>pct_encode\<close> for
  \<open>utf8_percent_encode\<close> (which takes the set of bytes to encode), \<open>non_alphanumeric\<close> for its
  set \<open>NON_ALPHANUMERIC\<close>, and \<open>pdec\<close> for \<open>percent_decode_str(_).decode_utf8()\<close>. The
  reference is the percent decoding of RFC 3986, \<open>rfc_decode\<close>.
\<close>

section \<open>The code\<close>

definition S3_URL_ENCODE_SET :: "(char \<Rightarrow> bool) \<Rightarrow> char \<Rightarrow> bool" where
  "S3_URL_ENCODE_SET non_alphanumeric b \<longleftrightarrow>
     non_alphanumeric b \<and> b \<noteq> CHR ''-'' \<and> b \<noteq> CHR ''.'' \<and> b \<noteq> CHR ''_'' \<and> b \<noteq> CHR ''~''"

definition s3_url_encode :: "(str \<Rightarrow> (char \<Rightarrow> bool) \<Rightarrow> str) \<Rightarrow> (char \<Rightarrow> bool) \<Rightarrow> str \<Rightarrow> str" where
  "s3_url_encode pct_encode non_alphanumeric inp =
     pct_encode inp (S3_URL_ENCODE_SET non_alphanumeric)"

definition is_unreserved_or_slash :: "char \<Rightarrow> bool" where
  "is_unreserved_or_slash b \<longleftrightarrow>
     is_ascii_alphanumeric b \<or> b \<in> {CHR ''-'', CHR ''.'', CHR ''_'', CHR ''~'', CHR ''/''}"

definition HEX :: "nat \<Rightarrow> char" where
  "HEX n = ''0123456789ABCDEF'' ! n"

definition canon_byte :: "char \<Rightarrow> str" where
  "canon_byte b =
     (if is_unreserved_or_slash b then [b] else [CHR ''%'', HEX (byte b div 16), HEX (byte b mod 16)])"

fun canonicalize_uri_path_for_sigv4 :: "str \<Rightarrow> str" where
  "canonicalize_uri_path_for_sigv4 (b # h # l # rest) =
     (if b = CHR ''%'' \<and> is_ascii_hexdigit h \<and> is_ascii_hexdigit l
      then CHR ''%'' # to_upper h # to_upper l # canonicalize_uri_path_for_sigv4 rest
      else canon_byte b @ canonicalize_uri_path_for_sigv4 (h # l # rest))"
| "canonicalize_uri_path_for_sigv4 (b # bs) = canon_byte b @ canonicalize_uri_path_for_sigv4 bs"
| "canonicalize_uri_path_for_sigv4 [] = []"

definition decode_segment :: "(str \<Rightarrow> str option) \<Rightarrow> str \<Rightarrow> str" where
  "decode_segment pdec seg = (case pdec seg of Some decoded \<Rightarrow> decoded | None \<Rightarrow> seg)"

definition percent_decode_path_segments_lossy :: "(str \<Rightarrow> str option) \<Rightarrow> str \<Rightarrow> str" where
  "percent_decode_path_segments_lossy pdec inp =
     (if CHR ''%'' \<notin> set inp then inp
      else join ''/'' (map (decode_segment pdec) (split_on CHR ''/'' inp)))"

section \<open>The reference\<close>

definition hex_val :: "char \<Rightarrow> nat" where
  "hex_val c = (case digit_of c of Some d \<Rightarrow> d | None \<Rightarrow> 0)"

fun rfc_decode :: "str \<Rightarrow> str" where
  "rfc_decode (b # h # l # rest) =
     (if b = CHR ''%'' \<and> is_ascii_hexdigit h \<and> is_ascii_hexdigit l
      then char_of (16 * hex_val h + hex_val l) # rfc_decode rest
      else b # rfc_decode (h # l # rest))"
| "rfc_decode (b # bs) = b # rfc_decode bs"
| "rfc_decode [] = []"

definition upper_hex :: "char \<Rightarrow> bool" where
  "upper_hex c \<longleftrightarrow> is_ascii_hexdigit c \<and> \<not> is_ascii_lower c"

fun canonical_path :: "str \<Rightarrow> bool" where
  "canonical_path (b # h # l # rest) =
     (if b = CHR ''%'' then upper_hex h \<and> upper_hex l \<and> canonical_path rest
      else is_unreserved_or_slash b \<and> canonical_path (h # l # rest))"
| "canonical_path (b # bs) = (is_unreserved_or_slash b \<and> canonical_path bs)"
| "canonical_path [] = True"

section \<open>Hexadecimal digits\<close>

lemmas ascii_defs = is_ascii_hexdigit_def is_ascii_digit_def is_ascii_lower_def is_ascii_upper_def
  is_ascii_alphanumeric_def

lemma digit_of_to_upper: "is_ascii_hexdigit c \<Longrightarrow> hex_val (to_upper c) = hex_val c"
  by (auto simp: hex_val_def digit_of_def to_upper_def ascii_defs split: option.splits)

lemma upper_hex_to_upper: "is_ascii_hexdigit c \<Longrightarrow> upper_hex (to_upper c)"
  by (auto simp: upper_hex_def to_upper_def ascii_defs)

lemma to_upper_upper_hex: "upper_hex c \<Longrightarrow> to_upper c = c"
  by (auto simp: upper_hex_def to_upper_def ascii_defs)

lemma hexdigit_to_upper: "is_ascii_hexdigit c \<Longrightarrow> is_ascii_hexdigit (to_upper c)"
  using upper_hex_to_upper by (simp add: upper_hex_def)

lemma HEX_upper_hex_upto: "\<forall>n\<in>set [0..<16]. upper_hex (HEX n) \<and> hex_val (HEX n) = n"
  by code_simp

lemma HEX_upper_hex: "n < 16 \<Longrightarrow> upper_hex (HEX n)"
  using HEX_upper_hex_upto by simp

lemma hex_val_HEX: "n < 16 \<Longrightarrow> hex_val (HEX n) = n"
  using HEX_upper_hex_upto by simp

lemma HEX_hexdigit: "n < 16 \<Longrightarrow> is_ascii_hexdigit (HEX n)"
  using HEX_upper_hex by (simp add: upper_hex_def)

lemma nibbles: "byte c div 16 < 16" "byte c mod 16 < 16" "16 * (byte c div 16) + byte c mod 16 = byte c"
  using nat_of_char_less_256 [of c] by (simp_all add: less_mult_imp_div_less)

lemmas hex_simps = HEX_upper_hex HEX_hexdigit hex_val_HEX nibbles

lemma percent_reserved [simp]: "\<not> is_unreserved_or_slash CHR ''%''"
  by code_simp

lemma unreserved_not_percent: "is_unreserved_or_slash b \<Longrightarrow> b \<noteq> CHR ''%''"
  by auto

section \<open>Canonical paths\<close>

lemma rfc_decode_plain: "b \<noteq> CHR ''%'' \<Longrightarrow> rfc_decode (b # s) = b # rfc_decode s"
  by (cases s; cases "tl s") auto

lemma canonical_path_plain:
  "b \<noteq> CHR ''%'' \<Longrightarrow> canonical_path (b # s) = (is_unreserved_or_slash b \<and> canonical_path s)"
  by (cases s; cases "tl s") auto

lemma canonicalize_plain:
  "b \<noteq> CHR ''%'' \<Longrightarrow>
     canonicalize_uri_path_for_sigv4 (b # s) = canon_byte b @ canonicalize_uri_path_for_sigv4 s"
  by (cases s; cases "tl s") auto

lemma rfc_decode_canon_byte: "rfc_decode (canon_byte b @ s) = b # rfc_decode s"
  by (auto simp: canon_byte_def rfc_decode_plain unreserved_not_percent hex_simps)

lemma canonical_canon_byte: "canonical_path (canon_byte b @ s) = canonical_path s"
  by (auto simp: canon_byte_def canonical_path_plain unreserved_not_percent hex_simps)

lemmas canon_byte_alone =
  rfc_decode_canon_byte [where s = "[]", simplified] canonical_canon_byte [where s = "[]", simplified]

lemma rfc_decode_canonicalize: "rfc_decode (canonicalize_uri_path_for_sigv4 s) = rfc_decode s"
  by (induction s rule: canonicalize_uri_path_for_sigv4.induct)
     (auto simp: rfc_decode_canon_byte canon_byte_alone digit_of_to_upper hexdigit_to_upper)

lemma canonical_canonicalize: "canonical_path (canonicalize_uri_path_for_sigv4 s)"
  by (induction s rule: canonicalize_uri_path_for_sigv4.induct)
     (auto simp: canonical_canon_byte canon_byte_alone upper_hex_to_upper)

lemma canonicalize_canonical: "canonical_path s \<Longrightarrow> canonicalize_uri_path_for_sigv4 s = s"
  by (induction s rule: canonicalize_uri_path_for_sigv4.induct)
     (auto simp: canon_byte_def to_upper_upper_hex upper_hex_def split: if_splits)

text \<open>
  C15. The canonical path of SigV4 verification names the same resource as the path on the
  wire: percent decoding it gives what percent decoding the wire path gives. It is canonical:
  every byte is an unreserved character, a slash, or part of a \<open>%XX\<close> triple with upper-case
  digits. And canonicalization leaves exactly the canonical paths unchanged.
\<close>
theorem canonicalize_uri_path_spec:
  "rfc_decode (canonicalize_uri_path_for_sigv4 s) = rfc_decode s \<and>
   canonical_path (canonicalize_uri_path_for_sigv4 s) \<and>
   (canonicalize_uri_path_for_sigv4 s = s) = canonical_path s"
  using rfc_decode_canonicalize canonical_canonicalize canonicalize_canonical by metis

section \<open>Encoded keys\<close>

text \<open>The documented behaviour of \<open>utf8_percent_encode\<close> on the bytes of a string.\<close>

definition pct_byte :: "(char \<Rightarrow> bool) \<Rightarrow> char \<Rightarrow> str" where
  "pct_byte st b =
     (if st b \<or> 128 \<le> byte b then [CHR ''%'', HEX (byte b div 16), HEX (byte b mod 16)] else [b])"

definition pct_encode_doc :: "str \<Rightarrow> (char \<Rightarrow> bool) \<Rightarrow> str" where
  "pct_encode_doc inp st = concat (map (pct_byte st) inp)"

definition non_alphanumeric_doc :: "char \<Rightarrow> bool" where
  "non_alphanumeric_doc b \<longleftrightarrow> byte b < 128 \<and> \<not> is_ascii_alphanumeric b"

lemma encode_byte_canon:
  "b \<noteq> CHR ''/'' \<Longrightarrow> pct_byte (S3_URL_ENCODE_SET non_alphanumeric_doc) b = canon_byte b"
  by (auto simp: pct_byte_def S3_URL_ENCODE_SET_def non_alphanumeric_doc_def canon_byte_def
        is_unreserved_or_slash_def ascii_defs)

lemma rfc_decode_pct_byte:
  "rfc_decode (pct_byte (S3_URL_ENCODE_SET non_alphanumeric_doc) b @ s) = b # rfc_decode s"
proof (cases "S3_URL_ENCODE_SET non_alphanumeric_doc b \<or> 128 \<le> byte b")
  case True
  then show ?thesis
    by (simp add: pct_byte_def hex_simps)
next
  case False
  then have "b \<noteq> CHR ''%''"
    by (auto simp: S3_URL_ENCODE_SET_def non_alphanumeric_doc_def ascii_defs)
  with False show ?thesis
    by (simp add: pct_byte_def rfc_decode_plain)
qed

lemma hexdigit_not_slash: "is_ascii_hexdigit c \<Longrightarrow> c \<noteq> CHR ''/''"
  by (auto simp: ascii_defs)

lemma slash_encoded: "S3_URL_ENCODE_SET non_alphanumeric_doc CHR ''/''"
  by (simp add: S3_URL_ENCODE_SET_def non_alphanumeric_doc_def ascii_defs)

lemma set_pct_byte:
  "c \<in> set (pct_byte (S3_URL_ENCODE_SET non_alphanumeric_doc) b) \<Longrightarrow> c \<noteq> CHR ''/''"
  using hexdigit_not_slash [OF HEX_hexdigit [OF nibbles(1)], of b]
    hexdigit_not_slash [OF HEX_hexdigit [OF nibbles(2)], of b] slash_encoded
  by (auto simp: pct_byte_def split: if_splits)

lemma slash_notin_encode:
  "CHR ''/'' \<notin> set (pct_encode_doc s (S3_URL_ENCODE_SET non_alphanumeric_doc))"
  using set_pct_byte by (auto simp: pct_encode_doc_def)

lemma encode_segment_canonicalize:
  assumes "CHR ''/'' \<notin> set s" "CHR ''%'' \<notin> set s"
  shows "pct_encode_doc s (S3_URL_ENCODE_SET non_alphanumeric_doc) = canonicalize_uri_path_for_sigv4 s"
  using assms
  by (induction s) (auto simp: pct_encode_doc_def encode_byte_canon canonicalize_plain)

lemma canonicalize_no_escape:
  "CHR ''%'' \<notin> set s \<Longrightarrow> canonicalize_uri_path_for_sigv4 s = concat (map canon_byte s)"
  by (induction s) (auto simp: canonicalize_plain)

lemma rfc_decode_encode:
  "rfc_decode (pct_encode_doc s (S3_URL_ENCODE_SET non_alphanumeric_doc)) = s"
  by (induction s) (simp_all add: pct_encode_doc_def rfc_decode_pct_byte)

lemma join_canonicalize:
  assumes "\<forall>p\<in>set ps. CHR ''%'' \<notin> set p"
  shows "join ''/'' (map canonicalize_uri_path_for_sigv4 ps) =
         canonicalize_uri_path_for_sigv4 (join ''/'' ps)"
  using assms
proof (induction ps rule: induct_list012)
  case (3 p q ps)
  have "CHR ''%'' \<notin> set (join ''/'' (q # ps))"
    using "3.prems" by (induction "''/''" "q # ps" arbitrary: q ps rule: join.induct) auto
  then show ?case
    using 3 by (simp add: canonicalize_no_escape canon_byte_def is_unreserved_or_slash_def)
qed simp_all

text \<open>
  The encoder of list responses is lossless: percent decoding an encoded key gives the key
  back, the encoded key has no slash, and on a path with no escapes, encoding segment by segment
  gives the path that SigV4 verification canonicalizes to. The hypotheses are the documented
  behaviour of the percent-encoding crate.
\<close>
theorem s3_url_encode_lossless:
  assumes "pct_encode = pct_encode_doc" and "non_alphanumeric = non_alphanumeric_doc"
  shows "rfc_decode (s3_url_encode pct_encode non_alphanumeric key) = key \<and>
         CHR ''/'' \<notin> set (s3_url_encode pct_encode non_alphanumeric key) \<and>
         (CHR ''%'' \<notin> set path \<longrightarrow>
            join ''/'' (map (s3_url_encode pct_encode non_alphanumeric) (split_on CHR ''/'' path)) =
            canonicalize_uri_path_for_sigv4 path)"
  (is "?d \<and> ?s \<and> (_ \<longrightarrow> ?j)")
proof (intro conjI impI)
  show ?d ?s
    using assms rfc_decode_encode slash_notin_encode by (simp_all add: s3_url_encode_def)
  assume "CHR ''%'' \<notin> set path"
  then have seg: "CHR ''%'' \<notin> set p \<and> CHR ''/'' \<notin> set p" if "p \<in> set (split_on CHR ''/'' path)" for p
    using that set_split_on split_on_no_sep by blast
  have "map (s3_url_encode pct_encode non_alphanumeric) (split_on CHR ''/'' path) =
        map canonicalize_uri_path_for_sigv4 (split_on CHR ''/'' path)"
    using assms seg by (auto simp: s3_url_encode_def encode_segment_canonicalize)
  then have "join ''/'' (map (s3_url_encode pct_encode non_alphanumeric) (split_on CHR ''/'' path)) =
             canonicalize_uri_path_for_sigv4 (join ''/'' (split_on CHR ''/'' path))"
    using seg by (metis join_canonicalize)
  then show ?j
    by (simp only: join_split_on)
qed

theorem s3_url_encode_lossless_witness:
  "CHR ''%'' \<notin> set ''a b/(c)'' \<and>
   rfc_decode (s3_url_encode pct_encode_doc non_alphanumeric_doc ''a b'') = ''a b'' \<and>
   join ''/'' (map (s3_url_encode pct_encode_doc non_alphanumeric_doc) (split_on CHR ''/'' ''a b/(c)'')) =
     canonicalize_uri_path_for_sigv4 ''a b/(c)''"
  using s3_url_encode_lossless [OF refl refl, of "''a b''" "''a b/(c)''"] by simp

section \<open>Decoded keys\<close>

lemma rfc_decode_no_escape: "CHR ''%'' \<notin> set s \<Longrightarrow> rfc_decode s = s"
  by (induction s) (auto simp: rfc_decode_plain)

lemma percent_decode_path_segments_eq:
  assumes "\<And>s. CHR ''%'' \<notin> set s \<Longrightarrow> pdec s = Some s \<or> pdec s = None"
  shows "percent_decode_path_segments_lossy pdec inp =
         join ''/'' (map (decode_segment pdec) (split_on CHR ''/'' inp))"
proof (cases "CHR ''%'' \<in> set inp")
  case False
  then have "map (decode_segment pdec) (split_on CHR ''/'' inp) = split_on CHR ''/'' inp"
    using assms set_split_on by (intro map_idI) (fastforce simp: decode_segment_def)
  then show ?thesis
    using False by (simp add: percent_decode_path_segments_lossy_def join_split_on)
qed (simp add: percent_decode_path_segments_lossy_def)

lemma percent_decode_path_segments_doc:
  assumes "\<And>s. pdec s = (if valid (rfc_decode s) then Some (rfc_decode s) else None)"
  shows "percent_decode_path_segments_lossy pdec t =
         join ''/'' (map (\<lambda>seg. if valid (rfc_decode seg) then rfc_decode seg else seg) (split_on CHR ''/'' t))"
proof -
  have "percent_decode_path_segments_lossy pdec t =
        join ''/'' (map (decode_segment pdec) (split_on CHR ''/'' t))"
    by (rule percent_decode_path_segments_eq) (simp add: assms rfc_decode_no_escape)
  also have "decode_segment pdec = (\<lambda>seg. if valid (rfc_decode seg) then rfc_decode seg else seg)"
    by (simp add: fun_eq_iff decode_segment_def assms)
  finally show ?thesis .
qed

lemma decode_encoded_key:
  assumes "\<And>s. pdec s = (if valid (rfc_decode s) then Some (rfc_decode s) else None)"
    and "\<forall>seg\<in>set (split_on CHR ''/'' key). valid seg"
  shows "percent_decode_path_segments_lossy pdec
           (join ''/'' (map (s3_url_encode pct_encode_doc non_alphanumeric_doc) (split_on CHR ''/'' key))) = key"
proof -
  let ?es = "map (s3_url_encode pct_encode_doc non_alphanumeric_doc) (split_on CHR ''/'' key)"
  have "split_on CHR ''/'' (join ''/'' ?es) = ?es"
    by (rule split_on_join) (auto simp: s3_url_encode_def slash_notin_encode)
  moreover have "map (\<lambda>seg. if valid (rfc_decode seg) then rfc_decode seg else seg) ?es = split_on CHR ''/'' key"
    using assms(2) by (auto simp: s3_url_encode_def rfc_decode_encode intro!: map_idI)
  ultimately show ?thesis
    by (simp add: percent_decode_path_segments_doc [OF assms(1)] join_split_on)
qed

text \<open>
  An object key survives the wire: when a client encodes the segments of a key and joins
  them with slashes, the path decoder gives the key back, empty segments included, and a segment
  whose decoding is not UTF-8 is kept as it was written. The hypothesis is the documented
  behaviour of \<open>percent_decode_str(_).decode_utf8()\<close>, for any notion \<open>valid\<close> of valid text.
\<close>
theorem percent_decode_path_segments_roundtrip:
  assumes "\<And>s. pdec s = (if valid (rfc_decode s) then Some (rfc_decode s) else None)"
    and "\<forall>seg\<in>set (split_on CHR ''/'' key). valid seg"
  shows "percent_decode_path_segments_lossy pdec
           (join ''/'' (map (s3_url_encode pct_encode_doc non_alphanumeric_doc) (split_on CHR ''/'' key)))
         = key \<and>
         percent_decode_path_segments_lossy pdec inp =
           join ''/'' (map (\<lambda>seg. if valid (rfc_decode seg) then rfc_decode seg else seg)
             (split_on CHR ''/'' inp))"
  using decode_encoded_key [OF assms] percent_decode_path_segments_doc [OF assms(1)] by blast

theorem percent_decode_path_segments_roundtrip_witness:
  "\<exists>pdec. percent_decode_path_segments_lossy pdec ''a%20b//c'' = ''a b//c'' \<and>
     percent_decode_path_segments_lossy pdec
       (join ''/'' (map (s3_url_encode pct_encode_doc non_alphanumeric_doc)
          (split_on CHR ''/'' ''a b//c''))) = ''a b//c''"
proof -
  let ?pdec = "\<lambda>s. Some (rfc_decode s)"
  have dec: "?pdec s = (if (\<lambda>_. True) (rfc_decode s) then Some (rfc_decode s) else None)" for s
    by simp
  have eval: "rfc_decode ''a%20b'' = ''a b'' \<and> rfc_decode ''c'' = ''c''" "rfc_decode [] = []"
    "split_on CHR ''/'' ''a%20b//c'' = [''a%20b'', [], ''c'']"
    by code_simp+
  have "percent_decode_path_segments_lossy ?pdec ''a%20b//c'' = ''a b//c'' \<and>
     percent_decode_path_segments_lossy ?pdec
       (join ''/'' (map (s3_url_encode pct_encode_doc non_alphanumeric_doc)
          (split_on CHR ''/'' ''a b//c''))) = ''a b//c''"
    using percent_decode_path_segments_roundtrip [OF dec, of "''a b//c''" "''a%20b//c''"]
    by (simp only: eval list.map join.simps append.simps if_True ball_triv True_implies_equals simp_thms)
  then show ?thesis
    by (rule exI [of _ ?pdec])
qed

end
