(* ===== verification/Log_Redact.thy ===== *)
theory Log_Redact
  imports Rust_Std
begin

text \<open>
  The redaction of SigV4 credentials in logged URIs,
  \<open>crates/s32p-support/src/log_redact.rs\<close>. A \<open>char\<close> boundary of a \<open>str\<close> is a byte that is not
  a UTF-8 continuation byte; \<open>char_indices\<close> lists the positions of those bytes. The lemmas show
  that the log keeps every parameter name and every value that is not a credential, and that it
  does not depend on a credential beyond its first eight characters.
\<close>

section \<open>The code\<close>

definition PREFIX_CHARS :: nat where
  "PREFIX_CHARS = 8"

definition ELLIPSIS :: str where
  "ELLIPSIS = bytes [0xE2, 0x80, 0xA6]"

definition is_char_start :: "char \<Rightarrow> bool" where
  "is_char_start b \<longleftrightarrow> \<not> (128 \<le> byte b \<and> byte b < 192)"

fun char_indices_from :: "nat \<Rightarrow> str \<Rightarrow> nat list" where
  "char_indices_from i [] = []"
| "char_indices_from i (b # bs) =
     (if is_char_start b then i # char_indices_from (Suc i) bs else char_indices_from (Suc i) bs)"

definition char_indices :: "str \<Rightarrow> nat list" where
  "char_indices s = char_indices_from 0 s"

text \<open>The loop over \<open>char_indices\<close>: \<open>byte_idx\<close> and \<open>taken\<close> are its two variables.\<close>

fun truncate_loop :: "nat \<Rightarrow> nat list \<Rightarrow> nat \<times> nat \<Rightarrow> nat \<times> nat" where
  "truncate_loop len [] (byte_idx, taken) = (byte_idx, taken)"
| "truncate_loop len (i # rest) (byte_idx, taken) =
     (if taken = PREFIX_CHARS then (i, taken) else truncate_loop len rest (len, taken + 1))"

definition truncate_value :: "str \<Rightarrow> str" where
  "truncate_value v =
     (if v = [] then []
      else (case truncate_loop (length v) (char_indices v) (0, 0) of (byte_idx, taken) \<Rightarrow>
        if taken < PREFIX_CHARS \<or> length v \<le> byte_idx then v else take byte_idx v @ ELLIPSIS))"

definition is_sensitive_param :: "str \<Rightarrow> bool" where
  "is_sensitive_param key \<longleftrightarrow>
     eq_ignore_ascii_case key ''X-Amz-Signature'' \<or> eq_ignore_ascii_case key ''X-Amz-Security-Token''"

definition redact_param :: "str \<Rightarrow> str" where
  "redact_param kv =
     (case split_once CHR ''='' kv of
        None \<Rightarrow> kv
      | Some (key, val) \<Rightarrow> key @ ''='' @ (if is_sensitive_param key then truncate_value val else val))"

definition redact_query_for_log :: "str \<Rightarrow> str" where
  "redact_query_for_log query =
     (if query = [] then [] else join ''&'' (map redact_param (split_on CHR ''&'' query)))"

definition redact_uri_for_log :: "uri \<Rightarrow> str" where
  "redact_uri_for_log u =
     (case uri_query u of
        None \<Rightarrow> uri_path u
      | Some q \<Rightarrow> uri_path u @ ''?'' @ redact_query_for_log q)"

section \<open>Truncation\<close>

lemma char_indices_from_append:
  "char_indices_from i (a @ b) = char_indices_from i a @ char_indices_from (i + length a) b"
  by (induction a arbitrary: i) auto

lemma truncate_loop_eq:
  assumes "taken \<le> PREFIX_CHARS"
  shows "truncate_loop len is (bi, taken) =
         (if length is \<le> PREFIX_CHARS - taken
          then (if is = [] then bi else len, taken + length is)
          else (is ! (PREFIX_CHARS - taken), PREFIX_CHARS))"
  using assms
proof (induction "is" arbitrary: bi taken)
  case (Cons i "is")
  show ?case
  proof (cases "taken = PREFIX_CHARS")
    case False
    with Cons.prems have "PREFIX_CHARS - taken = Suc (PREFIX_CHARS - (taken + 1))" "taken + 1 \<le> PREFIX_CHARS"
      by auto
    with False Cons.IH [of "taken + 1" len] show ?thesis
      by auto
  qed simp
qed simp

text \<open>The first \<open>PREFIX_CHARS\<close> characters of a text that goes on after them.\<close>

lemma truncate_value_long:
  assumes "length (char_indices p) = PREFIX_CHARS" and "is_char_start b"
  shows "truncate_value (p @ b # s) = p @ ELLIPSIS"
proof -
  have "char_indices (p @ b # s) = char_indices p @ length p # char_indices_from (Suc (length p)) s"
    using assms(2) by (simp add: char_indices_def char_indices_from_append)
  then have "truncate_loop (length (p @ b # s)) (char_indices (p @ b # s)) (0, 0) =
             (length p, PREFIX_CHARS)"
    using assms(1) by (simp add: truncate_loop_eq nth_append)
  then show ?thesis
    by (simp add: truncate_value_def)
qed

lemma truncate_value_short: "length (char_indices v) \<le> PREFIX_CHARS \<Longrightarrow> truncate_value v = v"
  by (auto simp: truncate_value_def truncate_loop_eq PREFIX_CHARS_def)

lemma truncate_value_cases:
  "truncate_value v = v \<or> (\<exists>i. truncate_value v = take i v @ ELLIPSIS)"
  by (auto simp: truncate_value_def split: prod.splits)

lemma amp_notin_ELLIPSIS: "CHR ''&'' \<notin> set ELLIPSIS"
  by code_simp

lemma amp_notin_truncate: "CHR ''&'' \<notin> set v \<Longrightarrow> CHR ''&'' \<notin> set (truncate_value v)"
  using truncate_value_cases [of v] amp_notin_ELLIPSIS by (auto dest: in_set_takeD)

section \<open>Parameters\<close>

lemma redact_param_amp:
  assumes "CHR ''&'' \<notin> set kv"
  shows "CHR ''&'' \<notin> set (redact_param kv)"
proof (cases "split_once CHR ''='' kv")
  case (Some p)
  with assms show ?thesis
    by (cases p) (simp add: redact_param_def split_once_Some_iff amp_notin_truncate)
qed (use assms in \<open>simp add: redact_param_def\<close>)

lemma redact_query_eq:
  "redact_query_for_log q = join ''&'' (map redact_param (split_on CHR ''&'' q))"
  by (simp add: redact_query_for_log_def redact_param_def)

lemma split_on_redact:
  "split_on CHR ''&'' (redact_query_for_log q) = map redact_param (split_on CHR ''&'' q)"
  unfolding redact_query_eq
  by (rule split_on_join) (auto dest: split_on_no_sep simp: redact_param_amp)

lemma split_once_redact:
  "split_once CHR ''='' (redact_param kv) =
     map_option (\<lambda>(k, v). (k, if is_sensitive_param k then truncate_value v else v))
       (split_once CHR ''='' kv)"
proof (cases "split_once CHR ''='' kv")
  case (Some p)
  then show ?thesis
    by (cases p) (simp add: redact_param_def split_once_Some_iff)
qed (simp add: redact_param_def)

lemma redact_param_insensitive:
  assumes "is_sensitive_param key" "CHR ''='' \<notin> set key"
    and "length (char_indices p) = PREFIX_CHARS" "is_char_start b"
  shows "redact_param (key @ CHR ''='' # p @ b # s) = key @ CHR ''='' # p @ ELLIPSIS"
  using assms by (simp add: redact_param_def truncate_value_long)

text \<open>
  C18. Credentials do not reach the log: for a signature or a session token whose first eight
  characters are \<open>p\<close> and that is longer, the logged URI is the same whatever follows \<open>p\<close>,
  at any place of the query and next to any other parameters.
\<close>
theorem redact_uri_noninterference:
  assumes "is_sensitive_param key" "CHR ''='' \<notin> set key" "CHR ''&'' \<notin> set key"
    and "length (char_indices p) = PREFIX_CHARS" "CHR ''&'' \<notin> set p"
    and "is_char_start b" "CHR ''&'' \<notin> set (b # s)"
    and "is_char_start b'" "CHR ''&'' \<notin> set (b' # s')"
    and "\<forall>kv\<in>set (pre @ post). CHR ''&'' \<notin> set kv"
    and "query = (\<lambda>v. join ''&'' (pre @ (key @ ''='' @ v) # post))"
  shows "redact_uri_for_log \<lparr>uri_path = path, uri_query = Some (query (p @ b # s)), uri_authority = a\<rparr> =
         redact_uri_for_log \<lparr>uri_path = path, uri_query = Some (query (p @ b' # s')), uri_authority = a'\<rparr>"
proof -
  have split: "split_on CHR ''&'' (query v) = pre @ (key @ ''='' @ v) # post"
    if "CHR ''&'' \<notin> set v" for v
    unfolding assms(11) by (rule split_on_join) (use assms(3,10) that in auto)
  have "redact_query_for_log (query (p @ b # s)) = redact_query_for_log (query (p @ b' # s'))"
    using assms split by (simp add: redact_query_eq redact_param_insensitive)
  then show ?thesis
    by (simp add: redact_uri_for_log_def)
qed

theorem redact_uri_noninterference_witness:
  "redact_uri_for_log \<lparr>uri_path = ''/b/k'',
       uri_query = Some ''partNumber=1&x-amz-signature=0123456789abcdef&uploadId=7'',
       uri_authority = None\<rparr> =
   redact_uri_for_log \<lparr>uri_path = ''/b/k'',
       uri_query = Some ''partNumber=1&x-amz-signature=01234567ffff&uploadId=7'',
       uri_authority = None\<rparr>"
proof -
  have "is_sensitive_param ''x-amz-signature''" "length (char_indices ''01234567'') = PREFIX_CHARS"
    "is_char_start CHR ''8''" "is_char_start CHR ''f''"
    by code_simp+
  then show ?thesis
    using redact_uri_noninterference
      [where key = "''x-amz-signature''" and p = "''01234567''" and b = "CHR ''8''" and s = "''9abcdef''"
         and b' = "CHR ''f''" and s' = "''fff''" and pre = "[''partNumber=1'']" and post = "[''uploadId=7'']"
         and path = "''/b/k''" and a = None and a' = None, OF _ _ _ _ _ _ _ _ _ _ refl]
    by simp
qed

lemma redact_param_id:
  assumes "case split_once CHR ''='' kv of None \<Rightarrow> True
           | Some (k, v) \<Rightarrow> \<not> is_sensitive_param k \<or> length (char_indices v) \<le> PREFIX_CHARS"
  shows "redact_param kv = kv"
  using assms
  by (auto simp: redact_param_def split_once_Some_iff truncate_value_short split: option.splits)

text \<open>
  Redaction keeps the shape of the query: the same parameters with the same names in the same
  order, every value that is not a credential in full; and a URI with no credential longer than
  eight characters is logged as its path and query, byte for byte.
\<close>
theorem redact_uri_preserves:
  "map (split_once CHR ''='') (split_on CHR ''&'' (redact_query_for_log q)) =
     map (\<lambda>kv. map_option (\<lambda>(k, v). (k, if is_sensitive_param k then truncate_value v else v))
       (split_once CHR ''='' kv)) (split_on CHR ''&'' q) \<and>
   ((\<forall>q'. uri_query u = Some q' \<longrightarrow> (\<forall>kv\<in>set (split_on CHR ''&'' q').
       case split_once CHR ''='' kv of None \<Rightarrow> True
       | Some (k, v) \<Rightarrow> \<not> is_sensitive_param k \<or> length (char_indices v) \<le> PREFIX_CHARS)) \<longrightarrow>
    redact_uri_for_log u = path_and_query u)"
proof (intro conjI impI)
  show "map (split_once CHR ''='') (split_on CHR ''&'' (redact_query_for_log q)) =
     map (\<lambda>kv. map_option (\<lambda>(k, v). (k, if is_sensitive_param k then truncate_value v else v))
       (split_once CHR ''='' kv)) (split_on CHR ''&'' q)"
    by (simp add: split_on_redact split_once_redact)
next
  assume "\<forall>q'. uri_query u = Some q' \<longrightarrow> (\<forall>kv\<in>set (split_on CHR ''&'' q').
       case split_once CHR ''='' kv of None \<Rightarrow> True
       | Some (k, v) \<Rightarrow> \<not> is_sensitive_param k \<or> length (char_indices v) \<le> PREFIX_CHARS)"
  then have "redact_query_for_log q' = q'" if "uri_query u = Some q'" for q'
    using that by (simp add: redact_query_eq redact_param_id map_idI join_split_on)
  then show "redact_uri_for_log u = path_and_query u"
    by (simp add: redact_uri_for_log_def path_and_query_def split: option.splits)
qed

theorem redact_uri_preserves_witness:
  "redact_uri_for_log \<lparr>uri_path = ''/b'', uri_query = Some ''list-type=2'', uri_authority = None\<rparr> =
   ''/b?list-type=2''"
proof -
  have "is_sensitive_param ''list-type'' = False"
    by code_simp
  then show ?thesis
    using redact_uri_preserves
      [of "[]" "\<lparr>uri_path = ''/b'', uri_query = Some ''list-type=2'', uri_authority = None\<rparr>"]
    by (simp add: path_and_query_def)
qed

end
