(* ===== verification/Expiring_Map.thy ===== *)
theory Expiring_Map
  imports Rust_Std
begin

text \<open>
  The contract of the maps whose entries expire: the user and bucket caches of the directory
  (\<open>cache.rs\<close>), the session store of the proxy (\<open>session.rs\<close>) and the user-name cache of the
  gateway (\<open>nss_client.rs\<close>). A provider has a lookup at an instant, an insertion with a
  deadline, and operations that may only forget entries. From these laws follows, once for all
  providers, that a lookup never returns anything but the value of the last insertion for its
  key, and never at or after that insertion's deadline. The second locale is for providers that
  forget an entry only when it has expired: there a lookup is determined by the history.

  Instants (\<open>std::time::Instant\<close>) are integers, in nanoseconds.
\<close>

type_synonym instant = int

datatype ('f, 'k, 'v) map_event =
    Put instant instant 'k 'v  \<comment> \<open>at an instant, with a deadline\<close>
  | Forget instant 'f

fun event_time :: "('f, 'k, 'v) map_event \<Rightarrow> instant" where
  "event_time (Put t d k v) = t"
| "event_time (Forget t f) = t"

text \<open>The deadline and value of the last insertion for a key.\<close>

fun last_put :: "'k \<Rightarrow> ('f, 'k, 'v) map_event list \<Rightarrow> (instant \<times> 'v) option" where
  "last_put k [] = None"
| "last_put k (e # evs) =
     (case last_put k evs of
        Some p \<Rightarrow> Some p
      | None \<Rightarrow> (case e of Put t d k' v \<Rightarrow> if k' = k then Some (d, v) else None | Forget t f \<Rightarrow> None))"

definition fresh_value :: "instant \<Rightarrow> (instant \<times> 'v) option \<Rightarrow> 'v option" where
  "fresh_value t p = (case p of None \<Rightarrow> None | Some (d, v) \<Rightarrow> if t < d then Some v else None)"

lemma last_put_snoc:
  "last_put k (evs @ [e]) =
     (case e of Put t d k' v \<Rightarrow> if k' = k then Some (d, v) else last_put k evs
      | Forget t f \<Rightarrow> last_put k evs)"
  by (induction evs) (auto split: map_event.splits option.splits)

lemma last_put_in: "last_put k evs = Some (d, v) \<Longrightarrow> \<exists>t. Put t d k v \<in> set evs"
  by (induction evs) (auto split: map_event.splits option.splits if_splits)

lemma fresh_value_Some_iff: "fresh_value t p = Some v \<longleftrightarrow> (\<exists>d. p = Some (d, v) \<and> t < d)"
  by (auto simp: fresh_value_def split: option.splits)

locale expiring_map =
  fixes none :: 's
    and get :: "'s \<Rightarrow> instant \<Rightarrow> 'k \<Rightarrow> 'v option"
    and put :: "'s \<Rightarrow> instant \<Rightarrow> instant \<Rightarrow> 'k \<Rightarrow> 'v \<Rightarrow> 's"
    and forget :: "'s \<Rightarrow> instant \<Rightarrow> 'f \<Rightarrow> 's"
  assumes get_none: "get none t k = None"
    and get_put: "get (put s t d k v) t' k = fresh_value t' (Some (d, v))"
    and get_put_other: "k \<noteq> k' \<Longrightarrow> get (put s t d k v) t' k' = None \<or>
                          get (put s t d k v) t' k' = get s t' k'"
    and get_forget: "get (forget s t f) t' k = None \<or> get (forget s t f) t' k = get s t' k"
begin

fun step :: "'s \<Rightarrow> ('f, 'k, 'v) map_event \<Rightarrow> 's" where
  "step s (Put t d k v) = put s t d k v"
| "step s (Forget t f) = forget s t f"

definition run :: "('f, 'k, 'v) map_event list \<Rightarrow> 's" where
  "run evs = foldl step none evs"

lemma run_snoc: "run (evs @ [e]) = step (run evs) e"
  by (simp add: run_def)

lemma get_run: "get (run evs) t k = None \<or> get (run evs) t k = fresh_value t (last_put k evs)"
proof (induction evs rule: rev_induct)
  case Nil
  then show ?case
    by (simp add: run_def get_none)
next
  case (snoc e evs)
  show ?case
  proof (cases e)
    case (Put te d k' v)
    then show ?thesis
      using snoc get_put_other [of k' k "run evs" te d v t]
      by (cases "k' = k") (auto simp: run_snoc last_put_snoc get_put)
  next
    case (Forget te f)
    then show ?thesis
      using snoc get_forget [of "run evs" te f t k] by (auto simp: run_snoc last_put_snoc)
  qed
qed

lemma get_run_fresh:
  assumes "get (run evs) t k = Some v"
  shows "\<exists>t0 d. Put t0 d k v \<in> set evs \<and> t < d \<and> last_put k evs = Some (d, v)"
proof -
  from assms get_run [of evs t k] have "fresh_value t (last_put k evs) = Some v"
    by auto
  then obtain d where "last_put k evs = Some (d, v)" "t < d"
    by (auto simp: fresh_value_Some_iff)
  with last_put_in [OF this(1)] show ?thesis
    by auto
qed

end

locale exact_expiring_map = expiring_map +
  assumes get_put_keeps: "k \<noteq> k' \<Longrightarrow> t \<le> t' \<Longrightarrow> get (put s t d k v) t' k' = get s t' k'"
    and get_forget_expired: "t \<le> t' \<Longrightarrow> get (forget s t f) t' k = get s t' k"
begin

lemma get_run_exact:
  assumes "\<forall>e\<in>set evs. event_time e \<le> t"
  shows "get (run evs) t k = fresh_value t (last_put k evs)"
  using assms
proof (induction evs rule: rev_induct)
  case Nil
  then show ?case
    by (simp add: run_def get_none fresh_value_def)
next
  case (snoc e evs)
  then show ?case
    by (cases e) (auto simp: run_snoc last_put_snoc get_put get_put_keeps get_forget_expired)
qed

end

end
