(* ===== verification/Nss.thy ===== *)
theory Nss
  imports Expiring_Map "HOL-Library.Finite_Map"
begin

text \<open>
  The user-name service: the wire format (\<open>crates/s32p-support/src/nss_proto.rs\<close>), the lookup
  itself (\<open>nss_lookup.rs\<close>), the proxy's listener (\<open>crates/s32p-proxy/src/nss_listener.rs\<close>) and
  the gateway's client with its cache (\<open>crates/s32p-gateway/src/nss_client.rs\<close>). The C library's
  \<open>getpwuid_r\<close> is a parameter, from the uid and the buffer length to the return code and the
  name; \<open>valid\<close> is UTF-8 validity (\<open>String::from_utf8\<close>). A connection is the list of bytes still
  to be read on it.
\<close>

section \<open>Wire format\<close>

definition ABSTRACT_PREFIX :: char where
  "ABSTRACT_PREFIX = CHR ''@''"

definition REQUEST_LEN :: nat where
  "REQUEST_LEN = 4"

definition MAX_NAME_LEN :: nat where
  "MAX_NAME_LEN = 255"

definition encode_request :: "u32 \<Rightarrow> str" where
  "encode_request uid = map (\<lambda>i. char_of (unat uid div 256 ^ i mod 256)) [0..<REQUEST_LEN]"

definition decode_request :: "str \<Rightarrow> u32" where
  "decode_request buf = word_of_nat (\<Sum>i<REQUEST_LEN. byte (buf ! i) * 256 ^ i)"

datatype name_too_long = NameTooLong

definition encode_response :: "str option \<Rightarrow> name_too_long + str" where
  "encode_response name =
     (let bs = (case name of Some n \<Rightarrow> n | None \<Rightarrow> []) in
      if length bs > MAX_NAME_LEN then Inl NameTooLong else Inr (char_of (length bs) # bs))"

section \<open>The lookup and the listener\<close>

definition ERANGE :: int where
  "ERANGE = 34"

fun lookup_loop :: "(u32 \<Rightarrow> nat \<Rightarrow> int \<times> str option) \<Rightarrow> u32 \<Rightarrow> nat \<Rightarrow> nat \<Rightarrow> str option" where
  "lookup_loop getpwuid_r uid buf_len 0 = None"
| "lookup_loop getpwuid_r uid buf_len (Suc n) =
     (case getpwuid_r uid buf_len of
        (rc, name) \<Rightarrow>
          if rc = 0 \<and> name \<noteq> None then name
          else if rc = ERANGE then lookup_loop getpwuid_r uid (buf_len * 2) n
          else None)"

definition lookup_username_blocking :: "(u32 \<Rightarrow> nat \<Rightarrow> int \<times> str option) \<Rightarrow> u32 \<Rightarrow> str option" where
  "lookup_username_blocking getpwuid_r uid = lookup_loop getpwuid_r uid (16 * 1024) 3"

definition serve_reply :: "(u32 \<Rightarrow> str option) \<Rightarrow> u32 \<Rightarrow> str" where
  "serve_reply lookup uid =
     (case encode_response (lookup uid) of Inr b \<Rightarrow> b | Inl _ \<Rightarrow> [char_of (0 :: nat)])"

text \<open>The bytes written on a connection whose client sends the given bytes and then closes.\<close>

function serve_connection :: "(u32 \<Rightarrow> str option) \<Rightarrow> str \<Rightarrow> str" where
  "serve_connection lookup inp =
     (if length inp < REQUEST_LEN then []
      else serve_reply lookup (decode_request (take REQUEST_LEN inp)) @
           serve_connection lookup (drop REQUEST_LEN inp))"
  by pat_completeness auto
termination
  by (relation "measure (\<lambda>(_, inp). length inp)") (auto simp: REQUEST_LEN_def)

declare serve_connection.simps [simp del]

section \<open>The client\<close>

definition CACHE_TTL :: int where
  "CACHE_TTL = 5 * 60 * 1000000000"

definition ERROR_FALLBACK_TTL :: int where
  "ERROR_FALLBACK_TTL = 30 * 1000000000"

datatype io_error = UnexpectedEof | InvalidData | TimedOut | OtherIo str

record cache_entry =
  ce_value :: "str option"
  ce_expires_at :: instant

datatype address = Abstract str | Path str

datatype backend = Direct | Socket address

type_synonym name_cache = "(u32, cache_entry) fmap"

record 'c nss_client =
  nss_cache :: name_cache
  nss_ttl :: int
  nss_backend :: backend
  nss_conn :: "'c option"

record sweep_stats =
  sw_before :: nat
  sw_after :: nat
  sw_removed :: nat

definition from_env :: "str option \<Rightarrow> 'c nss_client" where
  "from_env env_value =
     (let backend = (case map_option trim env_value of
          None \<Rightarrow> Direct
        | Some [] \<Rightarrow> Direct
        | Some raw \<Rightarrow> if starts_with [ABSTRACT_PREFIX] raw then Socket (Abstract (drop 1 raw))
                      else Socket (Path raw))
      in \<lparr>nss_cache = fmempty, nss_ttl = CACHE_TTL, nss_backend = backend, nss_conn = None\<rparr>)"

definition cache_get :: "name_cache \<Rightarrow> instant \<Rightarrow> u32 \<Rightarrow> str option option" where
  "cache_get cache now uid =
     (case fmlookup cache uid of
        None \<Rightarrow> None
      | Some e \<Rightarrow> if ce_expires_at e > now then Some (ce_value e) else None)"

definition cache_insert :: "name_cache \<Rightarrow> instant \<Rightarrow> u32 \<Rightarrow> str option \<Rightarrow> int \<Rightarrow> name_cache" where
  "cache_insert cache now uid v ttl = fmupd uid \<lparr>ce_value = v, ce_expires_at = now + ttl\<rparr> cache"

definition sweep :: "name_cache \<Rightarrow> instant \<Rightarrow> name_cache \<times> sweep_stats" where
  "sweep cache now =
     (let before = fcard (fmdom cache);
          kept = fmfilter (\<lambda>uid. case fmlookup cache uid of Some e \<Rightarrow> ce_expires_at e > now | None \<Rightarrow> False) cache;
          after = fcard (fmdom kept)
      in (kept, \<lparr>sw_before = before, sw_after = after, sw_removed = before - after\<rparr>))"

text \<open>The reading half of a query, on the bytes that arrive: the result and the bytes left.\<close>

definition read_reply :: "(str \<Rightarrow> bool) \<Rightarrow> str \<Rightarrow> (io_error + str option) \<times> str" where
  "read_reply valid inp =
     (case inp of
        [] \<Rightarrow> (Inl UnexpectedEof, [])
      | l # rest \<Rightarrow>
          if byte l = (0 :: nat) then (Inr None, rest)
          else if length rest < byte l then (Inl UnexpectedEof, [])
          else if valid (take (byte l) rest) then (Inr (Some (take (byte l) rest)), drop (byte l) rest)
          else (Inl InvalidData, drop (byte l) rest))"

text \<open>
  A whole query on a connection to a listener: \<open>unread\<close> are the bytes the listener has already
  written and the client has not read yet; writing the request makes the listener append its
  reply.
\<close>

definition one_query ::
  "(u32 \<Rightarrow> str option) \<Rightarrow> (str \<Rightarrow> bool) \<Rightarrow> str \<Rightarrow> u32 \<Rightarrow> (io_error + str option) \<times> str" where
  "one_query listener valid unread uid =
     read_reply valid (unread @ serve_connection listener (encode_request uid))"

datatype query_outcome = Answered "str option" | Failed io_error | QueryTimeout

fun query_attempts ::
  "(nat \<Rightarrow> io_error + 'c) \<Rightarrow> (nat \<Rightarrow> 'c \<Rightarrow> u32 \<Rightarrow> query_outcome \<times> 'c) \<Rightarrow> u32 \<Rightarrow> nat list \<Rightarrow> 'c option \<Rightarrow>
   (io_error + str option) option \<times> 'c option" where
  "query_attempts connect query uid [] conn = (None, conn)"
| "query_attempts connect query uid (attempt # rest) conn =
     (case (case conn of Some c \<Rightarrow> Inr c | None \<Rightarrow> connect attempt) of
        Inl e \<Rightarrow> (Some (Inl e), None)
      | Inr c \<Rightarrow>
          (case query attempt c uid of
             (Answered name, c') \<Rightarrow> (Some (Inr name), Some c')
           | (Failed e, _) \<Rightarrow>
               if attempt = 1 then (Some (Inl e), None)
               else query_attempts connect query uid rest None
           | (QueryTimeout, _) \<Rightarrow> (Some (Inl TimedOut), None)))"

text \<open>\<open>None\<close> is the \<open>unreachable!\<close> after the loop.\<close>

definition query_socket ::
  "(nat \<Rightarrow> io_error + 'c) \<Rightarrow> (nat \<Rightarrow> 'c \<Rightarrow> u32 \<Rightarrow> query_outcome \<times> 'c) \<Rightarrow> u32 \<Rightarrow> 'c option \<Rightarrow>
   (io_error + str option) option \<times> 'c option" where
  "query_socket connect query uid conn = query_attempts connect query uid [0, 1] conn"

text \<open>
  The client's lookup: \<open>now\<close> is the instant of the cache read, \<open>now'\<close> that of the insertion;
  \<open>blocking\<close> is the local lookup of the \<open>Direct\<close> backend, \<open>None\<close> also when its task fails.
\<close>

definition nss_lookup ::
  "(u32 \<Rightarrow> str option) \<Rightarrow> (nat \<Rightarrow> io_error + 'c) \<Rightarrow> (nat \<Rightarrow> 'c \<Rightarrow> u32 \<Rightarrow> query_outcome \<times> 'c) \<Rightarrow>
   instant \<Rightarrow> instant \<Rightarrow> u32 \<Rightarrow> 'c nss_client \<Rightarrow> str option \<times> 'c nss_client" where
  "nss_lookup blocking connect query now now' uid cl =
     (case cache_get (nss_cache cl) now uid of
        Some hit \<Rightarrow> (hit, cl)
      | None \<Rightarrow>
          (case nss_backend cl of
             Direct \<Rightarrow>
               (let name = blocking uid in
                (name, cl\<lparr>nss_cache := cache_insert (nss_cache cl) now' uid name (nss_ttl cl)\<rparr>))
           | Socket addr \<Rightarrow>
               (case query_socket connect query uid (nss_conn cl) of
                  (Some (Inr name), conn) \<Rightarrow>
                    (name, cl\<lparr>nss_cache := cache_insert (nss_cache cl) now' uid name (nss_ttl cl),
                              nss_conn := conn\<rparr>)
                | (_, conn) \<Rightarrow>
                    (None, cl\<lparr>nss_cache := cache_insert (nss_cache cl) now' uid None ERROR_FALLBACK_TTL,
                              nss_conn := conn\<rparr>))))"

section \<open>Round trips\<close>

lemma length_encode_request [simp]: "length (encode_request uid) = REQUEST_LEN"
  by (simp add: encode_request_def)

lemma base_256_sum:
  fixes u :: nat
  assumes "u < 4294967296"
  shows "u mod 256 + u div 256 mod 256 * 256 + u div 65536 mod 256 * 65536 +
         u div 16777216 mod 256 * 16777216 = u"
proof -
  have "u div 65536 = u div 256 div 256" "u div 16777216 = u div 256 div 256 div 256"
    by (simp_all add: div_mult2_eq [symmetric])
  moreover have "u div 256 div 256 div 256 < 256"
    using assms by (simp add: div_mult2_eq [symmetric] less_mult_imp_div_less)
  moreover have "u = u mod 256 + 256 * (u div 256)"
    "u div 256 = u div 256 mod 256 + 256 * (u div 256 div 256)"
    "u div 256 div 256 = u div 256 div 256 mod 256 + 256 * (u div 256 div 256 div 256)"
    by simp_all
  ultimately show ?thesis
    by (simp only: mod_less)
qed

lemma sum_request: "(\<Sum>i<REQUEST_LEN. f i) = f 0 + f 1 + f 2 + (f 3 :: nat)"
proof -
  have "{..<REQUEST_LEN} = {0, 1, 2, 3}"
    by (auto simp: REQUEST_LEN_def)
  then show ?thesis
    by simp
qed

lemma byte_encode_request:
  "i < REQUEST_LEN \<Longrightarrow> byte (encode_request uid ! i) = unat uid div 256 ^ i mod 256"
  by (simp add: encode_request_def)

lemma decode_encode_request: "decode_request (encode_request uid) = uid"
proof -
  have "unat uid < 4294967296"
    using unsigned_less [of uid, where ?'a = nat] by simp
  then have "(\<Sum>i<REQUEST_LEN. byte (encode_request uid ! i) * 256 ^ i) = unat uid"
    unfolding sum_request using base_256_sum [of "unat uid"]
    by (simp add: byte_encode_request REQUEST_LEN_def)
  then show ?thesis
    by (simp add: decode_request_def)
qed

text \<open>What the one-byte length field can carry of a name: the empty name reads as unknown.\<close>

definition wire_name :: "str option \<Rightarrow> str option" where
  "wire_name name =
     (case name of None \<Rightarrow> None | Some n \<Rightarrow> if n \<noteq> [] \<and> length n \<le> MAX_NAME_LEN then Some n else None)"

lemma read_serve_reply:
  assumes "\<And>n. lookup uid = Some n \<Longrightarrow> valid n"
  shows "read_reply valid (serve_reply lookup uid @ rest) = (Inr (wire_name (lookup uid)), rest)"
  using assms
  by (cases "lookup uid")
     (auto simp: serve_reply_def encode_response_def wire_name_def read_reply_def MAX_NAME_LEN_def Let_def)

lemma serve_connection_request:
  "serve_connection lookup (encode_request uid @ inp) = serve_reply lookup uid @ serve_connection lookup inp"
  by (subst serve_connection.simps) (simp add: decode_encode_request)

lemma serve_connection_Nil [simp]: "serve_connection lookup [] = []"
  by (subst serve_connection.simps) (simp add: REQUEST_LEN_def)

fun read_replies :: "(str \<Rightarrow> bool) \<Rightarrow> nat \<Rightarrow> str \<Rightarrow> (io_error + str option) list \<times> str" where
  "read_replies valid 0 inp = ([], inp)"
| "read_replies valid (Suc n) inp =
     (case read_reply valid inp of (r, rest) \<Rightarrow>
      case read_replies valid n rest of (rs, rest') \<Rightarrow> (r # rs, rest'))"

text \<open>
  A worker that sends any number of requests on one connection reads back exactly the
  listener's answers in order, one per request and nothing left over: the user name where the
  uid has one of 1 to 255 bytes, and otherwise the answer for an unknown uid. The hypothesis is
  that the names of the password database are UTF-8, as \<open>to_string_lossy\<close> guarantees.
\<close>
theorem nss_pipeline_roundtrip:
  assumes "\<And>uid n. lookup uid = Some n \<Longrightarrow> valid n"
  shows "read_replies valid (length uids) (serve_connection lookup (concat (map encode_request uids))) =
         (map (\<lambda>uid. Inr (wire_name (lookup uid))) uids, [])"
  by (induction uids) (simp_all add: serve_connection_request read_serve_reply assms)

theorem nss_pipeline_roundtrip_witness:
  "read_replies (\<lambda>_. True) (Suc (Suc 0))
     (serve_connection (\<lambda>uid. if uid = 0 then Some ''root'' else None)
        (encode_request 0 @ encode_request 1000)) =
   ([Inr (Some ''root''), Inr None], [])"
  using nss_pipeline_roundtrip [of "\<lambda>uid. if uid = 0 then Some ''root'' else None" "\<lambda>_. True" "[0, 1000]"]
  by (simp add: wire_name_def MAX_NAME_LEN_def)

section \<open>The connection\<close>

lemma query_socket_returns:
  "\<exists>r. fst (query_socket connect query uid conn) = Some r"
  by (auto simp: query_socket_def split: sum.splits query_outcome.splits option.splits prod.splits)

lemma query_socket_conn:
  "snd (query_socket connect query uid conn) = Some c \<Longrightarrow>
   \<exists>name. fst (query_socket connect query uid conn) = Some (Inr name)"
  by (auto simp: query_socket_def split: sum.splits query_outcome.splits option.splits prod.splits if_splits)

section \<open>The cache\<close>

interpretation nss_names: exact_expiring_map
  "fmempty :: name_cache" cache_get "\<lambda>cache t d uid v. cache_insert cache t uid v (d - t)"
  "\<lambda>cache t (_ :: unit). fst (sweep cache t)"
  by unfold_locales
     (auto simp: cache_get_def cache_insert_def sweep_def Let_def fresh_value_def split: option.splits)

lemma sweep_stats:
  "sw_after (snd (sweep cache now)) \<le> sw_before (snd (sweep cache now)) \<and>
   sw_removed (snd (sweep cache now)) =
     sw_before (snd (sweep cache now)) - fcard (fmdom (fst (sweep cache now)))"
  by (auto simp: sweep_def Let_def intro!: fcard_mono)



end
