(* ===== verification/Directory_Cache.thy ===== *)
theory Directory_Cache
  imports Expiring_Map Http_Utils "HOL-Library.Finite_Map"
begin

text \<open>
  The caching directory, \<open>crates/s32p-directory/src/cache.rs\<close>. A cache map is a finite map from
  access keys to entries; reading it and inserting into it at capacity are functions. The two
  lookups, \<open>user_by_access_key\<close> and \<open>buckets_for_access_key\<close>, have the same structure (read,
  claim the flight slot of the key, lock it, read again, ask the backend, insert, unlock,
  release the slot) and run concurrently: they are the step relation \<open>flight_step\<close>, over a heap
  of slot locks, with one rule for each stretch between two await points. It takes the lifetime
  of a value as parameter, \<open>user_ttl_of\<close> or \<open>buckets_ttl_of\<close>. The order in which a hash map
  lists its entries is the parameter \<open>pick\<close>: it chooses the victim among the entries with the
  soonest expiry.
\<close>

section \<open>The cache maps\<close>

record cache_config =
  user_ttl :: int
  buckets_ttl :: int
  negative_ttl :: int
  max_entries :: nat

definition default_cache_config :: cache_config where
  "default_cache_config =
     \<lparr>user_ttl = 30 * nanos, buckets_ttl = 30 * nanos, negative_ttl = 5 * nanos, max_entries = 4096\<rparr>"

record 'v entry =
  en_value :: 'v
  en_expires_at :: instant

type_synonym 'v cache_map = "(str, 'v entry) fmap"

definition map_len :: "('k, 'v) fmap \<Rightarrow> nat" where
  "map_len m = fcard (fmdom m)"

definition read_fresh :: "'v cache_map \<Rightarrow> instant \<Rightarrow> str \<Rightarrow> 'v option" where
  "read_fresh m now key =
     (case fmlookup m key of
        None \<Rightarrow> None
      | Some e \<Rightarrow> if en_expires_at e > now then Some (en_value e) else None)"

definition retain_fresh :: "'v cache_map \<Rightarrow> instant \<Rightarrow> 'v cache_map" where
  "retain_fresh m now =
     fmfilter (\<lambda>k. case fmlookup m k of Some e \<Rightarrow> en_expires_at e > now | None \<Rightarrow> False) m"

definition expiry_of :: "'v cache_map \<Rightarrow> str \<Rightarrow> instant" where
  "expiry_of m k = (case fmlookup m k of Some e \<Rightarrow> en_expires_at e | None \<Rightarrow> 0)"

definition soonest :: "'v cache_map \<Rightarrow> str fset" where
  "soonest m = ffilter (\<lambda>k. fBall (fmdom m) (\<lambda>k'. expiry_of m k \<le> expiry_of m k')) (fmdom m)"

definition min_by_key :: "(str fset \<Rightarrow> str) \<Rightarrow> 'v cache_map \<Rightarrow> str option" where
  "min_by_key pick m = (if map_len m = 0 then None else Some (pick (soonest m)))"

definition make_room :: "(str fset \<Rightarrow> str) \<Rightarrow> nat \<Rightarrow> 'v cache_map \<Rightarrow> instant \<Rightarrow> 'v cache_map" where
  "make_room pick cap m now =
     (if map_len m \<ge> cap then
        (let r = retain_fresh m now in
         if map_len r \<ge> cap
         then (case min_by_key pick r of Some victim \<Rightarrow> fmdrop victim r | None \<Rightarrow> r)
         else r)
      else m)"

text \<open>\<open>now\<close> is the instant of the pruning and \<open>now'\<close> that of the new entry.\<close>

definition insert_with_cap ::
  "(str fset \<Rightarrow> str) \<Rightarrow> instant \<Rightarrow> instant \<Rightarrow> 'v cache_map \<Rightarrow> str \<Rightarrow> 'v \<Rightarrow> int \<Rightarrow> nat \<Rightarrow> 'v cache_map" where
  "insert_with_cap pick now now' m key v ttl cap =
     fmupd key \<lparr>en_value = v, en_expires_at = now' + ttl\<rparr> (make_room pick cap m now)"

definition user_ttl_of :: "cache_config \<Rightarrow> 'u option \<Rightarrow> int" where
  "user_ttl_of cfg v = (if v \<noteq> None then user_ttl cfg else negative_ttl cfg)"

definition buckets_ttl_of :: "cache_config \<Rightarrow> 'b list \<Rightarrow> int" where
  "buckets_ttl_of cfg v = buckets_ttl cfg"

section \<open>Reading and inserting\<close>

lemma lookup_retain_fresh:
  "fmlookup (retain_fresh m now) k =
     (case fmlookup m k of Some e \<Rightarrow> if en_expires_at e > now then Some e else None | None \<Rightarrow> None)"
  by (auto simp: retain_fresh_def split: option.splits)

lemma lookup_make_room:
  "fmlookup (make_room pick cap m now) k = None \<or> fmlookup (make_room pick cap m now) k = fmlookup m k"
  by (auto simp: make_room_def Let_def lookup_retain_fresh split: option.splits)

text \<open>An insertion by its deadline, as the contract of expiring maps has it.\<close>

definition put_entry ::
  "(str fset \<Rightarrow> str) \<Rightarrow> nat \<Rightarrow> 'v cache_map \<Rightarrow> instant \<Rightarrow> instant \<Rightarrow> str \<Rightarrow> 'v \<Rightarrow> 'v cache_map" where
  "put_entry pick cap m now d key v = insert_with_cap pick now now m key v (d - now) cap"

lemma insert_with_cap_put:
  "insert_with_cap pick now now' m key v ttl cap = put_entry pick cap m now (now' + ttl) key v"
  by (simp add: put_entry_def insert_with_cap_def)

lemma lookup_put_entry:
  "fmlookup (put_entry pick cap m now d key v) k =
     (if k = key then Some \<lparr>en_value = v, en_expires_at = d\<rparr> else fmlookup (make_room pick cap m now) k)"
  by (simp add: put_entry_def insert_with_cap_def)

interpretation dir_cache: expiring_map
  "fmempty :: 'v cache_map" read_fresh "put_entry pick cap" "\<lambda>m t (_ :: unit). retain_fresh m t"
  for pick cap
proof unfold_locales
  fix k k' :: str and s :: "'v cache_map" and t t' d v
  assume "k \<noteq> k'"
  then show "read_fresh (put_entry pick cap s t d k v) t' k' = None \<or>
             read_fresh (put_entry pick cap s t d k v) t' k' = read_fresh s t' k'"
    using lookup_make_room [of pick cap s t k'] by (auto simp: read_fresh_def lookup_put_entry)
qed (auto simp: read_fresh_def lookup_put_entry fresh_value_def lookup_retain_fresh split: option.splits)

lemma map_len_zero: "map_len m = 0 \<longleftrightarrow> fmdom m = {||}"
  by (simp add: map_len_def fcard_0_eq)

lemma map_len_fmdrop: "k |\<in>| fmdom m \<Longrightarrow> map_len (fmdrop k m) = map_len m - 1"
  by (simp add: map_len_def fcard_fminus_fsingleton)

lemma map_len_fmupd: "map_len (fmupd k v m) \<le> Suc (map_len m)"
  by (simp add: map_len_def fcard_finsert_if)

lemma map_len_retain: "map_len (retain_fresh m now) \<le> map_len m"
  by (auto simp: map_len_def retain_fresh_def intro!: fcard_mono)

lemma map_len_retain_eq:
  assumes "map_len m \<le> map_len (retain_fresh m now)"
  shows "retain_fresh m now = m"
proof -
  have "fmdom (retain_fresh m now) |\<subseteq>| fmdom m"
    by (auto simp: retain_fresh_def)
  with assms have "fmdom (retain_fresh m now) = fmdom m"
    unfolding map_len_def by (metis fcard_seteq)
  then have none: "fmlookup (retain_fresh m now) k = None \<longleftrightarrow> fmlookup m k = None" for k
    by (metis fmdom_notD fmdom_notI)
  have "fmlookup (retain_fresh m now) k = fmlookup m k" for k
    using none [of k] by (cases "fmlookup m k") (auto simp: lookup_retain_fresh split: if_splits)
  then show ?thesis
    by (rule fmap_ext)
qed

lemma soonest_not_empty:
  assumes "map_len m \<noteq> 0"
  shows "soonest m \<noteq> {||}"
proof -
  from assms obtain k where "is_arg_min (expiry_of m) (\<lambda>k. k \<in> fset (fmdom m)) k"
    using ex_is_arg_min_if_finite [of "fset (fmdom m)" "expiry_of m"]
    by (auto simp: map_len_zero bot_fset.rep_eq)
  then have "k |\<in>| soonest m"
    by (auto simp: soonest_def is_arg_min_linorder)
  then show ?thesis
    by auto
qed

definition picks :: "(str fset \<Rightarrow> str) \<Rightarrow> bool" where
  "picks pick \<longleftrightarrow> (\<forall>S. S \<noteq> {||} \<longrightarrow> pick S |\<in>| S)"

lemma soonest_in_dom: "k |\<in>| soonest m \<Longrightarrow> k |\<in>| fmdom m"
  by (simp add: soonest_def)

lemma min_by_key_soonest:
  "picks pick \<Longrightarrow> min_by_key pick m = Some victim \<Longrightarrow> victim |\<in>| soonest m"
  using soonest_not_empty by (auto simp: min_by_key_def picks_def split: if_splits)

lemma min_by_key_None: "min_by_key pick m = None \<Longrightarrow> map_len m = 0"
  by (simp add: min_by_key_def split: if_splits)

lemma map_len_make_room:
  assumes "picks pick" "0 < cap" "map_len m \<le> cap"
  shows "map_len (make_room pick cap m now) < cap"
proof -
  have "map_len (fmdrop victim r) < cap"
    if "min_by_key pick r = Some victim" "map_len r \<le> cap" for victim and r :: "'v cache_map"
    using min_by_key_soonest [OF assms(1) that(1)] soonest_in_dom map_len_fmdrop that assms(2)
    by fastforce
  moreover have "map_len (retain_fresh m now) \<le> cap"
    using assms(3) map_len_retain le_trans by blast
  ultimately show ?thesis
    using assms by (auto simp: make_room_def Let_def dest: min_by_key_None split: option.splits)
qed

text \<open>Room is made by dropping expired entries, or else one entry with the soonest expiry.\<close>

lemma make_room_cases:
  assumes "picks pick" "map_len m \<le> cap"
  shows "make_room pick cap m now = m \<or> make_room pick cap m now = retain_fresh m now \<or>
         (\<exists>victim. victim |\<in>| soonest m \<and> retain_fresh m now = m \<and> map_len m = cap \<and>
            make_room pick cap m now = fmdrop victim m)"
proof -
  have "retain_fresh m now = m \<and> map_len m = cap" if "cap \<le> map_len (retain_fresh m now)"
    using that assms(2) map_len_retain [of m now] map_len_retain_eq [of m now] by simp
  then show ?thesis
    using min_by_key_soonest [OF assms(1), of m]
    by (auto simp: make_room_def Let_def split: option.splits)
qed



end
