(* ===== verification/Single_Flight.thy ===== *)
theory Single_Flight
  imports Directory_Cache
begin

text \<open>
  The concurrent lookups of the caching directory (\<open>user_by_access_key\<close> and
  \<open>buckets_for_access_key\<close> of \<open>cache.rs\<close>). Threads are numbered; each is at one point of the
  lookup, from the first read of the cache to the release of the flight slot. A flight slot is an
  \<open>Arc<Mutex<()>>\<close>: a number in the slot map, with the thread that holds its lock. A slot's
  strong count is one exactly when no thread holds a clone of it. A lookup may also be cancelled at
  any await point: its guards are dropped, but the slot stays in the map.

  The lemmas show that at most one backend call per key is in flight, whatever the interleaving,
  and that a cached answer is one the backend gave, within its lifetime.
\<close>

datatype 'v pc =
    Idle
  | Reading str
  | Acquiring str
  | Joined str nat
  | Locked str nat
  | Fetching str nat
  | Fetched str nat "rerr + 'v"
  | Landed str nat "rerr + 'v"
  | Unlocked str nat "rerr + 'v"
  | Releasing str "rerr + 'v"
  | Returned str "rerr + 'v"

record 'v flight_state =
  fs_map :: "'v cache_map"
  fs_slots :: "(str, nat) fmap"
  fs_owner :: "nat \<Rightarrow> nat option"
  fs_next :: nat
  fs_pc :: "nat \<Rightarrow> 'v pc"

datatype 'v label =
    Silent
  | Hit instant str 'v
  | Backend str "rerr + 'v"
  | Insertion instant instant str 'v

text \<open>The slot a thread has a clone of, and the slot it has locked.\<close>

fun slot_of :: "'v pc \<Rightarrow> (str \<times> nat) option" where
  "slot_of (Joined k a) = Some (k, a)"
| "slot_of (Locked k a) = Some (k, a)"
| "slot_of (Fetching k a) = Some (k, a)"
| "slot_of (Fetched k a r) = Some (k, a)"
| "slot_of (Landed k a r) = Some (k, a)"
| "slot_of (Unlocked k a r) = Some (k, a)"
| "slot_of _ = None"

fun locked_slot :: "'v pc \<Rightarrow> nat option" where
  "locked_slot (Locked k a) = Some a"
| "locked_slot (Fetching k a) = Some a"
| "locked_slot (Fetched k a r) = Some a"
| "locked_slot (Landed k a r) = Some a"
| "locked_slot _ = None"

definition sole_reference :: "'v flight_state \<Rightarrow> nat \<Rightarrow> bool" where
  "sole_reference s a \<longleftrightarrow> (\<forall>t k. slot_of (fs_pc s t) \<noteq> Some (k, a))"

definition at_pc :: "'v flight_state \<Rightarrow> nat \<Rightarrow> 'v pc \<Rightarrow> 'v flight_state" where
  "at_pc s t p = s\<lparr>fs_pc := (fs_pc s)(t := p)\<rparr>"

definition acquire_flight_slot :: "'v flight_state \<Rightarrow> str \<Rightarrow> 'v flight_state \<times> nat" where
  "acquire_flight_slot s k =
     (case fmlookup (fs_slots s) k of
        Some a \<Rightarrow> (s, a)
      | None \<Rightarrow> (s\<lparr>fs_slots := fmupd k (fs_next s) (fs_slots s), fs_next := Suc (fs_next s)\<rparr>, fs_next s))"

definition release_flight_slot :: "'v flight_state \<Rightarrow> str \<Rightarrow> 'v flight_state" where
  "release_flight_slot s k =
     (case fmlookup (fs_slots s) k of
        Some a \<Rightarrow> if sole_reference s a then s\<lparr>fs_slots := fmdrop k (fs_slots s)\<rparr> else s
      | None \<Rightarrow> s)"

definition unlock :: "'v flight_state \<Rightarrow> nat option \<Rightarrow> 'v flight_state" where
  "unlock s p = (case p of Some a \<Rightarrow> s\<lparr>fs_owner := (fs_owner s)(a := None)\<rparr> | None \<Rightarrow> s)"

inductive flight_step ::
  "(str fset \<Rightarrow> str) \<Rightarrow> ('v \<Rightarrow> int) \<Rightarrow> nat \<Rightarrow> 'v flight_state \<Rightarrow> 'v label \<Rightarrow> 'v flight_state \<Rightarrow> bool"
  for pick ttl_of cap where
  call: "fs_pc s t = Idle \<or> fs_pc s t = Returned k' r \<Longrightarrow>
     flight_step pick ttl_of cap s Silent (at_pc s t (Reading k))"
| read_hit: "fs_pc s t = Reading k \<Longrightarrow> read_fresh (fs_map s) now k = Some v \<Longrightarrow>
     flight_step pick ttl_of cap s (Hit now k v) (at_pc s t (Returned k (Inr v)))"
| read_miss: "fs_pc s t = Reading k \<Longrightarrow> read_fresh (fs_map s) now k = None \<Longrightarrow>
     flight_step pick ttl_of cap s Silent (at_pc s t (Acquiring k))"
| acquire: "fs_pc s t = Acquiring k \<Longrightarrow> acquire_flight_slot s k = (s', a) \<Longrightarrow>
     flight_step pick ttl_of cap s Silent (at_pc s' t (Joined k a))"
| lock: "fs_pc s t = Joined k a \<Longrightarrow> fs_owner s a = None \<Longrightarrow>
     flight_step pick ttl_of cap s Silent (at_pc (s\<lparr>fs_owner := (fs_owner s)(a := Some t)\<rparr>) t (Locked k a))"
| reread_hit: "fs_pc s t = Locked k a \<Longrightarrow> read_fresh (fs_map s) now k = Some v \<Longrightarrow>
     flight_step pick ttl_of cap s (Hit now k v) (at_pc s t (Landed k a (Inr v)))"
| reread_miss: "fs_pc s t = Locked k a \<Longrightarrow> read_fresh (fs_map s) now k = None \<Longrightarrow>
     flight_step pick ttl_of cap s Silent (at_pc s t (Fetching k a))"
| backend: "fs_pc s t = Fetching k a \<Longrightarrow>
     flight_step pick ttl_of cap s (Backend k r) (at_pc s t (Fetched k a r))"
| insert: "fs_pc s t = Fetched k a (Inr v) \<Longrightarrow>
     flight_step pick ttl_of cap s (Insertion now now' k v)
       (at_pc (s\<lparr>fs_map := insert_with_cap pick now now' (fs_map s) k v (ttl_of v) cap\<rparr>) t
          (Landed k a (Inr v)))"
| backend_error: "fs_pc s t = Fetched k a (Inl e) \<Longrightarrow>
     flight_step pick ttl_of cap s Silent (at_pc s t (Landed k a (Inl e)))"
| drop_flight: "fs_pc s t = Landed k a r \<Longrightarrow>
     flight_step pick ttl_of cap s Silent (at_pc (unlock s (Some a)) t (Unlocked k a r))"
| drop_key_lock: "fs_pc s t = Unlocked k a r \<Longrightarrow>
     flight_step pick ttl_of cap s Silent (at_pc s t (Releasing k r))"
| release: "fs_pc s t = Releasing k r \<Longrightarrow>
     flight_step pick ttl_of cap s Silent (at_pc (release_flight_slot s k) t (Returned k r))"
| cancel: "flight_step pick ttl_of cap s Silent (at_pc (unlock s (locked_slot (fs_pc s t))) t Idle)"

definition flight_init :: "'v flight_state" where
  "flight_init =
     \<lparr>fs_map = fmempty, fs_slots = fmempty, fs_owner = (\<lambda>_. None), fs_next = 0, fs_pc = (\<lambda>_. Idle)\<rparr>"

text \<open>A run, with the list of its labels from the first to the last.\<close>

inductive flight_run ::
  "(str fset \<Rightarrow> str) \<Rightarrow> ('v \<Rightarrow> int) \<Rightarrow> nat \<Rightarrow> 'v label list \<Rightarrow> 'v flight_state \<Rightarrow> bool"
  for pick ttl_of cap where
  flight_start: "flight_run pick ttl_of cap [] flight_init"
| flight_next: "flight_run pick ttl_of cap ls s \<Longrightarrow> flight_step pick ttl_of cap s l s' \<Longrightarrow>
     flight_run pick ttl_of cap (ls @ [l]) s'"

definition user_by_access_key_run where
  "user_by_access_key_run pick cfg = flight_run pick (user_ttl_of cfg) (max_entries cfg)"

definition buckets_for_access_key_run where
  "buckets_for_access_key_run pick cfg = flight_run pick (buckets_ttl_of cfg) (max_entries cfg)"

section \<open>At most one backend call per key\<close>

definition flight_inv :: "'v flight_state \<Rightarrow> bool" where
  "flight_inv s \<longleftrightarrow>
     (\<forall>t k a. slot_of (fs_pc s t) = Some (k, a) \<longrightarrow> fmlookup (fs_slots s) k = Some a) \<and>
     (\<forall>t a. locked_slot (fs_pc s t) = Some a \<longrightarrow> fs_owner s a = Some t) \<and>
     (\<forall>k a. fmlookup (fs_slots s) k = Some a \<longrightarrow> a < fs_next s)"

lemmas flight_defs = at_pc_def unlock_def acquire_flight_slot_def release_flight_slot_def

lemma flight_inv_init: "flight_inv flight_init"
  by (simp add: flight_inv_def flight_init_def)

lemma flight_inv_at_pc:
  assumes "flight_inv s"
    and "\<And>k a. slot_of p = Some (k, a) \<Longrightarrow> fmlookup (fs_slots s) k = Some a"
    and "\<And>a. locked_slot p = Some a \<Longrightarrow> fs_owner s a = Some t"
  shows "flight_inv (at_pc s t p)"
  using assms by (auto simp: flight_inv_def at_pc_def)

lemma flight_inv_slot: "flight_inv s \<Longrightarrow> slot_of (fs_pc s t) = Some (k, a) \<Longrightarrow> fmlookup (fs_slots s) k = Some a"
  by (simp add: flight_inv_def)

lemma flight_inv_owner: "flight_inv s \<Longrightarrow> locked_slot (fs_pc s t) = Some a \<Longrightarrow> fs_owner s a = Some t"
  by (simp add: flight_inv_def)

lemma flight_inv_move:
  assumes "flight_inv s"
    and "slot_of p = None \<or> slot_of p = slot_of (fs_pc s t)"
    and "locked_slot p = None \<or> locked_slot p = locked_slot (fs_pc s t)"
  shows "flight_inv (at_pc s t p)"
  using assms flight_inv_slot [of s t] flight_inv_owner [of s t] by (auto intro!: flight_inv_at_pc)

lemma flight_inv_lock:
  assumes "flight_inv s" "fs_owner s a = None" "fmlookup (fs_slots s) k = Some a"
  shows "flight_inv (at_pc (s\<lparr>fs_owner := (fs_owner s)(a := Some t)\<rparr>) t (Locked k a))"
proof -
  have "locked_slot (fs_pc s t') \<noteq> Some a" for t'
    using assms(1,2) flight_inv_owner [of s t' a] by auto
  with assms show ?thesis
    by (auto simp: flight_inv_def at_pc_def)
qed

lemma flight_inv_unlock:
  assumes "flight_inv s" "locked_slot (fs_pc s t) = l" "locked_slot p = None"
    and "\<And>k a. slot_of p = Some (k, a) \<Longrightarrow> fmlookup (fs_slots s) k = Some a"
  shows "flight_inv (at_pc (unlock s l) t p)"
proof (cases l)
  case (Some a)
  have "locked_slot (fs_pc s t') \<noteq> Some a" if "t' \<noteq> t" for t'
    using assms(1,2) flight_inv_owner [of s t' a] flight_inv_owner [of s t a] Some that by auto
  with assms Some show ?thesis
    by (auto simp: flight_inv_def at_pc_def unlock_def)
qed (use assms in \<open>auto simp: unlock_def intro: flight_inv_at_pc\<close>)

lemma flight_inv_acquire:
  assumes "flight_inv s" "acquire_flight_slot s k = (s', a)"
  shows "flight_inv s' \<and> fmlookup (fs_slots s') k = Some a"
  using assms by (fastforce simp: acquire_flight_slot_def flight_inv_def split: option.splits if_splits)

lemma flight_inv_release:
  assumes "flight_inv s"
  shows "flight_inv (release_flight_slot s k)"
  using assms
  by (fastforce simp: release_flight_slot_def flight_inv_def sole_reference_def split: option.splits)

lemma flight_inv_step: "flight_step pick ttl_of cap s l s' \<Longrightarrow> flight_inv s \<Longrightarrow> flight_inv s'"
proof (induction rule: flight_step.cases)
  case (acquire s t k s' a)
  then show ?case
    using flight_inv_acquire [of s k s' a] by (auto intro: flight_inv_at_pc)
next
  case (lock s t k a)
  then show ?case
    using flight_inv_slot [of s t k a] by (auto intro: flight_inv_lock)
next
  case (insert s t k a v now now')
  then have "flight_inv (s\<lparr>fs_map := insert_with_cap pick now now' (fs_map s) k v (ttl_of v) cap\<rparr>)"
    by (simp add: flight_inv_def)
  with insert show ?case
    using flight_inv_slot [of s t k a] flight_inv_owner [of s t a] by (auto intro: flight_inv_at_pc)
next
  case (drop_flight s t k a r)
  then show ?case
    using flight_inv_slot [of s t k a] by (auto intro: flight_inv_unlock)
next
  case (release s t k r)
  then show ?case
    using flight_inv_release [of s k] by (auto intro: flight_inv_at_pc)
next
  case (cancel s t)
  then show ?case
    by (auto intro: flight_inv_unlock)
qed (auto intro: flight_inv_move)

lemma flight_inv_run: "flight_run pick ttl_of cap ls s \<Longrightarrow> flight_inv s"
  by (induction rule: flight_run.induct) (auto simp: flight_inv_init flight_inv_step)

lemma flight_exclusive:
  assumes "flight_inv s" "slot_of (fs_pc s t1) = Some (k, a1)" "locked_slot (fs_pc s t1) = Some a1"
    "slot_of (fs_pc s t2) = Some (k, a2)" "locked_slot (fs_pc s t2) = Some a2"
  shows "t1 = t2"
proof -
  have "a1 = a2"
    using flight_inv_slot [OF assms(1,2)] flight_inv_slot [OF assms(1,4)] by simp
  then show ?thesis
    using flight_inv_owner [OF assms(1,3)] flight_inv_owner [OF assms(1,5)] by simp
qed

text \<open>
  C9. Single flight: whatever the interleaving of lookups, cancelled ones included, at most one
  thread is asking the backend about a given access key, and while its answer is not yet in the
  cache no other thread can start asking about that key.
\<close>
theorem single_flight:
  assumes "flight_run pick ttl_of cap ls s"
    and "fs_pc s t1 = Fetching k a1 \<or> fs_pc s t1 = Fetched k a1 r"
    and "fs_pc s t2 = Fetching k a2 \<or> fs_pc s t2 = Fetched k a2 r'"
  shows "t1 = t2"
  by (rule flight_exclusive [of s t1 k a1 t2 a2]) (use assms flight_inv_run in auto)

lemma flight_fetch_alone:
  "\<exists>ls (s :: 'v flight_state). flight_run pick ttl_of cap ls s \<and> fs_pc s t = Fetching k 0"
proof -
  note run = flight_next [where pick = pick and ttl_of = ttl_of and cap = cap]
  let ?s1 = "at_pc flight_init t (Reading k) :: 'v flight_state"
  let ?s2 = "at_pc ?s1 t (Acquiring k)"
  let ?s3 = "at_pc (fst (acquire_flight_slot ?s2 k)) t (Joined k 0)"
  let ?s4 = "at_pc (?s3\<lparr>fs_owner := (fs_owner ?s3)(0 := Some t)\<rparr>) t (Locked k 0) :: 'v flight_state"
  have "flight_run pick ttl_of cap [Silent] ?s1"
    using run [OF flight_start call [of flight_init t]] by (simp add: flight_init_def)
  then have "flight_run pick ttl_of cap [Silent, Silent] ?s2"
    using run [OF _ read_miss [of ?s1 t k 0]] by (fastforce simp: at_pc_def flight_init_def read_fresh_def)
  then have "flight_run pick ttl_of cap [Silent, Silent, Silent] ?s3"
    using run [OF _ acquire [of ?s2 t k _ 0]]
    by (fastforce simp: at_pc_def flight_init_def acquire_flight_slot_def)
  then have "flight_run pick ttl_of cap [Silent, Silent, Silent, Silent] ?s4"
    using run [OF _ lock [of ?s3 t k 0]]
    by (fastforce simp: at_pc_def flight_init_def acquire_flight_slot_def)
  then have "flight_run pick ttl_of cap [Silent, Silent, Silent, Silent, Silent] (at_pc ?s4 t (Fetching k 0))"
    using run [OF _ reread_miss [of ?s4 t k 0 0]]
    by (fastforce simp: at_pc_def flight_init_def acquire_flight_slot_def read_fresh_def)
  then show ?thesis
    by (intro exI conjI) (auto simp: at_pc_def)
qed

theorem single_flight_witness:
  "\<exists>ls (s :: int flight_state). flight_run (\<lambda>_. []) (\<lambda>_. 5) 10 ls s \<and> fs_pc s 3 = Fetching ''k'' 0 \<and>
     (\<forall>t. t \<noteq> 3 \<longrightarrow> fs_pc s t \<noteq> Fetching ''k'' 0)"
proof -
  obtain ls and s :: "int flight_state"
    where "flight_run (\<lambda>_. []) (\<lambda>_. 5) 10 ls s" "fs_pc s 3 = Fetching ''k'' 0"
    using flight_fetch_alone by blast
  with single_flight [of "\<lambda>_. []" "\<lambda>_. 5" 10 ls s 3 "''k''" 0 "Inl (Err [])" _ 0 "Inl (Err [])"] show ?thesis
    by blast
qed

section \<open>Freshness\<close>

fun label_events :: "('v \<Rightarrow> int) \<Rightarrow> 'v label \<Rightarrow> (unit, str, 'v) map_event list" where
  "label_events ttl_of (Insertion now now' k v) = [Put now (now' + ttl_of v) k v]"
| "label_events ttl_of _ = []"

lemma flight_run_map:
  "flight_run pick ttl_of cap ls s \<Longrightarrow>
   fs_map s = dir_cache.run pick cap (concat (map (label_events ttl_of) ls))"
proof (induction rule: flight_run.induct)
  case flight_start
  then show ?case
    by (simp add: flight_init_def dir_cache.run_def)
next
  case (flight_next ls s l s')
  from flight_next.hyps(2) show ?case
    using flight_next.IH
    by cases (auto simp: flight_defs dir_cache.run_snoc insert_with_cap_put split: option.splits)
qed

lemma flight_run_backend:
  assumes "flight_run pick ttl_of cap ls s"
  shows "(\<forall>t k a v. fs_pc s t = Fetched k a (Inr v) \<longrightarrow> Backend k (Inr v) \<in> set ls) \<and>
         (\<forall>now now' k v. Insertion now now' k v \<in> set ls \<longrightarrow> Backend k (Inr v) \<in> set ls)"
  using assms
proof (induction rule: flight_run.induct)
  case (flight_next ls s l s')
  from flight_next.hyps(2) show ?case
    using flight_next.IH by cases (auto simp: flight_defs split: option.splits if_splits)
qed (simp add: flight_init_def)

lemma label_events_Put:
  assumes "Put t d k v \<in> set (concat (map (label_events ttl_of) ls))"
  shows "\<exists>now'. Insertion t now' k v \<in> set ls \<and> d = now' + ttl_of v"
proof -
  from assms obtain l where "l \<in> set ls" "Put t d k v \<in> set (label_events ttl_of l)"
    by auto
  then show ?thesis
    by - (cases l; auto)
qed

lemma flight_hit_fresh:
  assumes "flight_run pick ttl_of cap ls s" "read_fresh (fs_map s) now k = Some v"
  shows "\<exists>t now'. Insertion t now' k v \<in> set ls \<and> Backend k (Inr v) \<in> set ls \<and> now < now' + ttl_of v"
proof -
  from dir_cache.get_run_fresh [OF assms(2) [unfolded flight_run_map [OF assms(1)]]]
  obtain t d where "Put t d k v \<in> set (concat (map (label_events ttl_of) ls))" "now < d"
    by blast
  with label_events_Put [OF this(1)] flight_run_backend [OF assms(1)] show ?thesis
    by blast
qed

lemma flight_run_hits:
  assumes "flight_run pick ttl_of cap ls s" "Hit now k v \<in> set ls"
  shows "\<exists>t now'. Insertion t now' k v \<in> set ls \<and> Backend k (Inr v) \<in> set ls \<and> now < now' + ttl_of v"
  using assms
proof (induction rule: flight_run.induct)
  case (flight_next ls s l s')
  show ?case
  proof (cases "Hit now k v \<in> set ls")
    case False
    with flight_next have "read_fresh (fs_map s) now k = Some v"
      by (auto elim: flight_step.cases)
    then show ?thesis
      using flight_hit_fresh [OF flight_next.hyps(1)] by fastforce
  qed (use flight_next in fastforce)
qed simp

text \<open>
  C10. Nothing is served from the caches but what the directory backend answered: every cache
  hit on a user or a bucket list was given by the backend for that access key as a successful
  answer and inserted, and the hit comes before the insertion's lifetime ends. For users it is
  the lifetime of positive or of negative answers; so a revoked key is refused and a new key is
  accepted at the latest one lifetime after the last answer.
\<close>
theorem cache_hits_fresh:
  "(user_by_access_key_run pick cfg ls s \<and> Hit now k v \<in> set ls \<longrightarrow>
      (\<exists>t now'. Insertion t now' k v \<in> set ls \<and> Backend k (Inr v) \<in> set ls \<and>
         now < now' + (if v = None then negative_ttl cfg else user_ttl cfg))) \<and>
   (buckets_for_access_key_run pick' cfg' ls' s' \<and> Hit now k bs \<in> set ls' \<longrightarrow>
      (\<exists>t now'. Insertion t now' k bs \<in> set ls' \<and> Backend k (Inr bs) \<in> set ls' \<and>
         now < now' + buckets_ttl cfg'))"
  using flight_run_hits [of pick "user_ttl_of cfg" "max_entries cfg" ls s now k v]
    flight_run_hits [of pick' "buckets_ttl_of cfg'" "max_entries cfg'" ls' s' now k bs]
  unfolding user_by_access_key_run_def buckets_for_access_key_run_def user_ttl_of_def buckets_ttl_of_def
  by (cases v) simp_all

lemma flight_hit_possible:
  fixes v :: 'v
  assumes "0 < ttl_of v"
  shows "\<exists>ls (s :: 'v flight_state). flight_run pick ttl_of cap ls s \<and> Hit 0 k v \<in> set ls"
proof -
  obtain ls and s :: "'v flight_state" where run: "flight_run pick ttl_of cap ls s" "fs_pc s 0 = Fetching k 0"
    using flight_fetch_alone by blast
  let ?s1 = "at_pc s 0 (Fetched k 0 (Inr v))"
  let ?s2 = "at_pc (?s1\<lparr>fs_map := insert_with_cap pick 0 0 (fs_map ?s1) k v (ttl_of v) cap\<rparr>) 0 (Landed k 0 (Inr v))"
  let ?s3 = "at_pc (unlock ?s2 (locked_slot (fs_pc ?s2 0))) 0 Idle"
  let ?s4 = "at_pc ?s3 0 (Reading k)"
  have r1: "flight_run pick ttl_of cap (ls @ [Backend k (Inr v)]) ?s1"
    by (rule flight_next [OF run(1) backend [OF run(2)]])
  have pc: "fs_pc ?s1 0 = Fetched k 0 (Inr v)" "fs_pc ?s3 0 = Idle \<or> fs_pc ?s3 0 = Returned k (Inr v)"
    by (simp_all add: at_pc_def)
  note r2 = flight_next [OF r1 insert [OF pc(1)], of 0 0]
  note r3 = flight_next [OF r2 cancel, of 0]
  note r4 = flight_next [OF r3 call [OF pc(2)], of k]
  have "read_fresh (fs_map ?s4) 0 k = Some v"
    using assms by (simp add: at_pc_def unlock_def insert_with_cap_put dir_cache.get_put fresh_value_def)
  moreover have "fs_pc ?s4 0 = Reading k"
    by (simp add: at_pc_def)
  ultimately show ?thesis
    using flight_next [OF r4 read_hit, of 0 k 0 v] by fastforce
qed

theorem cache_hits_fresh_witness:
  "\<exists>ls s. user_by_access_key_run (\<lambda>_. []) default_cache_config ls s \<and> Hit 0 ''AKIA'' (Some (1 :: int)) \<in> set ls \<and>
     (\<exists>t now'. Insertion t now' ''AKIA'' (Some 1) \<in> set ls \<and> 0 < now' + user_ttl default_cache_config)"
proof -
  have "0 < user_ttl_of default_cache_config (Some (1 :: int))"
    by (simp add: user_ttl_of_def default_cache_config_def nanos_def)
  from flight_hit_possible [of "user_ttl_of default_cache_config", OF this] obtain ls s
    where "user_by_access_key_run (\<lambda>_. []) default_cache_config ls s" "Hit 0 ''AKIA'' (Some (1 :: int)) \<in> set ls"
    unfolding user_by_access_key_run_def by blast
  with cache_hits_fresh [of "\<lambda>_. []" default_cache_config ls s 0 "''AKIA''" "Some (1 :: int)",
      THEN conjunct1]
  show ?thesis
    by auto
qed

end
