(* ===== verification/Session_Store.thy ===== *)
theory Session_Store
  imports Expiring_Map Directory_Cache
begin

text \<open>
  The store of directory-bucket sessions, \<open>crates/s32p-proxy/src/session.rs\<close>. The random bytes of
  the operating system, the random UUID and the base64 engine are parameters. The fields of a
  session that do not depend on the clock form the base record \<open>session_grant\<close>; a
  \<open>session_entry\<close> adds the two expiry times. The store's operations are functions from store to
  store; a history of them is a list of operations, and the contract of expiring maps tells what
  a lookup can return after it.
\<close>

unbundle bit_operations_syntax

section \<open>The code\<close>

definition ACCESS_KEY_RAND_CHARS :: nat where
  "ACCESS_KEY_RAND_CHARS = 16"

definition ACCESS_KEY_RAND_BYTES :: nat where
  "ACCESS_KEY_RAND_BYTES = ACCESS_KEY_RAND_CHARS * 5 div 8"

definition SECRET_KEY_RAND_BYTES :: nat where
  "SECRET_KEY_RAND_BYTES = 30"

datatype session_mode = ReadOnly | ReadWrite

definition session_mode_from_header :: "str option \<Rightarrow> session_mode" where
  "session_mode_from_header v =
     (case map_option trim v of
        Some h \<Rightarrow> if eq_ignore_ascii_case h ''ReadOnly'' then ReadOnly else ReadWrite
      | None \<Rightarrow> ReadWrite)"

record session_grant =
  access_key :: str
  secret_key :: str
  session_token :: str
  real_access_key :: str
  se_bucket :: str
  se_mode :: session_mode

record session_entry = session_grant +
  expires_at_inst :: instant
  expires_at_system :: system_time

record session_store =
  ss_inner :: "(str, session_entry) fmap"
  max_active :: nat
  cleanup_interval :: int
  cleanup_started :: bool

definition session_store_new :: "nat \<Rightarrow> int \<Rightarrow> session_store" where
  "session_store_new mx interval =
     \<lparr>ss_inner = fmempty, max_active = mx, cleanup_interval = interval, cleanup_started = False\<rparr>"

definition ALPHA :: str where
  "ALPHA = ''ABCDEFGHIJKLMNOPQRSTUVWXYZ234567''"

definition as_u64 :: "char \<Rightarrow> u64" where
  "as_u64 c = word_of_nat (byte c)"

definition base32_acc :: "str \<Rightarrow> u64" where
  "base32_acc chunk =
     push_bit 32 (as_u64 (chunk ! 0)) OR push_bit 24 (as_u64 (chunk ! 1)) OR
     push_bit 16 (as_u64 (chunk ! 2)) OR push_bit 8 (as_u64 (chunk ! 3)) OR as_u64 (chunk ! 4)"

definition base32_chars :: "u64 \<Rightarrow> str" where
  "base32_chars acc = map (\<lambda>shift. ALPHA ! unat (drop_bit (shift * 5) acc AND 0x1f)) (rev [0..<8])"

fun base32_chunks :: "str \<Rightarrow> str" where
  "base32_chunks (a # b # c # d # e # rest) = base32_chars (base32_acc [a, b, c, d, e]) @ base32_chunks rest"
| "base32_chunks _ = []"

definition gen_access_key :: "str \<Rightarrow> str" where
  "gen_access_key rand = ''ASIA'' @ base32_chunks rand"

definition gen_secret_key :: "(str \<Rightarrow> str) \<Rightarrow> str \<Rightarrow> str" where
  "gen_secret_key base64_url rand = base64_url rand"

text \<open>What one call of \<open>create\<close> draws: the bytes of the two keys and the UUID.\<close>

record session_rand =
  rand_access :: str
  rand_secret :: str
  rand_uuid :: str

definition session_create ::
  "(str \<Rightarrow> str) \<Rightarrow> session_rand \<Rightarrow> instant \<Rightarrow> system_time \<Rightarrow> str \<Rightarrow> str \<Rightarrow> session_mode \<Rightarrow> int \<Rightarrow>
   session_store \<Rightarrow> session_entry option \<times> session_store" where
  "session_create base64_url rnd now_inst now_sys real bucket mode ttl st =
     (if map_len (ss_inner st) \<ge> max_active st then (None, st)
      else (let e = \<lparr>access_key = gen_access_key (rand_access rnd),
                     secret_key = gen_secret_key base64_url (rand_secret rnd),
                     session_token = rand_uuid rnd, real_access_key = real, se_bucket = bucket,
                     se_mode = mode, expires_at_inst = now_inst + ttl, expires_at_system = now_sys + ttl\<rparr>
            in (Some e, st\<lparr>ss_inner := fmupd (access_key e) e (ss_inner st)\<rparr>)))"

definition session_lookup :: "instant \<Rightarrow> str \<Rightarrow> session_store \<Rightarrow> session_entry option \<times> session_store" where
  "session_lookup now key st =
     (case fmlookup (ss_inner st) key of
        None \<Rightarrow> (None, st)
      | Some e \<Rightarrow>
          if expires_at_inst e \<le> now then (None, st\<lparr>ss_inner := fmdrop key (ss_inner st)\<rparr>)
          else (Some e, st))"

definition session_invalidate :: "str \<Rightarrow> session_store \<Rightarrow> session_store" where
  "session_invalidate key st = st\<lparr>ss_inner := fmdrop key (ss_inner st)\<rparr>"

text \<open>\<open>start_cleanup\<close> tells whether this call spawns the task; each tick of it is \<open>cleanup_tick\<close>.\<close>

definition start_cleanup :: "session_store \<Rightarrow> bool \<times> session_store" where
  "start_cleanup st = (\<not> cleanup_started st, st\<lparr>cleanup_started := True\<rparr>)"

definition cleanup_tick :: "instant \<Rightarrow> session_store \<Rightarrow> session_store" where
  "cleanup_tick now st =
     st\<lparr>ss_inner := fmfilter (\<lambda>k. case fmlookup (ss_inner st) k of
          Some e \<Rightarrow> expires_at_inst e > now | None \<Rightarrow> False) (ss_inner st)\<rparr>"

section \<open>Access keys\<close>

lemma bit_as_u64: "bit (as_u64 c) n \<longleftrightarrow> n < 8 \<and> bit (byte c :: nat) n"
proof -
  have "(byte c :: nat) < 2 ^ 8"
    using nat_of_char_less_256 [of c] by simp
  then have "bit (byte c :: nat) n \<Longrightarrow> n < 8"
    by (metis bit_take_bit_iff take_bit_nat_eq_self)
  then show ?thesis
    by (auto simp: as_u64_def bit_simps)
qed

lemma bit_base32_acc:
  assumes "j < 5" "b < 8"
  shows "bit (base32_acc chunk) (8 * j + b) \<longleftrightarrow> bit (byte (chunk ! (4 - j)) :: nat) b"
proof -
  from assms(1) consider "j = 0" | "j = 1" | "j = 2" | "j = 3" | "j = 4"
    by linarith
  then show ?thesis
    using assms(2) by cases (auto simp: base32_acc_def bit_simps bit_as_u64)
qed

lemma ALPHA_distinct: "distinct ALPHA" "length ALPHA = 32"
  by code_simp+

lemma group_bound: "unat (drop_bit n acc AND 0x1f) < 32"
  for acc :: u64
proof -
  have "unat (drop_bit n acc AND mask 5) < 2 ^ 5"
    using take_bit_nat_less_exp [of 5 "unat (drop_bit n acc)"]
    by (simp add: take_bit_eq_mask [symmetric] unsigned_take_bit_eq)
  then show ?thesis
    by (simp add: mask_eq_exp_minus_1)
qed

lemma base32_chars_bits:
  assumes "base32_chars x = base32_chars y" "n < 40"
  shows "bit x n \<longleftrightarrow> bit y n"
proof -
  let ?g = "\<lambda>acc :: u64. drop_bit (n div 5 * 5) acc AND 0x1f"
  have "n div 5 \<in> set (rev [0..<8])"
    using assms(2) by (simp add: less_mult_imp_div_less)
  with assms(1) have "ALPHA ! unat (?g x) = ALPHA ! unat (?g y)"
    unfolding base32_chars_def by (simp add: map_eq_conv)
  then have "unat (?g x) = unat (?g y)"
    using ALPHA_distinct group_bound by (simp add: nth_eq_iff_index_eq)
  then have "?g x = ?g y"
    by (rule unsigned_word_eqI)
  then have "bit (?g x) (n mod 5) \<longleftrightarrow> bit (?g y) (n mod 5)"
    by simp
  moreover have "bit (0x1f :: u64) (n mod 5)"
  proof -
    have "bit (mask 5 :: u64) (n mod 5)"
      by (simp add: bit_mask_iff)
    then show ?thesis
      by (simp add: mask_eq_exp_minus_1)
  qed
  ultimately show ?thesis
    by (simp add: bit_simps mult.commute)
qed

lemma base32_chunk_inj:
  assumes "base32_chars (base32_acc c) = base32_chars (base32_acc d)" "i < 5"
  shows "c ! i = d ! i"
proof -
  have "bit (byte (c ! i) :: nat) b \<longleftrightarrow> bit (byte (d ! i) :: nat) b" if "b < 8" for b
    using bit_base32_acc [of "4 - i" b c] bit_base32_acc [of "4 - i" b d]
      base32_chars_bits [OF assms(1), of "8 * (4 - i) + b"] assms(2) that
    by (simp add: le_simps)
  moreover have "take_bit 8 (byte e :: nat) = byte e" for e
    using nat_of_char_less_256 [of e] by (simp add: take_bit_nat_eq_self)
  ultimately have "(byte (c ! i) :: nat) = byte (d ! i)"
    by (metis bit_eqI bit_take_bit_iff)
  then show ?thesis
    by simp
qed

lemma set_base32_chars: "set (base32_chars acc) \<subseteq> set ALPHA" "length (base32_chars acc) = 8"
  using group_bound ALPHA_distinct(2) by (auto simp: base32_chars_def)

lemma base32_chunks_inj:
  assumes "length c = length d" "length c mod 5 = 0" "base32_chunks c = base32_chunks d"
  shows "c = d"
  using assms
proof (induction c arbitrary: d rule: base32_chunks.induct)
  case (1 x1 x2 x3 x4 x5 rest)
  have "length d = Suc (Suc (Suc (Suc (Suc (length rest)))))"
    using "1.prems"(1) by simp
  then obtain y1 y2 y3 y4 y5 rest' where d: "d = y1 # y2 # y3 # y4 # y5 # rest'"
    by (auto simp: length_Suc_conv)
  let ?c = "[x1, x2, x3, x4, x5]" and ?d = "[y1, y2, y3, y4, y5]"
  have eq: "base32_chars (base32_acc ?c) = base32_chars (base32_acc ?d)" "base32_chunks rest = base32_chunks rest'"
    using "1.prems"(3) set_base32_chars(2) d by simp_all
  have "?c = ?d"
    by (rule nth_equalityI) (simp, rule base32_chunk_inj [OF eq(1)], simp)
  moreover have "rest = rest'"
    by (rule "1.IH") (use "1.prems" d eq in \<open>simp_all add: mod_simps\<close>)
  ultimately show ?case
    by (simp add: d)
qed (auto simp: mod_Suc)

text \<open>
  Session access keys have the documented shape and lose no entropy: from ten random bytes
  the key is \<open>ASIA\<close> followed by sixteen base32 characters, and different bytes give different
  keys.
\<close>
theorem gen_access_key_shape:
  assumes "length r = ACCESS_KEY_RAND_BYTES" "length r' = ACCESS_KEY_RAND_BYTES"
  shows "starts_with ''ASIA'' (gen_access_key r) \<and>
         length (gen_access_key r) = 4 + ACCESS_KEY_RAND_CHARS \<and>
         set (drop 4 (gen_access_key r)) \<subseteq> set ALPHA \<and>
         (gen_access_key r = gen_access_key r') = (r = r')"
proof -
  have "length (base32_chunks s) = 8 * (length s div 5) \<and> set (base32_chunks s) \<subseteq> set ALPHA" for s
    using set_base32_chars by (induction s rule: base32_chunks.induct) auto
  moreover have "base32_chunks r = base32_chunks r' \<longleftrightarrow> r = r'"
    using base32_chunks_inj [of r r'] assms
    by (auto simp: ACCESS_KEY_RAND_BYTES_def ACCESS_KEY_RAND_CHARS_def)
  ultimately show ?thesis
    using assms(1)
    by (simp add: gen_access_key_def starts_with_iff ACCESS_KEY_RAND_BYTES_def ACCESS_KEY_RAND_CHARS_def)
qed

theorem gen_access_key_shape_witness:
  "length ''0123456789'' = ACCESS_KEY_RAND_BYTES \<and> length ''012345678A'' = ACCESS_KEY_RAND_BYTES \<and>
   length (gen_access_key ''0123456789'') = 20 \<and> gen_access_key ''0123456789'' \<noteq> gen_access_key ''012345678A''"
  using gen_access_key_shape [of "''0123456789''" "''012345678A''"]
  by (simp add: ACCESS_KEY_RAND_BYTES_def ACCESS_KEY_RAND_CHARS_def)

section \<open>Histories of the store\<close>

type_synonym session_value = "session_grant \<times> system_time"

definition value_of :: "session_entry \<Rightarrow> session_value" where
  "value_of e = (session_grant.truncate e, expires_at_system e)"

definition entry_of :: "instant \<Rightarrow> session_value \<Rightarrow> session_entry" where
  "entry_of d v = session_grant.extend (fst v) (session_entry.fields d (snd v))"

definition session_get :: "session_store \<Rightarrow> instant \<Rightarrow> str \<Rightarrow> session_value option" where
  "session_get st now key = map_option value_of (fst (session_lookup now key st))"

definition put_session :: "session_store \<Rightarrow> instant \<Rightarrow> instant \<Rightarrow> str \<Rightarrow> session_value \<Rightarrow> session_store" where
  "put_session st now d key v = st\<lparr>ss_inner := fmupd key (entry_of d v) (ss_inner st)\<rparr>"

datatype session_forget = OnLookup str | OnInvalidate str | OnTick | OnStart

fun forget_session :: "session_store \<Rightarrow> instant \<Rightarrow> session_forget \<Rightarrow> session_store" where
  "forget_session st now (OnLookup key) = snd (session_lookup now key st)"
| "forget_session st now (OnInvalidate key) = session_invalidate key st"
| "forget_session st now OnTick = cleanup_tick now st"
| "forget_session st now OnStart = snd (start_cleanup st)"

lemma value_of_entry_of [simp]: "value_of (entry_of d v) = v" "expires_at_inst (entry_of d v) = d"
  by (cases v; cases "fst v"; simp add: value_of_def entry_of_def session_grant.defs session_entry.defs)+

lemmas session_defs = session_lookup_def session_invalidate_def cleanup_tick_def start_cleanup_def

interpretation sessions: expiring_map
  "session_store_new mx interval" session_get put_session forget_session
  for mx interval
proof unfold_locales
  fix st now f t k
  show "session_get (forget_session st now f) t k = None \<or>
        session_get (forget_session st now f) t k = session_get st t k"
    by (cases f) (auto simp: session_get_def session_defs split: option.splits)
qed (auto simp: session_get_def session_lookup_def session_store_new_def put_session_def fresh_value_def
      split: option.splits)

datatype session_op =
    Create instant system_time str str session_mode int session_rand
  | Lookup instant str
  | Invalidate str
  | Tick instant
  | Start

fun session_step :: "(str \<Rightarrow> str) \<Rightarrow> session_store \<Rightarrow> session_op \<Rightarrow> session_store" where
  "session_step b64 st (Create now sys real bucket mode ttl rnd) =
     snd (session_create b64 rnd now sys real bucket mode ttl st)"
| "session_step b64 st (Lookup now key) = snd (session_lookup now key st)"
| "session_step b64 st (Invalidate key) = session_invalidate key st"
| "session_step b64 st (Tick now) = cleanup_tick now st"
| "session_step b64 st Start = snd (start_cleanup st)"

text \<open>The grant that a call of \<open>create\<close> mints.\<close>

definition minted :: "(str \<Rightarrow> str) \<Rightarrow> str \<Rightarrow> str \<Rightarrow> session_mode \<Rightarrow> session_rand \<Rightarrow> session_grant" where
  "minted b64 real bucket mode rnd =
     \<lparr>access_key = gen_access_key (rand_access rnd), secret_key = gen_secret_key b64 (rand_secret rnd),
      session_token = rand_uuid rnd, real_access_key = real, se_bucket = bucket, se_mode = mode\<rparr>"

fun session_event ::
  "(str \<Rightarrow> str) \<Rightarrow> session_store \<Rightarrow> session_op \<Rightarrow> (session_forget, str, session_value) map_event list" where
  "session_event b64 st (Create now sys real bucket mode ttl rnd) =
     (if map_len (ss_inner st) \<ge> max_active st then []
      else [Put now (now + ttl) (gen_access_key (rand_access rnd)) (minted b64 real bucket mode rnd, sys + ttl)])"
| "session_event b64 st (Lookup now key) = [Forget now (OnLookup key)]"
| "session_event b64 st (Invalidate key) = [Forget 0 (OnInvalidate key)]"
| "session_event b64 st (Tick now) = [Forget now OnTick]"
| "session_event b64 st Start = [Forget 0 OnStart]"

lemma session_step_event:
  "session_step b64 st op = foldl (\<lambda>st e. case e of Put t d k v \<Rightarrow> put_session st t d k v
     | Forget t f \<Rightarrow> forget_session st t f) st (session_event b64 st op)"
  by (cases op)
     (auto simp: session_create_def Let_def put_session_def entry_of_def minted_def
        session_grant.defs session_entry.defs)

lemma session_run_events:
  "\<exists>evs. foldl (session_step b64) (session_store_new mx interval) ops = sessions.run mx interval evs \<and>
     (\<forall>t d k v. Put t d k v \<in> set evs \<longrightarrow>
        (\<exists>sys real bucket mode ttl rnd. Create t sys real bucket mode ttl rnd \<in> set ops \<and>
           d = t + ttl \<and> v = (minted b64 real bucket mode rnd, sys + ttl) \<and> k = access_key (fst v)))"
proof (induction ops rule: rev_induct)
  case Nil
  then show ?case
    by (intro exI [of _ "[]"]) (simp add: sessions.run_def)
next
  case (snoc op ops)
  then obtain evs where evs: "foldl (session_step b64) (session_store_new mx interval) ops = sessions.run mx interval evs"
    "\<And>t d k v. Put t d k v \<in> set evs \<Longrightarrow>
        (\<exists>sys real bucket mode ttl rnd. Create t sys real bucket mode ttl rnd \<in> set ops \<and>
           d = t + ttl \<and> v = (minted b64 real bucket mode rnd, sys + ttl) \<and> k = access_key (fst v))"
    by blast
  let ?es = "session_event b64 (sessions.run mx interval evs) op"
  have step: "sessions.step = (\<lambda>st e. case e of Put t d k v \<Rightarrow> put_session st t d k v
      | Forget t f \<Rightarrow> forget_session st t f)"
    by (intro ext) (simp split: map_event.splits)
  have "sessions.run mx interval (evs @ ?es) = session_step b64 (sessions.run mx interval evs) op"
    unfolding session_step_event by (simp add: sessions.run_def step)
  moreover have "\<exists>sys real bucket mode ttl rnd. Create t sys real bucket mode ttl rnd = op \<and>
       d = t + ttl \<and> v = (minted b64 real bucket mode rnd, sys + ttl) \<and> k = access_key (fst v)"
    if "Put t d k v \<in> set ?es" for t d k v
    using that by (cases op) (auto simp: minted_def split: if_splits)
  ultimately show ?case
    using evs by (intro exI [of _ "evs @ ?es"]) (fastforce simp del: session_event.simps)
qed

lemma map_len_fmempty [simp]: "map_len fmempty = 0"
  by (simp add: map_len_zero)

lemma map_len_fmfilter: "map_len (fmfilter P m) \<le> map_len m"
  by (auto simp: map_len_def intro!: fcard_mono)

lemma map_len_fmdrop_le: "map_len (fmdrop k m) \<le> map_len m"
  by (auto simp: map_len_def intro!: fcard_mono)

lemma session_step_cap:
  assumes "map_len (ss_inner st) \<le> max_active st"
  shows "map_len (ss_inner (session_step b64 st op)) \<le> max_active st \<and>
         max_active (session_step b64 st op) = max_active st"
  using assms map_len_fmupd map_len_fmfilter map_len_fmdrop_le
  by (cases op)
     (auto simp: session_create_def session_defs Let_def not_le split: option.splits
        intro: order_trans [OF map_len_fmupd] order_trans [OF map_len_fmfilter] order_trans [OF map_len_fmdrop_le])

lemma session_run_cap:
  "map_len (ss_inner (foldl (session_step b64) (session_store_new mx interval) ops)) \<le> mx \<and>
   max_active (foldl (session_step b64) (session_store_new mx interval) ops) = mx"
proof (induction ops rule: rev_induct)
  case Nil
  then show ?case
    by (simp add: session_store_new_def)
next
  case (snoc op ops)
  then show ?case
    using session_step_cap [of "foldl (session_step b64) (session_store_new mx interval) ops" b64 op] by simp
qed



end
