(* ===== verification/Conn_Limit.thy ===== *)
theory Conn_Limit
  imports Rust_Std "HOL-Library.Finite_Map"
begin

text \<open>
  The per-address limiter of concurrent requests, \<open>crates/s32p-proxy/src/conn_limit.rs\<close>. A counter
  is a \<open>u64\<close>: the additions and subtractions wrap. The limiter's entry is locked while
  \<open>acquire\<close> runs, so each operation is one step. The locale \<open>admission\<close> is the contract between
  the limiter and the proxy's request life cycle: from it follows that the counters never drift
  from the requests that hold a slot, and that an address never has more than its share in flight.
\<close>

section \<open>The code\<close>

datatype ip_addr =
    V4 "8 word" "8 word" "8 word" "8 word"
  | V6 "128 word"

fun is_loopback :: "ip_addr \<Rightarrow> bool" where
  "is_loopback (V4 a b c d) = (a = 127)"
| "is_loopback (V6 a) = (a = 1)"

record connection_limits_config =
  max_concurrent_requests_per_ip :: u64
  trusted_loopback_bypass :: bool
  cfg_keepalive_idle_secs :: u64

record connection_limiter =
  per_ip :: u64
  loopback_bypass :: bool
  keepalive_idle_secs :: u64
  inflight :: "(ip_addr, u64) fmap"

datatype acquire_outcome = Acquired ip_addr | Bypassed | Throttled ip_addr

definition limiter_new :: "connection_limits_config \<Rightarrow> connection_limiter" where
  "limiter_new cfg =
     \<lparr>per_ip = max_concurrent_requests_per_ip cfg, loopback_bypass = trusted_loopback_bypass cfg,
      keepalive_idle_secs = cfg_keepalive_idle_secs cfg, inflight = fmempty\<rparr>"

definition limiter_acquire ::
  "connection_limiter \<Rightarrow> ip_addr option \<Rightarrow> connection_limiter \<times> acquire_outcome" where
  "limiter_acquire l ip =
     (case ip of
        None \<Rightarrow> (l, Bypassed)
      | Some ip \<Rightarrow>
          if per_ip l = 0 then (l, Bypassed)
          else if loopback_bypass l \<and> is_loopback ip then (l, Bypassed)
          else
            (let prev = (case fmlookup (inflight l) ip of Some c \<Rightarrow> c | None \<Rightarrow> 0);
                 added = fmupd ip (prev + 1) (inflight l)
             in if prev \<ge> per_ip l
                then (l\<lparr>inflight := fmupd ip (prev + 1 - 1) added\<rparr>, Throttled ip)
                else (l\<lparr>inflight := added\<rparr>, Acquired ip)))"

definition limiter_release :: "connection_limiter \<Rightarrow> ip_addr \<Rightarrow> connection_limiter" where
  "limiter_release l ip =
     (case fmlookup (inflight l) ip of
        Some c \<Rightarrow> l\<lparr>inflight := fmupd ip (c - 1) (inflight l)\<rparr>
      | None \<Rightarrow> l)"

definition limiter_count :: "connection_limiter \<Rightarrow> ip_addr \<Rightarrow> nat" where
  "limiter_count l ip = (case fmlookup (inflight l) ip of Some c \<Rightarrow> unat c | None \<Rightarrow> 0)"

section \<open>The contract\<close>

text \<open>The life cycle of requests: an arrival, from an address if it has one, and a completion.\<close>

datatype 'r request_event = Arrive 'r "ip_addr option" | Finish 'r

locale admission =
  fixes acquire :: "'s \<Rightarrow> ip_addr option \<Rightarrow> 's \<times> acquire_outcome"
    and release :: "'s \<Rightarrow> ip_addr \<Rightarrow> 's"
    and count :: "'s \<Rightarrow> ip_addr \<Rightarrow> nat"
    and limit :: "'s \<Rightarrow> nat"
  assumes acquired: "acquire s ip = (s', Acquired i) \<Longrightarrow>
      ip = Some i \<and> count s i < limit s \<and> count s' = (count s)(i := Suc (count s i)) \<and> limit s' = limit s"
    and throttled: "acquire s ip = (s', Throttled i) \<Longrightarrow>
      ip = Some i \<and> limit s \<le> count s i \<and> count s' = count s \<and> limit s' = limit s"
    and bypassed: "acquire s ip = (s', Bypassed) \<Longrightarrow> s' = s"
    and released: "0 < count s i \<Longrightarrow>
      count (release s i) = (count s)(i := count s i - 1) \<and> limit (release s i) = limit s"
begin

fun serve :: "'s \<times> ('r \<rightharpoonup> ip_addr) \<Rightarrow> 'r request_event \<Rightarrow> 's \<times> ('r \<rightharpoonup> ip_addr)" where
  "serve (s, held) (Arrive r ip) =
     (if r \<in> dom held then (s, held)
      else (case acquire s ip of
              (s', Acquired i) \<Rightarrow> (s', held(r \<mapsto> i))
            | (s', _) \<Rightarrow> (s', held)))"
| "serve (s, held) (Finish r) =
     (case held r of Some i \<Rightarrow> (release s i, held(r := None)) | None \<Rightarrow> (s, held))"

definition holders :: "('r \<rightharpoonup> ip_addr) \<Rightarrow> ip_addr \<Rightarrow> 'r set" where
  "holders held i = {r. held r = Some i}"

definition consistent :: "'s \<times> ('r \<rightharpoonup> ip_addr) \<Rightarrow> bool" where
  "consistent p \<longleftrightarrow> finite (dom (snd p)) \<and>
     (\<forall>i. count (fst p) i = card (holders (snd p) i)) \<and>
     (\<forall>i. card (holders (snd p) i) \<le> limit (fst p))"

lemma finite_holders: "finite (dom held) \<Longrightarrow> finite (holders held i)"
  by (rule finite_subset [of _ "dom held"]) (auto simp: holders_def)

lemma holders_grant:
  "r \<notin> dom held \<Longrightarrow> holders (held(r \<mapsto> j)) i = (if i = j then insert r (holders held i) else holders held i)"
  by (auto simp: holders_def)

lemma holders_drop: "holders (held(r := None)) i = holders held i - {r}"
  by (auto simp: holders_def)

lemma consistent_arrive:
  assumes "consistent (s, held)"
  shows "consistent (serve (s, held) (Arrive r ip))"
proof (cases "r \<in> dom held")
  case False
  obtain s' out where a: "acquire s ip = (s', out)"
    by fastforce
  have "r \<notin> holders held i" for i
    using False by (auto simp: holders_def)
  then show ?thesis
    using False a assms acquired [of s ip s'] throttled [of s ip s'] bypassed [of s ip s'] finite_holders [of held]
    by (cases out) (auto simp: consistent_def holders_grant Suc_leI)
qed (use assms in auto)

lemma consistent_finish:
  assumes "consistent (s, held)"
  shows "consistent (serve (s, held) (Finish r))"
proof (cases "held r")
  case (Some i)
  have "r \<in> holders held i" "finite (holders held i)"
    using Some assms finite_holders [of held i] by (auto simp: holders_def consistent_def)
  moreover from this have "0 < count s i"
    using assms by (auto simp: consistent_def card_gt_0_iff)
  moreover have "holders held j - {r} = holders held j" if "j \<noteq> i" for j
    using Some that by (auto simp: holders_def)
  ultimately show ?thesis
    using Some assms released [of s i]
    by (auto simp: consistent_def holders_drop intro: order_trans [OF card_Diff1_le])
qed (use assms in simp)

lemma consistent_run:
  assumes "consistent p"
  shows "consistent (foldl serve p evs)"
  using assms
proof (induction evs rule: rev_induct)
  case (snoc e evs)
  then show ?case
    by (cases "foldl serve p evs"; cases e) (simp_all del: serve.simps add: consistent_arrive consistent_finish)
qed simp

end

section \<open>The limiter keeps the contract\<close>

lemma unat_less_plus_one: "unat (a :: u64) < unat (b :: u64) \<Longrightarrow> unat (a + 1) = Suc (unat a)"
  using unat_plus_one_less [of a b] by (simp add: word_less_nat_alt)

lemma unat_pos_minus_one: "0 < unat (a :: u64) \<Longrightarrow> unat (a - 1) = unat a - 1"
  by (rule unat_minus_one_pos) (simp add: word_less_nat_alt)

interpretation limits: admission
  limiter_acquire limiter_release limiter_count "\<lambda>l. unat (per_ip l)"
proof unfold_locales
  fix l l' :: connection_limiter and ip i
  assume "limiter_acquire l ip = (l', Acquired i)"
  then show "ip = Some i \<and> limiter_count l i < unat (per_ip l) \<and>
        limiter_count l' = (limiter_count l)(i := Suc (limiter_count l i)) \<and> unat (per_ip l') = unat (per_ip l)"
    by (auto simp: limiter_acquire_def limiter_count_def Let_def not_le word_less_nat_alt
          fun_eq_iff unat_gt_0 split: option.splits if_splits dest: unat_less_plus_one)
next
  fix l l' :: connection_limiter and ip i
  assume "limiter_acquire l ip = (l', Throttled i)"
  then show "ip = Some i \<and> unat (per_ip l) \<le> limiter_count l i \<and>
        limiter_count l' = limiter_count l \<and> unat (per_ip l') = unat (per_ip l)"
    by (auto simp: limiter_acquire_def limiter_count_def Let_def word_le_nat_alt fun_eq_iff
          split: option.splits if_splits)
next
  fix l l' :: connection_limiter and ip
  assume "limiter_acquire l ip = (l', Bypassed)"
  then show "l' = l"
    by (auto simp: limiter_acquire_def Let_def split: option.splits if_splits)
next
  fix l :: connection_limiter and i
  assume "0 < limiter_count l i"
  then show "limiter_count (limiter_release l i) = (limiter_count l)(i := limiter_count l i - 1) \<and>
        unat (per_ip (limiter_release l i)) = unat (per_ip l)"
    by (auto simp: limiter_release_def limiter_count_def unat_pos_minus_one fun_eq_iff split: option.splits)
qed

lemma serve_config:
  "per_ip (fst (limits.serve p e)) = per_ip (fst p) \<and>
   loopback_bypass (fst (limits.serve p e)) = loopback_bypass (fst p)"
  by (cases p; cases e)
     (auto simp: limiter_acquire_def limiter_release_def Let_def split: option.splits acquire_outcome.splits)

lemma serve_run_config:
  "per_ip (fst (foldl limits.serve p evs)) = per_ip (fst p) \<and>
   loopback_bypass (fst (foldl limits.serve p evs)) = loopback_bypass (fst p)"
  by (induction evs rule: rev_induct) (simp_all add: serve_config)

text \<open>
  C8. After any sequence of arrivals and completions, the counter of an address is the number of
  its requests that hold a slot, and that number is at most the configured maximum. A further
  request from the address is refused exactly when the maximum is reached, unless the limiter is
  disabled or the address is a trusted loopback address.
\<close>
theorem limiter_bounds_requests:
  assumes "(l, held) = foldl limits.serve (limiter_new cfg, Map.empty) evs"
  shows "limiter_count l ip = card {r. held r = Some ip} \<and>
         card {r. held r = Some ip} \<le> unat (max_concurrent_requests_per_ip cfg) \<and>
         (snd (limiter_acquire l (Some ip)) = Throttled ip) =
           (max_concurrent_requests_per_ip cfg \<noteq> 0 \<and> \<not> (trusted_loopback_bypass cfg \<and> is_loopback ip) \<and>
            card {r. held r = Some ip} = unat (max_concurrent_requests_per_ip cfg))"
proof -
  have "limits.consistent (limiter_new cfg, Map.empty)"
    by (simp add: limits.consistent_def limits.holders_def limiter_count_def limiter_new_def)
  then have "limits.consistent (l, held)"
    unfolding assms by (rule limits.consistent_run)
  then have c: "limiter_count l ip = card {r. held r = Some ip}" "card {r. held r = Some ip} \<le> unat (per_ip l)"
    by (simp_all add: limits.consistent_def limits.holders_def)
  have cfg: "per_ip l = max_concurrent_requests_per_ip cfg" "loopback_bypass l = trusted_loopback_bypass cfg"
    using serve_run_config [of "(limiter_new cfg, Map.empty)" evs] assms [symmetric]
    by (simp_all add: limiter_new_def)
  have "snd (limiter_acquire l (Some ip)) = Throttled ip \<longleftrightarrow>
        per_ip l \<noteq> 0 \<and> \<not> (loopback_bypass l \<and> is_loopback ip) \<and> unat (per_ip l) \<le> limiter_count l ip"
    by (auto simp: limiter_acquire_def limiter_count_def Let_def word_le_nat_alt split: option.splits)
  with c show ?thesis
    by (auto simp: cfg)
qed

theorem limiter_bounds_requests_witness:
  "\<exists>l held. (l, held) = foldl limits.serve
       (limiter_new \<lparr>max_concurrent_requests_per_ip = 1, trusted_loopback_bypass = True, cfg_keepalive_idle_secs = 60\<rparr>,
        Map.empty) [Arrive (0 :: nat) (Some (V4 10 0 0 1))] \<and>
     snd (limiter_acquire l (Some (V4 10 0 0 1))) = Throttled (V4 10 0 0 1)"
proof -
  let ?cfg = "\<lparr>max_concurrent_requests_per_ip = 1, trusted_loopback_bypass = True, cfg_keepalive_idle_secs = 60\<rparr>"
  obtain l held where l: "(l, held) = foldl limits.serve (limiter_new ?cfg, Map.empty) [Arrive (0 :: nat) (Some (V4 10 0 0 1))]"
    by (metis surj_pair)
  then have "{r. held r = Some (V4 10 0 0 1)} = {0}"
    by (auto simp: limiter_new_def limiter_acquire_def Let_def split: if_splits)
  with limiter_bounds_requests [OF l, of "V4 10 0 0 1"] l show ?thesis
    by auto
qed

end
