(* ===== verification/Classifier.thy ===== *)
theory Classifier
  imports Http_Utils Uri_Encoding
begin

text \<open>
  The request classifier, \<open>crates/s32p-support/src/classifier.rs\<close>, shared by the proxy and the
  gateway: the operations as datatypes, the query parameters (an association list with distinct
  keys for the hash map), the bucket and key of path-style and virtual-hosted requests, and the
  classification in the order of the code. The URL crate's \<open>form_urlencoded::parse\<close> is the
  parameter \<open>form_parse\<close>, the percent decoder the parameter \<open>pdec\<close>.
\<close>

section \<open>Operations\<close>

datatype multipart_op =
    CreateMultipartUpload
  | UploadPart str u32
  | ListParts str
  | CompleteMultipartUpload str
  | AbortMultipartUpload str
  | ListMultipartUploads
  | MultipartUnknown

datatype versioning_op =
    GetBucketVersioning
  | PutBucketVersioning
  | ListObjectVersions
  | ObjectWithVersionId str
  | VersioningUnknown

datatype object_lock_op =
    GetBucketObjectLockConfiguration
  | PutBucketObjectLockConfiguration
  | GetObjectRetention
  | PutObjectRetention
  | GetObjectLegalHold
  | PutObjectLegalHold
  | ObjectLockUnknown

datatype read_op =
    ListBuckets
  | GetObject
  | HeadObject
  | HeadBucket
  | GetBucketLocation
  | ListObjectsV2
  | ListObjectsV1
  | GetObjectAcl
  | GetBucketAcl
  | GetObjectTagging

datatype write_op =
    PutObject
  | CopyObject
  | RenameObject
  | DeleteObject
  | DeleteObjects
  | PutObjectAcl
  | PutBucketAcl
  | PutObjectTagging
  | DeleteObjectTagging

datatype bucket_admin_op = CreateBucket | DeleteBucket

datatype session_op_class = CreateSession

datatype s3_op =
    Multipart multipart_op
  | Versioning versioning_op
  | ObjectLock object_lock_op
  | Read read_op
  | Write write_op
  | BucketAdmin bucket_admin_op
  | Session session_op_class
  | HeadService
  | Other

section \<open>Query parameters\<close>

type_synonym query_params = "(str \<times> str list) list"

record s3_request_class =
  rc_bucket :: "str option"
  rc_key :: "str option"
  rc_query :: query_params
  rc_op :: s3_op

fun qp_push :: "str \<Rightarrow> str \<Rightarrow> query_params \<Rightarrow> query_params" where
  "qp_push k v [] = [(k, [v])]"
| "qp_push k v ((k', vs) # q) = (if k' = k then (k', vs @ [v]) # q else (k', vs) # qp_push k v q)"

definition qp_add :: "query_params \<Rightarrow> str \<times> str \<Rightarrow> query_params" where
  "qp_add q p =
     (let key = to_ascii_lowercase (trim (fst p)) in if key = [] then q else qp_push key (snd p) q)"

definition from_uri :: "(str \<Rightarrow> (str \<times> str) list) \<Rightarrow> uri \<Rightarrow> query_params" where
  "from_uri form_parse u =
     (case uri_query u of
        Some q \<Rightarrow> if q = [] then [] else foldl qp_add [] (form_parse q)
      | None \<Rightarrow> [])"

definition has :: "query_params \<Rightarrow> str \<Rightarrow> bool" where
  "has q key \<longleftrightarrow> map_of q (to_ascii_lowercase key) \<noteq> None"

definition first :: "query_params \<Rightarrow> str \<Rightarrow> str option" where
  "first q key =
     (case map_of q (to_ascii_lowercase key) of
        Some (v # vs) \<Rightarrow> Some v
      | _ \<Rightarrow> None)"

definition qp_is_empty :: "query_params \<Rightarrow> bool" where
  "qp_is_empty q \<longleftrightarrow> q = []"

definition is_only :: "query_params \<Rightarrow> str \<Rightarrow> bool" where
  "is_only q key \<longleftrightarrow> length q = 1 \<and> has q key"

definition is_sigv4_presign_key :: "str \<Rightarrow> bool" where
  "is_sigv4_presign_key k \<longleftrightarrow>
     k \<in> {''x-amz-algorithm'', ''x-amz-credential'', ''x-amz-date'', ''x-amz-expires'',
          ''x-amz-signedheaders'', ''x-amz-signature'', ''x-amz-security-token'',
          ''x-amz-s3session-token''}"

definition is_non_effective_key :: "str \<Rightarrow> bool" where
  "is_non_effective_key k \<longleftrightarrow>
     k \<in> {''x-id'', ''content-type'', ''cache-control'', ''content-encoding'',
          ''content-disposition'', ''expires'', ''x-amz-storage-class''}"

definition validate_xid :: "query_params \<Rightarrow> str \<Rightarrow> bool" where
  "validate_xid q expected \<longleftrightarrow> (case first q ''x-id'' of Some v \<Rightarrow> v = expected | None \<Rightarrow> True)"

definition is_empty_effective :: "query_params \<Rightarrow> bool" where
  "is_empty_effective q \<longleftrightarrow> (\<forall>k\<in>set (map fst q). is_sigv4_presign_key k \<or> is_non_effective_key k)"

fun only_effective_loop :: "str \<Rightarrow> str list \<Rightarrow> nat \<times> bool \<Rightarrow> nat \<times> bool" where
  "only_effective_loop key_lc [] (n, has_key) = (n, has_key)"
| "only_effective_loop key_lc (k # ks) (n, has_key) =
     (if is_sigv4_presign_key k \<or> is_non_effective_key k
      then only_effective_loop key_lc ks (n, has_key)
      else only_effective_loop key_lc ks (n + 1, has_key \<or> k = key_lc))"

definition is_only_effective :: "query_params \<Rightarrow> str \<Rightarrow> bool" where
  "is_only_effective q key =
     (case only_effective_loop (to_ascii_lowercase key) (map fst q) (0, False) of
        (n, has_key) \<Rightarrow> n = 1 \<and> has_key)"

section \<open>Access level and routing key\<close>

fun needs_write :: "s3_op \<Rightarrow> bool" where
  "needs_write (Read _) = False"
| "needs_write (Write _) = True"
| "needs_write (Multipart (ListParts _)) = False"
| "needs_write (Multipart ListMultipartUploads) = False"
| "needs_write (Multipart _) = True"
| "needs_write (Versioning GetBucketVersioning) = False"
| "needs_write (Versioning ListObjectVersions) = False"
| "needs_write (Versioning (ObjectWithVersionId _)) = False"
| "needs_write (Versioning _) = True"
| "needs_write (ObjectLock GetBucketObjectLockConfiguration) = False"
| "needs_write (ObjectLock GetObjectRetention) = False"
| "needs_write (ObjectLock GetObjectLegalHold) = False"
| "needs_write (ObjectLock _) = True"
| "needs_write (BucketAdmin _) = True"
| "needs_write (Session _) = False"
| "needs_write HeadService = False"
| "needs_write Other = True"

definition class_key :: "s3_request_class \<Rightarrow> str" where
  "class_key c =
     (case rc_op c of
        Multipart _ \<Rightarrow> ''multipart''
      | Versioning _ \<Rightarrow> ''versioning''
      | ObjectLock _ \<Rightarrow> ''object_lock''
      | Read _ \<Rightarrow> ''read''
      | Write _ \<Rightarrow> ''write''
      | BucketAdmin _ \<Rightarrow> ''bucket_admin''
      | Session _ \<Rightarrow> ''session''
      | HeadService \<Rightarrow> ''service''
      | Other \<Rightarrow> ''other'')"

definition not_implemented_reason :: "s3_request_class \<Rightarrow> str option" where
  "not_implemented_reason c =
     (case rc_op c of
        Multipart _ \<Rightarrow> Some ''multipart uploads are not implemented''
      | Versioning _ \<Rightarrow> Some ''versioning is not implemented''
      | ObjectLock _ \<Rightarrow> Some ''object locking is not implemented''
      | Read _ \<Rightarrow> None
      | Write _ \<Rightarrow> None
      | BucketAdmin _ \<Rightarrow> Some ''bucket administration is not implemented''
      | Session _ \<Rightarrow> None
      | HeadService \<Rightarrow> None
      | Other \<Rightarrow> None)"

section \<open>Bucket and key\<close>

definition parse_bucket_key_path_style :: "(str \<Rightarrow> str option) \<Rightarrow> str \<Rightarrow> str option \<times> str option" where
  "parse_bucket_key_path_style pdec path =
     (let p = trim_start_matches ''/'' path in
      if p = [] then (None, None)
      else (case split_once CHR ''/'' p of
              None \<Rightarrow> (Some p, None)
            | Some (bucket, rest) \<Rightarrow>
                (let rest' = unwrap_or (strip_prefix ''/'' rest) rest in
                 (Some bucket,
                  if rest' = [] then None
                  else Some (percent_decode_path_segments_lossy pdec rest')))))"

text \<open>The loop over the configured suffixes: the bucket name of the first one that matches.\<close>

fun virtual_bucket :: "str \<Rightarrow> str list \<Rightarrow> str option" where
  "virtual_bucket host [] = None"
| "virtual_bucket host (sfx # rest) =
     (if sfx = [] then virtual_bucket host rest
      else if ends_with sfx host then
        (let pfx = trim_end_matches ''.'' (trim_end_matches sfx host) in
         if pfx \<noteq> [] then Some pfx else virtual_bucket host rest)
      else virtual_bucket host rest)"

definition host_without_port :: "str \<Rightarrow> str" where
  "host_without_port host = hd (split_on CHR '':'' host)"

definition parse_bucket_key_auto ::
  "(str \<Rightarrow> str option) \<Rightarrow> str \<Rightarrow> uri \<Rightarrow> headers option \<Rightarrow> str list \<Rightarrow> str option \<times> str option \<times> bool" where
  "parse_bucket_key_auto pdec meth u hs suffixes =
     (case (case hs of None \<Rightarrow> None
            | Some h \<Rightarrow> (case hdr_text h ''host'' of None \<Rightarrow> None
                | Some host \<Rightarrow> virtual_bucket (host_without_port host) suffixes)) of
        Some bucket \<Rightarrow>
          (let path = trim_start_matches ''/'' (uri_path u) in
           (Some bucket,
            if path = [] then None else Some (percent_decode_path_segments_lossy pdec path), True))
      | None \<Rightarrow>
          if meth = ''GET'' \<and> uri_path u = ''/'' then (None, None, False)
          else (case parse_bucket_key_path_style pdec (uri_path u) of (bucket, key) \<Rightarrow> (bucket, key, False)))"

section \<open>Classification\<close>

definition classify_multipart :: "str \<Rightarrow> str option \<Rightarrow> str option \<Rightarrow> query_params \<Rightarrow> multipart_op option" where
  "classify_multipart meth bucket key q =
     (if meth = ''GET'' \<and> bucket \<noteq> None \<and> key = None \<and> has q ''uploads'' \<and>
         validate_xid q ''ListMultipartUploads'' then Some ListMultipartUploads
      else if meth = ''POST'' \<and> bucket \<noteq> None \<and> key \<noteq> None \<and> has q ''uploads'' \<and>
         validate_xid q ''CreateMultipartUpload'' then Some CreateMultipartUpload
      else (case first q ''uploadid'' of
          None \<Rightarrow> None
        | Some upload_id \<Rightarrow>
            if meth = ''PUT'' \<and> validate_xid q ''UploadPart'' then
              (case Option.bind (first q ''partnumber'') parse_u32 of
                 Some pn \<Rightarrow> Some (UploadPart upload_id pn)
               | None \<Rightarrow> Some MultipartUnknown)
            else if meth = ''GET'' \<and> validate_xid q ''ListParts'' then Some (ListParts upload_id)
            else if meth = ''POST'' \<and> validate_xid q ''CompleteMultipartUpload''
              then Some (CompleteMultipartUpload upload_id)
            else if meth = ''DELETE'' \<and> validate_xid q ''AbortMultipartUpload''
              then Some (AbortMultipartUpload upload_id)
            else Some MultipartUnknown))"

definition classify_versioning :: "str \<Rightarrow> str option \<Rightarrow> str option \<Rightarrow> query_params \<Rightarrow> versioning_op option" where
  "classify_versioning meth bucket key q =
     (if bucket \<noteq> None \<and> key = None \<and> has q ''versioning'' then
        (if meth = ''GET'' \<and> validate_xid q ''GetBucketVersioning'' then Some GetBucketVersioning
         else if meth = ''PUT'' \<and> validate_xid q ''PutBucketVersioning'' then Some PutBucketVersioning
         else Some VersioningUnknown)
      else if meth = ''GET'' \<and> bucket \<noteq> None \<and> key = None \<and> has q ''versions'' \<and>
         validate_xid q ''ListObjectVersions'' then Some ListObjectVersions
      else if key \<noteq> None then
        (case first q ''versionid'' of
           Some vid \<Rightarrow> if validate_xid q ''ObjectWithVersionId'' then Some (ObjectWithVersionId vid) else None
         | None \<Rightarrow> None)
      else None)"

definition classify_object_lock :: "str \<Rightarrow> str option \<Rightarrow> str option \<Rightarrow> query_params \<Rightarrow> object_lock_op option" where
  "classify_object_lock meth bucket key q =
     (if bucket \<noteq> None \<and> key = None \<and> has q ''object-lock'' then
        (if meth = ''GET'' \<and> validate_xid q ''GetBucketObjectLockConfiguration''
           then Some GetBucketObjectLockConfiguration
         else if meth = ''PUT'' \<and> validate_xid q ''PutBucketObjectLockConfiguration''
           then Some PutBucketObjectLockConfiguration
         else Some ObjectLockUnknown)
      else if bucket \<noteq> None \<and> key \<noteq> None \<and> has q ''retention'' then
        (if meth = ''GET'' \<and> validate_xid q ''GetObjectRetention'' then Some GetObjectRetention
         else if meth = ''PUT'' \<and> validate_xid q ''PutObjectRetention'' then Some PutObjectRetention
         else Some ObjectLockUnknown)
      else if bucket \<noteq> None \<and> key \<noteq> None \<and> has q ''legal-hold'' then
        (if meth = ''GET'' \<and> validate_xid q ''GetObjectLegalHold'' then Some GetObjectLegalHold
         else if meth = ''PUT'' \<and> validate_xid q ''PutObjectLegalHold'' then Some PutObjectLegalHold
         else Some ObjectLockUnknown)
      else None)"

text \<open>The sub-resources that come before versioning: ACLs and object tagging.\<close>

definition classify_acl_tagging :: "str \<Rightarrow> str option \<Rightarrow> str option \<Rightarrow> query_params \<Rightarrow> s3_op option" where
  "classify_acl_tagging meth bucket key q =
     (let acl = bucket \<noteq> None \<and> has q ''acl''; tagging = bucket \<noteq> None \<and> key \<noteq> None \<and> has q ''tagging'' in
      if meth = ''GET'' \<and> acl \<and> key \<noteq> None \<and> validate_xid q ''GetObjectAcl'' then Some (Read GetObjectAcl)
      else if meth = ''GET'' \<and> acl \<and> key = None \<and> validate_xid q ''GetBucketAcl'' then Some (Read GetBucketAcl)
      else if meth = ''PUT'' \<and> acl \<and> key \<noteq> None \<and> validate_xid q ''PutObjectAcl'' then Some (Write PutObjectAcl)
      else if meth = ''PUT'' \<and> acl \<and> key = None \<and> validate_xid q ''PutBucketAcl'' then Some (Write PutBucketAcl)
      else if tagging \<and> meth = ''GET'' \<and> validate_xid q ''GetObjectTagging'' then Some (Read GetObjectTagging)
      else if tagging \<and> meth = ''PUT'' \<and> validate_xid q ''PutObjectTagging'' then Some (Write PutObjectTagging)
      else if tagging \<and> meth = ''DELETE'' \<and> validate_xid q ''DeleteObjectTagging''
        then Some (Write DeleteObjectTagging)
      else None)"

text \<open>The operations on the bucket or the object itself, in the order of the code.\<close>

definition classify_plain :: "str \<Rightarrow> str option \<Rightarrow> str option \<Rightarrow> query_params \<Rightarrow> headers option \<Rightarrow> s3_op" where
  "classify_plain meth bucket key q hs =
     (let on_bucket = bucket \<noteq> None \<and> key = None; on_object = bucket \<noteq> None \<and> key \<noteq> None;
          plain = is_empty_effective q;
          header = (\<lambda>n. case hs of Some h \<Rightarrow> hdr_contains h n | None \<Rightarrow> False) in
      if meth = ''GET'' \<and> on_bucket \<and> is_only_effective q ''location'' \<and> validate_xid q ''GetBucketLocation''
        then Read GetBucketLocation
      else if meth = ''GET'' \<and> on_bucket \<and> is_only_effective q ''session'' \<and> validate_xid q ''CreateSession''
        then Session CreateSession
      else if meth = ''HEAD'' \<and> on_bucket \<and> plain \<and> validate_xid q ''HeadBucket'' then Read HeadBucket
      else if meth = ''PUT'' \<and> on_bucket \<and> plain \<and> validate_xid q ''CreateBucket'' then BucketAdmin CreateBucket
      else if meth = ''DELETE'' \<and> on_bucket \<and> plain \<and> validate_xid q ''DeleteBucket''
        then BucketAdmin DeleteBucket
      else if meth = ''GET'' \<and> on_object \<and> plain \<and> validate_xid q ''GetObject'' then Read GetObject
      else if meth = ''HEAD'' \<and> on_object \<and> plain \<and> validate_xid q ''HeadObject'' then Read HeadObject
      else if meth = ''GET'' \<and> on_bucket \<and> first q ''list-type'' = Some ''2'' \<and> validate_xid q ''ListObjectsV2''
        then Read ListObjectsV2
      else if meth = ''GET'' \<and> on_bucket \<and> validate_xid q ''ListObjects'' then Read ListObjectsV1
      else if meth = ''PUT'' \<and> on_object \<and> plain \<and> header ''x-amz-copy-source'' \<and> validate_xid q ''CopyObject''
        then Write CopyObject
      else if meth = ''PUT'' \<and> on_object \<and> has q ''renameobject'' \<and> header ''x-amz-rename-source'' \<and>
          validate_xid q ''RenameObject'' then Write RenameObject
      else if meth = ''PUT'' \<and> on_object \<and> plain \<and> validate_xid q ''PutObject'' then Write PutObject
      else if meth = ''POST'' \<and> on_bucket \<and> has q ''delete'' \<and> validate_xid q ''DeleteObjects''
        then Write DeleteObjects
      else if meth = ''DELETE'' \<and> on_object \<and> plain \<and> validate_xid q ''DeleteObject'' then Write DeleteObject
      else Other)"

definition classify_op :: "str \<Rightarrow> str option \<Rightarrow> str option \<Rightarrow> query_params \<Rightarrow> headers option \<Rightarrow> s3_op" where
  "classify_op meth bucket key q hs =
     (if meth = ''GET'' \<and> bucket = None \<and> key = None \<and> validate_xid q ''ListBuckets'' then Read ListBuckets
      else if meth = ''HEAD'' \<and> bucket = None \<and> key = None \<and> is_empty_effective q then HeadService
      else (case classify_multipart meth bucket key q of
          Some op \<Rightarrow> Multipart op
        | None \<Rightarrow> (case classify_acl_tagging meth bucket key q of
            Some op \<Rightarrow> op
          | None \<Rightarrow> (case classify_versioning meth bucket key q of
              Some op \<Rightarrow> Versioning op
            | None \<Rightarrow> (case classify_object_lock meth bucket key q of
                Some op \<Rightarrow> ObjectLock op
              | None \<Rightarrow> classify_plain meth bucket key q hs)))))"

definition classify_with_headers ::
  "(str \<Rightarrow> (str \<times> str) list) \<Rightarrow> (str \<Rightarrow> str option) \<Rightarrow> str \<Rightarrow> uri \<Rightarrow> headers option \<Rightarrow> str list \<Rightarrow> s3_request_class" where
  "classify_with_headers form_parse pdec meth u hs suffixes =
     (case parse_bucket_key_auto pdec meth u hs suffixes of (bucket, key, _) \<Rightarrow>
        (let q = from_uri form_parse u in
         \<lparr>rc_bucket = bucket, rc_key = key, rc_query = q, rc_op = classify_op meth bucket key q hs\<rparr>))"

section \<open>What a classification says of the request\<close>

text \<open>
  The method, and whether a bucket and a key are named, for each operation, as the comments of the
  enumerations give them. The multipart operations on an upload id and the object versions carry
  no promise about the path.
\<close>

fun op_shape :: "s3_op \<Rightarrow> str \<Rightarrow> bool \<Rightarrow> bool \<Rightarrow> bool" where
  "op_shape (Read ListBuckets) m b k = (m = ''GET'' \<and> \<not> b \<and> \<not> k)"
| "op_shape (Read GetObject) m b k = (m = ''GET'' \<and> b \<and> k)"
| "op_shape (Read HeadObject) m b k = (m = ''HEAD'' \<and> b \<and> k)"
| "op_shape (Read HeadBucket) m b k = (m = ''HEAD'' \<and> b \<and> \<not> k)"
| "op_shape (Read GetObjectAcl) m b k = (m = ''GET'' \<and> b \<and> k)"
| "op_shape (Read GetObjectTagging) m b k = (m = ''GET'' \<and> b \<and> k)"
| "op_shape (Read _) m b k = (m = ''GET'' \<and> b \<and> \<not> k)"
| "op_shape (Write DeleteObject) m b k = (m = ''DELETE'' \<and> b \<and> k)"
| "op_shape (Write DeleteObjectTagging) m b k = (m = ''DELETE'' \<and> b \<and> k)"
| "op_shape (Write DeleteObjects) m b k = (m = ''POST'' \<and> b \<and> \<not> k)"
| "op_shape (Write PutBucketAcl) m b k = (m = ''PUT'' \<and> b \<and> \<not> k)"
| "op_shape (Write _) m b k = (m = ''PUT'' \<and> b \<and> k)"
| "op_shape (BucketAdmin CreateBucket) m b k = (m = ''PUT'' \<and> b \<and> \<not> k)"
| "op_shape (BucketAdmin DeleteBucket) m b k = (m = ''DELETE'' \<and> b \<and> \<not> k)"
| "op_shape (Session CreateSession) m b k = (m = ''GET'' \<and> b \<and> \<not> k)"
| "op_shape (Multipart CreateMultipartUpload) m b k = (m = ''POST'' \<and> b \<and> k)"
| "op_shape (Multipart ListMultipartUploads) m b k = (m = ''GET'' \<and> b \<and> \<not> k)"
| "op_shape (Multipart (UploadPart _ _)) m b k = (m = ''PUT'')"
| "op_shape (Multipart (ListParts _)) m b k = (m = ''GET'')"
| "op_shape (Multipart (CompleteMultipartUpload _)) m b k = (m = ''POST'')"
| "op_shape (Multipart (AbortMultipartUpload _)) m b k = (m = ''DELETE'')"
| "op_shape (Multipart MultipartUnknown) m b k = True"
| "op_shape (Versioning GetBucketVersioning) m b k = (m = ''GET'' \<and> b \<and> \<not> k)"
| "op_shape (Versioning PutBucketVersioning) m b k = (m = ''PUT'' \<and> b \<and> \<not> k)"
| "op_shape (Versioning ListObjectVersions) m b k = (m = ''GET'' \<and> b \<and> \<not> k)"
| "op_shape (Versioning (ObjectWithVersionId _)) m b k = k"
| "op_shape (Versioning VersioningUnknown) m b k = (b \<and> \<not> k)"
| "op_shape (ObjectLock GetBucketObjectLockConfiguration) m b k = (m = ''GET'' \<and> b \<and> \<not> k)"
| "op_shape (ObjectLock PutBucketObjectLockConfiguration) m b k = (m = ''PUT'' \<and> b \<and> \<not> k)"
| "op_shape (ObjectLock ObjectLockUnknown) m b k = b"
| "op_shape (ObjectLock GetObjectRetention) m b k = (m = ''GET'' \<and> b \<and> k)"
| "op_shape (ObjectLock GetObjectLegalHold) m b k = (m = ''GET'' \<and> b \<and> k)"
| "op_shape (ObjectLock _) m b k = (m = ''PUT'' \<and> b \<and> k)"
| "op_shape HeadService m b k = (m = ''HEAD'' \<and> \<not> b \<and> \<not> k)"
| "op_shape Other m b k = True"

lemma classify_multipart_shape:
  "classify_multipart m b k q = Some op \<Longrightarrow> op_shape (Multipart op) m (b \<noteq> None) (k \<noteq> None)"
  by (auto simp: classify_multipart_def split: if_splits option.splits)

lemma classify_versioning_shape:
  "classify_versioning m b k q = Some op \<Longrightarrow> op_shape (Versioning op) m (b \<noteq> None) (k \<noteq> None)"
  by (auto simp: classify_versioning_def split: if_splits option.splits)

lemma classify_object_lock_shape:
  "classify_object_lock m b k q = Some op \<Longrightarrow> op_shape (ObjectLock op) m (b \<noteq> None) (k \<noteq> None)"
  by (auto simp: classify_object_lock_def split: if_splits)

lemma classify_acl_tagging_shape:
  "classify_acl_tagging m b k q = Some op \<Longrightarrow> op_shape op m (b \<noteq> None) (k \<noteq> None)"
  by (auto simp: classify_acl_tagging_def Let_def split: if_splits)

lemma classify_plain_shape: "op_shape (classify_plain m b k q hs) m (b \<noteq> None) (k \<noteq> None)"
  by (simp add: classify_plain_def Let_def del: not_None_eq)

lemma classify_op_shape: "op_shape (classify_op m b k q hs) m (b \<noteq> None) (k \<noteq> None)"
  using classify_multipart_shape classify_versioning_shape classify_object_lock_shape
    classify_acl_tagging_shape classify_plain_shape
  by (auto simp: classify_op_def split: option.splits)

lemma op_shape_reads:
  "op_shape op m b k \<Longrightarrow>
   needs_write op \<or> m = ''GET'' \<or> m = ''HEAD'' \<or> (\<exists>v. op = Versioning (ObjectWithVersionId v) \<and> k)"
  by (cases "(op, m, b, k)" rule: op_shape.cases) auto




section \<open>Presigned requests\<close>

definition drop_presign :: "query_params \<Rightarrow> query_params" where
  "drop_presign q = filter (\<lambda>p. \<not> is_sigv4_presign_key (fst p)) q"

text \<open>The decoded parameters of a request that are not part of a presigned signature.\<close>

definition plain_pairs :: "(str \<Rightarrow> (str \<times> str) list) \<Rightarrow> uri \<Rightarrow> (str \<times> str) list" where
  "plain_pairs form_parse u =
     (case uri_query u of
        Some q \<Rightarrow> if q = [] then []
          else filter (\<lambda>p. \<not> is_sigv4_presign_key (to_ascii_lowercase (trim (fst p)))) (form_parse q)
      | None \<Rightarrow> [])"

lemma drop_presign_push:
  "drop_presign (qp_push k v q) = (if is_sigv4_presign_key k then drop_presign q else qp_push k v (drop_presign q))"
  by (induction q) (auto simp: drop_presign_def)

lemma drop_presign_foldl:
  "drop_presign (foldl qp_add q ps) =
     foldl qp_add (drop_presign q) (filter (\<lambda>p. \<not> is_sigv4_presign_key (to_ascii_lowercase (trim (fst p)))) ps)"
  by (induction ps arbitrary: q) (auto simp: qp_add_def Let_def drop_presign_push)

lemma drop_presign_from_uri: "drop_presign (from_uri form_parse u) = foldl qp_add [] (plain_pairs form_parse u)"
  using drop_presign_foldl [of "[]"]
  by (auto simp: from_uri_def plain_pairs_def drop_presign_def split: option.splits)

lemma map_of_drop_presign: "\<not> is_sigv4_presign_key k \<Longrightarrow> map_of (drop_presign q) k = map_of q k"
  by (induction q) (auto simp: drop_presign_def)

lemma has_drop_presign:
  "\<not> is_sigv4_presign_key (to_ascii_lowercase k) \<Longrightarrow> has (drop_presign q) k = has q k"
  by (simp add: has_def map_of_drop_presign)

lemma first_drop_presign:
  "\<not> is_sigv4_presign_key (to_ascii_lowercase k) \<Longrightarrow> first (drop_presign q) k = first q k"
  by (simp add: first_def map_of_drop_presign)

lemma plain_keys:
  "\<not> is_sigv4_presign_key (to_ascii_lowercase ''x-id'')"
  "\<not> is_sigv4_presign_key (to_ascii_lowercase ''uploads'')"
  "\<not> is_sigv4_presign_key (to_ascii_lowercase ''uploadid'')"
  "\<not> is_sigv4_presign_key (to_ascii_lowercase ''partnumber'')"
  "\<not> is_sigv4_presign_key (to_ascii_lowercase ''acl'')"
  "\<not> is_sigv4_presign_key (to_ascii_lowercase ''tagging'')"
  "\<not> is_sigv4_presign_key (to_ascii_lowercase ''versioning'')"
  "\<not> is_sigv4_presign_key (to_ascii_lowercase ''versions'')"
  "\<not> is_sigv4_presign_key (to_ascii_lowercase ''versionid'')"
  "\<not> is_sigv4_presign_key (to_ascii_lowercase ''object-lock'')"
  "\<not> is_sigv4_presign_key (to_ascii_lowercase ''retention'')"
  "\<not> is_sigv4_presign_key (to_ascii_lowercase ''legal-hold'')"
  "\<not> is_sigv4_presign_key (to_ascii_lowercase ''list-type'')"
  "\<not> is_sigv4_presign_key (to_ascii_lowercase ''renameobject'')"
  "\<not> is_sigv4_presign_key (to_ascii_lowercase ''delete'')"
  by code_simp+

lemma is_empty_effective_drop: "is_empty_effective (drop_presign q) = is_empty_effective q"
  by (auto simp: is_empty_effective_def drop_presign_def)

lemma only_effective_loop_drop:
  "only_effective_loop key (map fst (drop_presign q)) acc = only_effective_loop key (map fst q) acc"
  by (induction q arbitrary: acc) (auto simp: drop_presign_def)

lemma is_only_effective_drop: "is_only_effective (drop_presign q) k = is_only_effective q k"
  by (simp add: is_only_effective_def only_effective_loop_drop)

lemma validate_xid_drop: "validate_xid (drop_presign q) op = validate_xid q op"
  by (simp add: validate_xid_def first_drop_presign plain_keys)

lemmas presign_simps = has_drop_presign first_drop_presign plain_keys is_empty_effective_drop
  is_only_effective_drop validate_xid_drop

lemma classify_op_drop_presign: "classify_op m b k (drop_presign q) hs = classify_op m b k q hs"
  unfolding classify_op_def classify_multipart_def classify_acl_tagging_def classify_versioning_def
    classify_object_lock_def classify_plain_def Let_def
  by (simp only: presign_simps not_False_eq_True)

text \<open>
  A presigned request is classified as the request it stands for: two requests with the same
  method, path and headers, and the same query parameters but for those of the signature, have
  the same bucket, key and operation.
\<close>
theorem classify_ignores_presign:
  assumes "uri_path u' = uri_path u" "plain_pairs form_parse u' = plain_pairs form_parse u"
  shows "rc_op (classify_with_headers form_parse pdec m u' hs sfx) = rc_op (classify_with_headers form_parse pdec m u hs sfx) \<and>
         rc_bucket (classify_with_headers form_parse pdec m u' hs sfx) = rc_bucket (classify_with_headers form_parse pdec m u hs sfx) \<and>
         rc_key (classify_with_headers form_parse pdec m u' hs sfx) = rc_key (classify_with_headers form_parse pdec m u hs sfx)"
proof -
  have path: "parse_bucket_key_auto pdec m u' hs sfx = parse_bucket_key_auto pdec m u hs sfx"
    by (simp only: parse_bucket_key_auto_def assms(1))
  have "drop_presign (from_uri form_parse u') = drop_presign (from_uri form_parse u)"
    using assms(2) by (simp add: drop_presign_from_uri)
  then have "classify_op m b k (from_uri form_parse u') hs = classify_op m b k (from_uri form_parse u) hs" for b k
    by (metis classify_op_drop_presign)
  with path show ?thesis
    by (simp add: classify_with_headers_def Let_def split: prod.splits)
qed

theorem classify_ignores_presign_witness:
  "\<exists>form_parse :: str \<Rightarrow> (str \<times> str) list. \<exists>u u'. u \<noteq> u' \<and> plain_pairs form_parse u' = plain_pairs form_parse u \<and>
     rc_op (classify_with_headers form_parse Some ''GET'' u' None []) =
     rc_op (classify_with_headers form_parse Some ''GET'' u None [])"
proof -
  define fp :: "str \<Rightarrow> (str \<times> str) list" where
    "fp = (\<lambda>q. if q = ''location'' then [(''location'', [])] else [(''location'', []), (''X-Amz-Signature'', ''ab'')])"
  define u where "u = \<lparr>uri_path = ''/b'', uri_query = Some ''location'', uri_authority = None\<rparr>"
  define u' where "u' = \<lparr>uri_path = ''/b'', uri_query = Some ''location&X-Amz-Signature=ab'', uri_authority = None\<rparr>"
  have "trim ''X-Amz-Signature'' = ''X-Amz-Signature''"
    by (rule trim_id) (simp add: ws_first_def ws_last_def)
  moreover have "is_sigv4_presign_key (to_ascii_lowercase ''X-Amz-Signature'')"
    by code_simp
  ultimately have p: "plain_pairs fp u' = plain_pairs fp u"
    by (simp add: plain_pairs_def fp_def u_def u'_def)
  moreover have "u \<noteq> u'" "uri_path u' = uri_path u"
    by (simp_all add: u_def u'_def)
  ultimately show ?thesis
    using classify_ignores_presign [of u' u fp Some "''GET''" None "[]"] by blast
qed

section \<open>Paths\<close>

abbreviation encode_key :: "str \<Rightarrow> str" where
  "encode_key key \<equiv>
     join ''/'' (map (s3_url_encode pct_encode_doc non_alphanumeric_doc) (split_on CHR ''/'' key))"

lemma trim_start_slash [simp]:
  "trim_start_matches ''/'' [] = []"
  "trim_start_matches ''/'' (CHR ''/'' # s) = trim_start_matches ''/'' s"
  "c \<noteq> CHR ''/'' \<Longrightarrow> trim_start_matches ''/'' (c # s) = c # s"
  by (subst trim_start_matches.simps; simp add: starts_with_def)+

lemma path_style_split:
  assumes "bucket \<noteq> []" "CHR ''/'' \<notin> set bucket"
  shows "parse_bucket_key_path_style pdec (CHR ''/'' # bucket @ CHR ''/'' # rest) =
         (let rest' = unwrap_or (strip_prefix ''/'' rest) rest in
          (Some bucket, if rest' = [] then None else Some (percent_decode_path_segments_lossy pdec rest')))"
proof -
  have "trim_start_matches ''/'' (bucket @ CHR ''/'' # rest) = bucket @ CHR ''/'' # rest"
    using assms by (cases bucket) auto
  with assms show ?thesis
    by (simp add: parse_bucket_key_path_style_def)
qed

lemma strip_slash_none: "s = [] \<or> hd s \<noteq> CHR ''/'' \<Longrightarrow> unwrap_or (strip_prefix ''/'' s) s = s"
  by (cases s) (auto simp: strip_prefix_def starts_with_def unwrap_or_def)

lemma encode_key_head:
  assumes "key \<noteq> []" "hd key \<noteq> CHR ''/''"
  shows "encode_key key \<noteq> [] \<and> hd (encode_key key) \<noteq> CHR ''/''"
proof -
  let ?e = "s3_url_encode pct_encode_doc non_alphanumeric_doc"
  obtain c cs where key: "key = c # cs" "c \<noteq> CHR ''/''"
    using assms by (cases key) auto
  then obtain seg segs where s: "split_on CHR ''/'' key = (c # seg) # segs"
    by (cases "split_on CHR ''/'' cs") auto
  have "?e (c # seg) \<noteq> []"
    by (simp add: s3_url_encode_def pct_encode_doc_def pct_byte_def)
  moreover have "CHR ''/'' \<notin> set (?e (c # seg))"
    by (simp add: s3_url_encode_def slash_notin_encode)
  ultimately have "?e (c # seg) \<noteq> [] \<and> hd (?e (c # seg)) \<noteq> CHR ''/''"
    by (metis list.set_sel(1))
  then show ?thesis
    unfolding s by (cases segs) auto
qed

text \<open>
  C17. A path-style request names the object the client meant: for a bucket without slashes and a
  key that does not begin with one, the path made of the bucket and the percent-encoded key is
  parsed to that bucket and that key, whatever bytes and inner slashes the key has. The hypothesis
  is the documented behaviour of the percent decoder.
\<close>
theorem path_style_roundtrip:
  assumes "\<And>s. pdec s = (if valid (rfc_decode s) then Some (rfc_decode s) else None)"
    and "\<forall>seg\<in>set (split_on CHR ''/'' key). valid seg"
    and "bucket \<noteq> []" "CHR ''/'' \<notin> set bucket" "key \<noteq> []" "hd key \<noteq> CHR ''/''"
  shows "parse_bucket_key_path_style pdec (CHR ''/'' # bucket @ CHR ''/'' # encode_key key) = (Some bucket, Some key)"
  using encode_key_head [OF assms(5,6)] decode_encoded_key [OF assms(1,2)]
  by (simp add: path_style_split [OF assms(3,4)] strip_slash_none Let_def)

theorem path_style_roundtrip_witness:
  "\<exists>pdec. parse_bucket_key_path_style pdec (CHR ''/'' # ''data'' @ CHR ''/'' # encode_key ''a b//c'') =
     (Some ''data'', Some ''a b//c'')"
proof -
  let ?pdec = "\<lambda>s. Some (rfc_decode s)"
  have dec: "?pdec s = (if (\<lambda>_. True) (rfc_decode s) then Some (rfc_decode s) else None)" for s
    by simp
  have "parse_bucket_key_path_style ?pdec (CHR ''/'' # ''data'' @ CHR ''/'' # encode_key ''a b//c'') =
     (Some ''data'', Some ''a b//c'')"
    by (rule path_style_roundtrip [OF dec]) simp_all
  then show ?thesis
    by (rule exI [of _ ?pdec])
qed

text \<open>
  A slash at the beginning of a key is lost: the path \<open>/bucket//key\<close> names the same object as
  \<open>/bucket/key\<close>, although the separator between bucket and key has already been removed when the
  code strips it. So the keys \<open>/k\<close> and \<open>k\<close> collide.
\<close>
theorem path_style_leading_slash_lost:
  assumes "bucket \<noteq> []" "CHR ''/'' \<notin> set bucket" "key = [] \<or> hd key \<noteq> CHR ''/''"
  shows "parse_bucket_key_path_style pdec (CHR ''/'' # bucket @ CHR ''/'' # CHR ''/'' # key) =
         parse_bucket_key_path_style pdec (CHR ''/'' # bucket @ CHR ''/'' # key)"
proof -
  have "unwrap_or (strip_prefix ''/'' (CHR ''/'' # key)) (CHR ''/'' # key) = key"
    by (simp add: strip_prefix_def starts_with_def unwrap_or_def)
  then show ?thesis
    by (simp add: path_style_split [OF assms(1,2)] strip_slash_none [OF assms(3)])
qed

theorem path_style_leading_slash_lost_witness:
  "parse_bucket_key_path_style Some ''/data//k'' = parse_bucket_key_path_style Some ''/data/k''"
  using path_style_leading_slash_lost [of "''data''" "''k''" Some] by simp

end
