(* ===== verification/Sigv4.thy ===== *)
theory Sigv4
  imports Http_Utils Uri_Encoding
begin

text \<open>
  Signature Version 4 verification, \<open>crates/s32p-support/src/lib.rs\<close>: the parsing of the
  \<open>Authorization\<close> header and of presigned query parameters, the format gate, the verification of
  both forms over the variants of path and host, the diagnostic, and the choice of the response.

  The signer of the aws-sigv4 crate is the parameter \<open>sign\<close>, from everything it is given to the
  signature or an error text; the date parser of the time crate is \<open>parse_date\<close>, from the text to
  the calendar date and the Unix time; \<open>form_parse\<close> is \<open>form_urlencoded::parse\<close> and \<open>dbg\<close> the
  \<open>Debug\<close> rendering of a string. \<open>SystemTime\<close> is in nanoseconds.
\<close>

section \<open>Data\<close>

record sigv4_auth =
  sa_access_key :: str
  sa_scope_date :: str
  sa_region :: str
  sa_service :: str
  sa_signed_headers :: str
  sa_signature :: str

record presigned_sigv4_auth = sigv4_auth +
  pa_amz_date :: str
  pa_expires :: u64
  pa_security_token :: "str option"

definition HEADER_SIGV4_MAX_SKEW :: int where
  "HEADER_SIGV4_MAX_SKEW = 15 * 60 * nanos"

definition PRESIGN_MAX_EXPIRES :: u64 where
  "PRESIGN_MAX_EXPIRES = 7 * 24 * 60 * 60"

datatype signable_body = UnsignedPayload | Precomputed str

text \<open>What the signer is given: credentials, scope, time, the location of the signature (the
  lifetime of a presigned URL, or none for headers), and the request.\<close>

record sign_input =
  si_access_key :: str
  si_secret_key :: str
  si_token :: "str option"
  si_region :: str
  si_service :: str
  si_time :: system_time
  si_expires :: "u64 option"
  si_method :: str
  si_path :: str
  si_headers :: "(str \<times> str) list"
  si_body :: signable_body

type_synonym signer = "sign_input \<Rightarrow> str + str"

datatype reject_kind = AccessDenied | SignatureDoesNotMatch | RequestTimeTooSkewed

record sigv4_rejection =
  rj_kind :: reject_kind
  rj_message :: str
  rj_resource :: "str option"
  rj_reason :: str

section \<open>Parsing\<close>

definition validate_sigv4_format :: "str \<Rightarrow> str \<Rightarrow> unit result" where
  "validate_sigv4_format sig scope_date =
     (if length sig \<noteq> 64
        then Inl (Err (''signature wrong length: got '' @ show_nat (length sig) @ '' expected 64''))
      else if \<not> list_all is_ascii_hexdigit sig then Inl (Err ''signature contains non-hex character'')
      else if length scope_date \<noteq> 8
        then Inl (Err (''scope date wrong length: got '' @ show_nat (length scope_date) @ '' expected 8''))
      else if \<not> list_all is_ascii_digit scope_date then Inl (Err ''scope date contains non-digit character'')
      else Inr ())"

definition require_host_signed :: "str \<Rightarrow> unit result" where
  "require_host_signed signed_headers =
     (if list_ex (\<lambda>h. eq_ignore_ascii_case (trim h) ''host'') (split_on CHR '';'' signed_headers) then Inr ()
      else Inl (Err ''SignedHeaders must include 'host' (AWS SigV4 requirement)''))"

text \<open>The iterator over the segments of a credential; \<open>what\<close> names it in the errors.\<close>

definition parse_credential :: "str \<Rightarrow> str \<Rightarrow> (str \<times> str \<times> str \<times> str) result" where
  "parse_credential what credential =
     (case split_on CHR ''/'' credential of
        access_key # scope_date # region # service # _ \<Rightarrow> Inr (access_key, scope_date, region, service)
      | [access_key, scope_date, region] \<Rightarrow> Inl (Err (''bad '' @ what @ '' service''))
      | [access_key, scope_date] \<Rightarrow> Inl (Err (''bad '' @ what @ '' region''))
      | [access_key] \<Rightarrow> Inl (Err (''bad '' @ what @ '' date''))
      | [] \<Rightarrow> Inl (Err (''bad '' @ what)))"

text \<open>The loop over the comma-separated parts: the last part with the given name wins.\<close>

fun auth_part :: "str \<Rightarrow> str list \<Rightarrow> str option" where
  "auth_part name [] = None"
| "auth_part name (part # rest) =
     (case auth_part name rest of
        Some v \<Rightarrow> Some v
      | None \<Rightarrow> (case split_once CHR ''='' (trim part) of
          Some (k, v) \<Rightarrow> if trim k = name then Some (trim v) else None
        | None \<Rightarrow> None))"

definition parse_authorization :: "headers \<Rightarrow> sigv4_auth result" where
  "parse_authorization hs =
     rbind (ok_or (hdr_get hs ''authorization'') (Err ''missing Authorization'')) (\<lambda>v.
     rbind (ok_or v (Err ''bad Authorization'')) (\<lambda>auth.
     rbind (ok_or (split_once CHR '' '' auth) (Err ''bad Authorization format'')) (\<lambda>(algo, rest).
     if trim algo \<noteq> ''AWS4-HMAC-SHA256'' then Inl (Err (''unsupported auth algo: '' @ algo))
     else (let parts = split_on CHR '','' rest in
       rbind (ok_or (auth_part ''Credential'' parts) (Err ''missing Credential'')) (\<lambda>credential.
       rbind (ok_or (auth_part ''SignedHeaders'' parts) (Err ''missing SignedHeaders'')) (\<lambda>signed_headers.
       rbind (ok_or (auth_part ''Signature'' parts) (Err ''missing Signature'')) (\<lambda>sig.
       rbind (require_host_signed signed_headers) (\<lambda>_.
       rbind (parse_credential ''Credential'' credential) (\<lambda>(access_key, scope_date, region, service).
       Inr \<lparr>sa_access_key = access_key, sa_scope_date = scope_date, sa_region = region,
            sa_service = service, sa_signed_headers = signed_headers, sa_signature = sig\<rparr>)))))))))"

definition is_cred_end :: "char \<Rightarrow> bool" where
  "is_cred_end c \<longleftrightarrow> c = CHR '','' \<or> [c] \<in> set white_space"

text \<open>
  The header text is visible ASCII (\<open>to_str\<close>), so the only characters that end a credential
  are single bytes.
\<close>

definition extract_access_key :: "headers \<Rightarrow> str result" where
  "extract_access_key hs =
     rbind (ok_or (hdr_get hs ''authorization'') (Err ''missing Authorization'')) (\<lambda>v.
     rbind (ok_or v (Err ''bad Authorization'')) (\<lambda>auth.
     rbind (ok_or (after_first ''Credential='' auth) (Err ''missing Credential in Authorization'')) (\<lambda>after.
     (let access_key = hd (split_on CHR ''/'' (takeWhile (\<lambda>c. \<not> is_cred_end c) after)) in
      if access_key = [] then Inl (Err ''empty access key in Credential'') else Inr access_key))))"

fun presign_param :: "str \<Rightarrow> (str \<times> str) list \<Rightarrow> str option" where
  "presign_param name [] = None"
| "presign_param name ((k, v) # rest) =
     (case presign_param name rest of
        Some v' \<Rightarrow> Some v'
      | None \<Rightarrow> if to_ascii_lowercase (trim k) = name then Some v else None)"

definition parse_presigned_query ::
  "(str \<Rightarrow> (str \<times> str) list) \<Rightarrow> (str \<Rightarrow> str) \<Rightarrow> uri \<Rightarrow> presigned_sigv4_auth option result" where
  "parse_presigned_query form_parse dbg u =
     (case uri_query u of None \<Rightarrow> Inr None
      | Some q \<Rightarrow> if q = [] then Inr None else
        (let ps = form_parse q in
         case presign_param ''x-amz-algorithm'' ps of None \<Rightarrow> Inr None
         | Some algo \<Rightarrow>
           if trim algo \<noteq> ''AWS4-HMAC-SHA256'' then Inl (Err (''unsupported presign algo: '' @ algo))
           else
             rbind (ok_or (presign_param ''x-amz-credential'' ps) (Err ''missing X-Amz-Credential'')) (\<lambda>credential.
             rbind (ok_or (presign_param ''x-amz-date'' ps) (Err ''missing X-Amz-Date'')) (\<lambda>amz_date.
             rbind (case presign_param ''x-amz-expires'' ps of
                 Some s \<Rightarrow> ok_or (parse_u64_std (trim s)) (Err (''invalid X-Amz-Expires '' @ dbg (trim s) @
                   '': must be a non-negative integer number of seconds''))
               | None \<Rightarrow> Inl (Err ''missing X-Amz-Expires'')) (\<lambda>expires.
             rbind (ok_or (presign_param ''x-amz-signedheaders'' ps) (Err ''missing X-Amz-SignedHeaders'')) (\<lambda>signed_headers.
             rbind (ok_or (presign_param ''x-amz-signature'' ps) (Err ''missing X-Amz-Signature'')) (\<lambda>sig.
             rbind (require_host_signed signed_headers) (\<lambda>_.
             rbind (parse_credential ''X-Amz-Credential'' credential) (\<lambda>(access_key, scope_date, region, service).
             Inr (Some \<lparr>sa_access_key = access_key, sa_scope_date = scope_date, sa_region = region,
                  sa_service = service, sa_signed_headers = signed_headers, sa_signature = sig,
                  pa_amz_date = amz_date, pa_expires = expires,
                  pa_security_token = presign_param ''x-amz-security-token'' ps\<rparr>)))))))))) "

definition extract_access_key_from_request ::
  "(str \<Rightarrow> (str \<times> str) list) \<Rightarrow> (str \<Rightarrow> str) \<Rightarrow> uri \<Rightarrow> headers \<Rightarrow> str result" where
  "extract_access_key_from_request form_parse dbg u hs =
     (if hdr_contains hs ''authorization'' then extract_access_key hs
      else rbind (parse_presigned_query form_parse dbg u) (\<lambda>p.
        case p of
          Some a \<Rightarrow> if sa_access_key a = [] then Inl (Err ''empty access key in X-Amz-Credential'')
                    else Inr (sa_access_key a)
        | None \<Rightarrow> Inl (Err ''missing Authorization and missing presign params'')))"

section \<open>Dates, paths and hosts\<close>

definition offset_to_system_time :: "int \<Rightarrow> system_time" where
  "offset_to_system_time ts = (if ts \<ge> 0 then ts * nanos else - ((- ts) * nanos))"

definition parse_amz_date :: "(str \<Rightarrow> str + (str \<times> int)) \<Rightarrow> str \<Rightarrow> (str \<times> system_time) result" where
  "parse_amz_date parse_date amz_date =
     (case parse_date amz_date of
        Inl e \<Rightarrow> Inl (Err (''bad X-Amz-Date: '' @ e))
      | Inr (date_str, ts) \<Rightarrow> Inr (date_str, offset_to_system_time ts))"

definition path_variants_for_sigv4 :: "str \<Rightarrow> str list" where
  "path_variants_for_sigv4 pq =
     (let (path, query) = (case split_once CHR ''?'' pq of Some (p, q) \<Rightarrow> (p, Some q) | None \<Rightarrow> (pq, None));
          canonical = canonicalize_uri_path_for_sigv4 path
      in if canonical \<noteq> path
         then [pq, (case query of Some q \<Rightarrow> canonical @ ''?'' @ q | None \<Rightarrow> canonical)]
         else [pq])"

text \<open>\<open>split_once("]:")\<close>.\<close>

fun split_bracket :: "str \<Rightarrow> (str \<times> str) option" where
  "split_bracket (a # b # s) =
     (if a = CHR '']'' \<and> b = CHR '':'' then Some ([], s)
      else map_option (\<lambda>(n, p). (a # n, p)) (split_bracket (b # s)))"
| "split_bracket _ = None"

definition split_host_port :: "str \<Rightarrow> str \<times> str option" where
  "split_host_port host_val =
     (case strip_prefix ''['' host_val of
        Some rest \<Rightarrow>
          (case split_bracket rest of
             Some (n, p) \<Rightarrow> (''['' @ n @ '']'', Some p)
           | None \<Rightarrow> (host_val, None))
      | None \<Rightarrow>
          (case rsplit_once CHR '':'' host_val of
             Some (n, p) \<Rightarrow> if CHR '':'' \<in> set n then (host_val, None) else (n, Some p)
           | None \<Rightarrow> (host_val, None)))"

definition find_host :: "(str \<times> str) list \<Rightarrow> str option" where
  "find_host hs = map_of hs ''host''"

definition host_header_variants :: "(str \<times> str) list \<Rightarrow> str option list" where
  "host_header_variants hs =
     (case find_host hs of
        None \<Rightarrow> [None]
      | Some host_val \<Rightarrow>
          (case split_host_port host_val of (name, port) \<Rightarrow>
             (case port of
                Some p \<Rightarrow> if p = ''80'' \<or> p = ''443'' then [None, Some name] else [None]
              | None \<Rightarrow> [None, Some (name @ '':443''), Some (name @ '':80'')])))"

text \<open>Replace the value of the first \<open>host\<close> header.\<close>

fun set_host :: "str \<Rightarrow> (str \<times> str) list \<Rightarrow> (str \<times> str) list" where
  "set_host h [] = []"
| "set_host h ((k, v) # hs) = (if k = ''host'' then (k, h) # hs else (k, v) # set_host h hs)"

definition attempt_headers :: "(str \<times> str) list \<Rightarrow> str option \<Rightarrow> (str \<times> str) list" where
  "attempt_headers storage variant = (case variant of None \<Rightarrow> storage | Some h \<Rightarrow> set_host h storage)"

section \<open>The canonical request of the diagnostic\<close>

definition build_canonical_request :: "str \<Rightarrow> str \<Rightarrow> (str \<times> str) list \<Rightarrow> str \<Rightarrow> str \<Rightarrow> str" where
  "build_canonical_request meth pq hs signed_headers payload_hash =
     (let (path, query) = (case split_once CHR ''?'' pq of Some (p, q) \<Rightarrow> (p, q) | None \<Rightarrow> (pq, []));
          q_parts = (if query = [] then [] else
            sort (map (\<lambda>seg. case split_once CHR ''='' seg of Some kv \<Rightarrow> [fst kv, snd kv] | None \<Rightarrow> [seg, []])
              (split_on CHR ''&'' query)));
          canonical_query = join ''&'' (map (\<lambda>kv. hd kv @ ''='' @ hd (tl kv)) q_parts);
          signed_set = map trim (split_on CHR '';'' signed_headers);
          hpairs = sort_key fst (map (\<lambda>(k, v). (to_ascii_lowercase k, trim v))
            (filter (\<lambda>(k, v). list_ex (\<lambda>s. eq_ignore_ascii_case s k) signed_set) hs));
          canonical_headers = concat (map (\<lambda>(k, v). k @ '':'' @ v @ ''\<newline>'') hpairs);
          signed_headers_str = join '';'' (sort (filter (\<lambda>s. s \<noteq> []) (map to_ascii_lowercase signed_set)))
      in meth @ ''\<newline>'' @ path @ ''\<newline>'' @ canonical_query @ ''\<newline>'' @ canonical_headers @ ''\<newline>'' @
         signed_headers_str @ ''\<newline>'' @ payload_hash)"

definition truncate_sig :: "str \<Rightarrow> str" where
  "truncate_sig s = (let n = min (length s) 8 in take n s @ (if length s > n then ''...'' else []))"

definition sigv4_mismatch_diagnostic ::
  "(str \<Rightarrow> str) \<Rightarrow> str \<Rightarrow> str \<Rightarrow> (str \<times> str) list \<Rightarrow> str \<Rightarrow> 'a sigv4_auth_scheme \<Rightarrow> str \<Rightarrow> (str \<times> str) list \<Rightarrow> str" where
  "sigv4_mismatch_diagnostic dbg meth pq hs signed_headers auth payload_hash tried =
     ''method='' @ meth @ '' path_and_query='' @ dbg pq @ '' signed_headers='' @ dbg signed_headers @
     '' scope_date='' @ dbg (sa_scope_date auth) @ '' region='' @ dbg (sa_region auth) @
     '' service='' @ dbg (sa_service auth) @ '' access_key='' @ dbg (sa_access_key auth) @ '' headers=['' @
     join '', '' (map (\<lambda>(k, v). k @ ''='' @ dbg v) hs) @ ''] client_sig='' @ truncate_sig (sa_signature auth) @
     '' tried=['' @ join '', '' (map (\<lambda>(h, s). ''host='' @ dbg h @ ''->'' @ truncate_sig s) tried) @ '']'' @
     '' canonical_request='' @ dbg (build_canonical_request meth pq hs signed_headers payload_hash)"

section \<open>Verification\<close>

text \<open>The map of lower-cased names to trimmed values: a later header replaces an earlier one.\<close>

fun build_header_map :: "(str \<Rightarrow> bool) \<Rightarrow> headers \<Rightarrow> (str \<rightharpoonup> str) \<Rightarrow> (str \<rightharpoonup> str) result" where
  "build_header_map skip [] m = Inr m"
| "build_header_map skip ((name, v) # rest) m =
     (let n = to_ascii_lowercase name in
      if skip n then build_header_map skip rest m
      else (case v of
          None \<Rightarrow> Inl (Err (''non-utf8 header value for '' @ n))
        | Some s \<Rightarrow> build_header_map skip rest (m(n \<mapsto> trim s))))"

fun select_signed :: "(str \<rightharpoonup> str) \<Rightarrow> str list \<Rightarrow> ((str \<times> str) list) result" where
  "select_signed m [] = Inr []"
| "select_signed m (name # rest) =
     (let h = to_ascii_lowercase (trim name) in
      if h = [] then select_signed m rest
      else (case m h of
          None \<Rightarrow> Inl (Err (''signed header '' @ [CHR 0x27] @ h @ [CHR 0x27] @ '' missing in request''))
        | Some v \<Rightarrow> rbind (select_signed m rest) (\<lambda>st. Inr ((h, v) # st))))"

text \<open>
  The nested loop over the variants, paths outside: \<open>Inr None\<close> when a signature matched,
  otherwise the hosts and signatures tried.
\<close>

fun try_variants ::
  "signer \<Rightarrow> sign_input \<Rightarrow> str \<Rightarrow> (str \<times> str option) list \<Rightarrow> (str \<times> str) list \<Rightarrow> (str \<times> str) list option result" where
  "try_variants sign inp sig [] tried = Inr (Some tried)"
| "try_variants sign inp sig ((path, host) # rest) tried =
     (let attempt = attempt_headers (si_headers inp) host;
          attempted_host = unwrap_or (find_host attempt) []
      in case sign (inp\<lparr>si_path := path, si_headers := attempt\<rparr>) of
           Inl e \<Rightarrow> Inl (Err e)
         | Inr our_sig \<Rightarrow>
             if our_sig = sig then Inr None
             else try_variants sign inp sig rest (tried @ [(attempted_host, our_sig)]))"

definition variants :: "str \<Rightarrow> (str \<times> str) list \<Rightarrow> (str \<times> str option) list" where
  "variants pq storage = List.product (path_variants_for_sigv4 pq) (host_header_variants storage)"

definition skew_of :: "system_time \<Rightarrow> system_time \<Rightarrow> int" where
  "skew_of now signing_time = \<bar>now - signing_time\<bar>"

definition verify_sigv4_header_only ::
  "signer \<Rightarrow> (str \<Rightarrow> str + (str \<times> int)) \<Rightarrow> (str \<Rightarrow> str) \<Rightarrow> system_time \<Rightarrow> str \<Rightarrow> uri \<Rightarrow> headers \<Rightarrow>
   sigv4_auth \<Rightarrow> str \<Rightarrow> int option \<Rightarrow> unit result" where
  "verify_sigv4_header_only sign parse_date dbg now meth u hs auth secret_key max_skew =
     rbind (ok_or (hdr_get hs ''x-amz-date'') (Err ''missing x-amz-date'')) (\<lambda>d.
     rbind (ok_or d (Err ''bad x-amz-date'')) (\<lambda>x_amz_date.
     rbind (parse_amz_date parse_date (trim x_amz_date)) (\<lambda>(date_str, signing_time).
     if date_str \<noteq> sa_scope_date auth
     then Inl (Err (''date mismatch: scope='' @ sa_scope_date auth @ '' x-amz-date='' @ date_str))
     else if (case max_skew of Some mx \<Rightarrow> skew_of now signing_time > mx | None \<Rightarrow> False)
     then Inl (Err (''request time skewed: |now - x-amz-date| = '' @
       show_nat (nat (skew_of now signing_time div nanos)) @ ''s exceeds max '' @
       show_nat (nat (the max_skew div nanos)) @ ''s''))
     else
       rbind (ok_or (hdr_get hs ''x-amz-content-sha256'') (Err ''missing x-amz-content-sha256'')) (\<lambda>c.
       rbind (ok_or c (Err ''bad x-amz-content-sha256'')) (\<lambda>sha.
       (let payload_hash = trim sha;
            body = (if payload_hash = ''UNSIGNED-PAYLOAD'' then UnsignedPayload else Precomputed payload_hash);
            pq = path_and_query u in
        rbind (build_header_map (\<lambda>n. n = ''authorization'') hs Map.empty) (\<lambda>header_map.
        rbind (select_signed header_map (split_on CHR '';'' (sa_signed_headers auth))) (\<lambda>storage.
        rbind (try_variants sign
            \<lparr>si_access_key = sa_access_key auth, si_secret_key = secret_key, si_token = None,
             si_region = sa_region auth, si_service = sa_service auth, si_time = signing_time,
             si_expires = None, si_method = meth, si_path = pq, si_headers = storage, si_body = body\<rparr>
            (sa_signature auth) (variants pq storage) []) (\<lambda>tried.
        case tried of
          None \<Rightarrow> Inr ()
        | Some ts \<Rightarrow> Inl (Err (''signature mismatch ('' @
            sigv4_mismatch_diagnostic dbg meth pq storage (sa_signed_headers auth) auth payload_hash ts @
            '')''))))))))))) "

definition is_presign_param :: "str \<Rightarrow> bool" where
  "is_presign_param k \<longleftrightarrow>
     k \<in> {''x-amz-algorithm'', ''x-amz-credential'', ''x-amz-date'', ''x-amz-expires'',
          ''x-amz-signedheaders'', ''x-amz-signature'', ''x-amz-security-token''}"

text \<open>The key of a raw query segment, decoded for the comparison only.\<close>

definition decoded_key :: "(str \<Rightarrow> (str \<times> str) list) \<Rightarrow> str \<Rightarrow> str" where
  "decoded_key form_parse seg =
     (let key_raw = (case split_once CHR ''='' seg of Some (k, _) \<Rightarrow> k | None \<Rightarrow> seg) in
      case form_parse (key_raw @ ''='') of (k, _) # _ \<Rightarrow> k | [] \<Rightarrow> key_raw)"

definition filtered_query :: "(str \<Rightarrow> (str \<times> str) list) \<Rightarrow> uri \<Rightarrow> str" where
  "filtered_query form_parse u =
     (let q = unwrap_or (uri_query u) [] in
      if q = [] then []
      else join ''&'' (filter (\<lambda>seg. seg \<noteq> [] \<and>
        \<not> is_presign_param (to_ascii_lowercase (trim (decoded_key form_parse seg)))) (split_on CHR ''&'' q)))"

definition unsigned_uri :: "(str \<Rightarrow> (str \<times> str) list) \<Rightarrow> uri \<Rightarrow> str" where
  "unsigned_uri form_parse u =
     (let fq = filtered_query form_parse u in if fq = [] then uri_path u else uri_path u @ ''?'' @ fq)"

definition verify_sigv4_presigned_url ::
  "signer \<Rightarrow> (str \<Rightarrow> str + (str \<times> int)) \<Rightarrow> (str \<Rightarrow> (str \<times> str) list) \<Rightarrow> (str \<Rightarrow> str) \<Rightarrow> system_time \<Rightarrow>
   str \<Rightarrow> uri \<Rightarrow> headers \<Rightarrow> presigned_sigv4_auth \<Rightarrow> str \<Rightarrow> unit result" where
  "verify_sigv4_presigned_url sign parse_date form_parse dbg now meth u hs auth secret_key =
     rbind (parse_amz_date parse_date (trim (pa_amz_date auth))) (\<lambda>(date_str, signing_time).
     if date_str \<noteq> sa_scope_date auth
     then Inl (Err (''date mismatch: scope='' @ sa_scope_date auth @ '' x-amz-date='' @ date_str))
     else if pa_expires auth = 0 then Inl (Err ''X-Amz-Expires must be > 0'')
     else if pa_expires auth > PRESIGN_MAX_EXPIRES
     then Inl (Err (''X-Amz-Expires='' @ show_nat (unat (pa_expires auth)) @ '' exceeds maximum '' @
       show_nat (unat PRESIGN_MAX_EXPIRES) @ '' seconds''))
     else if now > signing_time + int (unat (pa_expires auth)) * nanos
     then Inl (Err ''presigned URL expired'')
     else (let pq = unsigned_uri form_parse u in
       rbind (build_header_map (\<lambda>n. False) hs Map.empty) (\<lambda>header_map.
       rbind (select_signed header_map (split_on CHR '';'' (sa_signed_headers auth))) (\<lambda>storage.
       rbind (try_variants sign
           \<lparr>si_access_key = sa_access_key auth, si_secret_key = secret_key, si_token = pa_security_token auth,
            si_region = sa_region auth, si_service = sa_service auth, si_time = signing_time,
            si_expires = Some (pa_expires auth), si_method = meth, si_path = pq, si_headers = storage,
            si_body = UnsignedPayload\<rparr>
           (sa_signature auth) (variants pq storage) []) (\<lambda>tried.
       case tried of
         None \<Rightarrow> Inr ()
       | Some ts \<Rightarrow> Inl (Err (''signature mismatch ('' @
           sigv4_mismatch_diagnostic dbg meth pq storage (sa_signed_headers auth) auth ''UNSIGNED-PAYLOAD'' ts @
           '')''))))))) "

definition rerr_text :: "rerr \<Rightarrow> str" where
  "rerr_text e = (case e of Err s \<Rightarrow> s | Panic s \<Rightarrow> s)"

definition reject :: "reject_kind \<Rightarrow> str \<Rightarrow> str option \<Rightarrow> str \<Rightarrow> sigv4_rejection + unit" where
  "reject kind msg resource reason =
     Inl \<lparr>rj_kind = kind, rj_message = msg, rj_resource = resource, rj_reason = reason\<rparr>"

definition CLIENT_MSG_BAD_SIG :: str where
  "CLIENT_MSG_BAD_SIG = ''the request signature we calculated does not match the signature you provided''"

definition CLIENT_MSG_SKEWED :: str where
  "CLIENT_MSG_SKEWED = ''request time differs from server time by more than the allowed margin''"

text \<open>The checks before the signature is computed, the same for both forms.\<close>

definition gate ::
  "str \<Rightarrow> str option \<Rightarrow> str option \<Rightarrow> 'a sigv4_auth_scheme \<Rightarrow> sigv4_rejection + unit" where
  "gate malformed expected resource auth =
     (case validate_sigv4_format (sa_signature auth) (sa_scope_date auth) of
        Inl e \<Rightarrow> reject SignatureDoesNotMatch CLIENT_MSG_BAD_SIG resource (malformed @ rerr_text e)
      | Inr _ \<Rightarrow>
          (case expected of
             Some ak \<Rightarrow> if sa_access_key auth \<noteq> ak
               then reject AccessDenied ''access denied'' resource ''unknown access key'' else Inr ()
           | None \<Rightarrow> Inr ()))"

definition verify_sigv4_request_any ::
  "signer \<Rightarrow> (str \<Rightarrow> str + (str \<times> int)) \<Rightarrow> (str \<Rightarrow> (str \<times> str) list) \<Rightarrow> (str \<Rightarrow> str) \<Rightarrow> system_time \<Rightarrow>
   str \<Rightarrow> uri \<Rightarrow> headers \<Rightarrow> str option \<Rightarrow> str \<Rightarrow> str option \<Rightarrow> sigv4_rejection + unit" where
  "verify_sigv4_request_any sign parse_date form_parse dbg now meth u hs expected secret_key resource =
     (if hdr_contains hs ''authorization'' then
        (case parse_authorization hs of
           Inl e \<Rightarrow> reject AccessDenied ''invalid Authorization'' resource (''bad Authorization: '' @ rerr_text e)
         | Inr auth \<Rightarrow>
             rbind (gate ''malformed sigv4 (pre-HMAC): '' expected resource auth) (\<lambda>_.
             (case verify_sigv4_header_only sign parse_date dbg now meth u hs auth secret_key
                     (Some HEADER_SIGV4_MAX_SKEW) of
                Inr _ \<Rightarrow> Inr ()
              | Inl e \<Rightarrow>
                  (let reason = rerr_text e in
                   if contains_str ''request time skewed'' reason
                   then reject RequestTimeTooSkewed CLIENT_MSG_SKEWED resource reason
                   else reject SignatureDoesNotMatch CLIENT_MSG_BAD_SIG resource reason))))
      else
        (case parse_presigned_query form_parse dbg u of
           Inl e \<Rightarrow> reject AccessDenied ''invalid Authorization'' resource (''bad presign params: '' @ rerr_text e)
         | Inr None \<Rightarrow> reject AccessDenied ''request is missing authentication information'' resource
             ''missing Authorization and missing presign params''
         | Inr (Some auth) \<Rightarrow>
             rbind (gate ''malformed sigv4 presign (pre-HMAC): '' expected resource auth) (\<lambda>_.
             (case verify_sigv4_presigned_url sign parse_date form_parse dbg now meth u hs auth secret_key of
                Inr _ \<Rightarrow> Inr ()
              | Inl e \<Rightarrow>
                  (let reason = rerr_text e in
                   if contains_str ''expired'' reason
                   then reject AccessDenied ''Request has expired'' resource reason
                   else reject SignatureDoesNotMatch CLIENT_MSG_BAD_SIG resource reason)))))"

section \<open>The variants\<close>

lemma try_variants_match:
  "try_variants sign inp sig vs tried = Inr None \<Longrightarrow>
   \<exists>p h. (p, h) \<in> set vs \<and> sign (inp\<lparr>si_path := p, si_headers := attempt_headers (si_headers inp) h\<rparr>) = Inr sig"
  by (induction vs arbitrary: tried) (fastforce simp: Let_def split: sum.splits if_splits)+

lemma length_variants: "length (variants pq storage) \<le> 6"
proof -
  have "length (path_variants_for_sigv4 pq) \<le> 2" "length (host_header_variants storage) \<le> 3"
    by (auto simp: path_variants_for_sigv4_def host_header_variants_def Let_def split: prod.splits option.splits)
  then have "length (path_variants_for_sigv4 pq) * length (host_header_variants storage) \<le> 2 * 3"
    by (rule mult_le_mono)
  then show ?thesis
    by (simp add: variants_def)
qed

lemma variants_first: "\<exists>rest. variants pq storage = (pq, None) # rest"
proof -
  have "\<exists>ps. path_variants_for_sigv4 pq = pq # ps" "\<exists>hs. host_header_variants storage = None # hs"
    by (auto simp: path_variants_for_sigv4_def host_header_variants_def Let_def split: prod.splits option.splits)
  then show ?thesis
    by (auto simp: variants_def)
qed

text \<open>The path of a request target, without its query.\<close>

definition path_part :: "str \<Rightarrow> str" where
  "path_part pq = (case split_once CHR ''?'' pq of Some (p, _) \<Rightarrow> p | None \<Rightarrow> pq)"

definition query_part :: "str \<Rightarrow> str option" where
  "query_part pq = map_option snd (split_once CHR ''?'' pq)"

lemma question_mark_notin_canonical: "canonical_path s \<Longrightarrow> CHR ''?'' \<notin> set s"
  by (induction s rule: canonical_path.induct)
     (auto simp: is_unreserved_or_slash_def upper_hex_def ascii_defs split: if_splits)

lemma path_variants_same_resource:
  assumes "p \<in> set (path_variants_for_sigv4 pq)"
  shows "rfc_decode (path_part p) = rfc_decode (path_part pq) \<and> query_part p = query_part pq"
proof -
  have "split_once CHR ''?'' (canonicalize_uri_path_for_sigv4 s) = None" for s
    using canonical_canonicalize [of s] question_mark_notin_canonical by (simp add: split_once_None_iff)
  moreover have "split_once CHR ''?'' (canonicalize_uri_path_for_sigv4 s @ CHR ''?'' # q) =
      Some (canonicalize_uri_path_for_sigv4 s, q)" for s q
    using canonical_canonicalize [of s] question_mark_notin_canonical by simp
  ultimately show ?thesis
    using assms
    by (auto simp: path_variants_for_sigv4_def path_part_def query_part_def Let_def rfc_decode_canonicalize
        split: option.splits prod.splits if_splits)
qed

section \<open>Accepted requests\<close>

lemma require_host_signed_ok:
  "require_host_signed s = Inr () \<longleftrightarrow> (\<exists>h\<in>set (split_on CHR '';'' s). to_ascii_lowercase (trim h) = ''host'')"
proof -
  have "to_ascii_lowercase ''host'' = ''host''"
    by code_simp
  then show ?thesis
    by (auto simp: require_host_signed_def eq_ignore_ascii_case_def list_ex_iff)
qed

lemma parse_authorization_host: "parse_authorization hs = Inr auth \<Longrightarrow> require_host_signed (sa_signed_headers auth) = Inr ()"
  by (auto simp: parse_authorization_def rbind_Inr_iff Let_def split: prod.splits if_splits)

lemma parse_presigned_query_host:
  "parse_presigned_query form_parse dbg u = Inr (Some auth) \<Longrightarrow> require_host_signed (sa_signed_headers auth) = Inr ()"
  by (auto simp: parse_presigned_query_def rbind_Inr_iff Let_def split: option.splits prod.splits if_splits)

lemma validate_sigv4_format_ok:
  "validate_sigv4_format sig d = Inr () \<longleftrightarrow>
   length sig = 64 \<and> list_all is_ascii_hexdigit sig \<and> length d = 8 \<and> list_all is_ascii_digit d"
  by (simp add: validate_sigv4_format_def)

lemma gate_ok:
  "gate malformed expected resource auth = Inr () \<longleftrightarrow>
   validate_sigv4_format (sa_signature auth) (sa_scope_date auth) = Inr () \<and>
   (\<forall>ak. expected = Some ak \<longrightarrow> sa_access_key auth = ak)"
  by (auto simp: gate_def reject_def split: sum.splits option.splits)

lemma select_signed_covers:
  "select_signed m names = Inr storage \<Longrightarrow> n \<in> set names \<Longrightarrow> to_ascii_lowercase (trim n) \<noteq> [] \<Longrightarrow>
   \<exists>v. m (to_ascii_lowercase (trim n)) = Some v \<and> (to_ascii_lowercase (trim n), v) \<in> set storage"
  by (induction names arbitrary: storage) (auto simp: Let_def rbind_Inr_iff split: if_splits option.splits)

lemma header_only_ok:
  assumes "verify_sigv4_header_only sign parse_date dbg now meth u hs auth secret mx = Inr ()"
  shows "\<exists>x date t sha m storage p h. hdr_get hs ''x-amz-date'' = Some (Some x) \<and>
    parse_amz_date parse_date (trim x) = Inr (date, t) \<and> date = sa_scope_date auth \<and>
    (\<forall>d. mx = Some d \<longrightarrow> skew_of now t \<le> d) \<and> hdr_get hs ''x-amz-content-sha256'' = Some (Some sha) \<and>
    build_header_map (\<lambda>n. n = ''authorization'') hs Map.empty = Inr m \<and>
    select_signed m (split_on CHR '';'' (sa_signed_headers auth)) = Inr storage \<and>
    (p, h) \<in> set (variants (path_and_query u) storage) \<and>
    sign \<lparr>si_access_key = sa_access_key auth, si_secret_key = secret, si_token = None, si_region = sa_region auth,
       si_service = sa_service auth, si_time = t, si_expires = None, si_method = meth, si_path = p,
       si_headers = attempt_headers storage h,
       si_body = (if trim sha = ''UNSIGNED-PAYLOAD'' then UnsignedPayload else Precomputed (trim sha))\<rparr> =
      Inr (sa_signature auth)"
  using assms
  by (auto simp: verify_sigv4_header_only_def rbind_Inr_iff Let_def not_less
      dest!: try_variants_match split: prod.splits if_splits option.splits) fastforce+

lemma presigned_ok:
  assumes "verify_sigv4_presigned_url sign parse_date form_parse dbg now meth u hs auth secret = Inr ()"
  shows "\<exists>date t m storage p h. parse_amz_date parse_date (trim (pa_amz_date auth)) = Inr (date, t) \<and>
    date = sa_scope_date auth \<and> 0 < pa_expires auth \<and> pa_expires auth \<le> PRESIGN_MAX_EXPIRES \<and>
    now \<le> t + int (unat (pa_expires auth)) * nanos \<and>
    build_header_map (\<lambda>n. False) hs Map.empty = Inr m \<and>
    select_signed m (split_on CHR '';'' (sa_signed_headers auth)) = Inr storage \<and>
    (p, h) \<in> set (variants (unsigned_uri form_parse u) storage) \<and>
    sign \<lparr>si_access_key = sa_access_key auth, si_secret_key = secret, si_token = pa_security_token auth,
       si_region = sa_region auth, si_service = sa_service auth, si_time = t,
       si_expires = Some (pa_expires auth), si_method = meth, si_path = p,
       si_headers = attempt_headers storage h, si_body = UnsignedPayload\<rparr> = Inr (sa_signature auth)"
  using assms
  by (auto simp: verify_sigv4_presigned_url_def rbind_Inr_iff Let_def not_less word_neq_0_conv
      dest!: try_variants_match split: prod.splits if_splits option.splits) fastforce+

section \<open>An example of each form\<close>

text \<open>A request with a signature of sixty-four digits, signed in a header or in its query.\<close>

definition example_sig :: str where "example_sig = replicate 64 CHR ''a''"

definition example_headers :: headers where
  "example_headers = [(''authorization'', Some (''AWS4-HMAC-SHA256 Credential=AK/20240101/eu/s3/aws4_request,SignedHeaders=host,Signature='' @ example_sig)),
   (''host'', Some ''h''), (''x-amz-date'', Some ''d''), (''x-amz-content-sha256'', Some ''UNSIGNED-PAYLOAD'')]"

definition example_uri :: uri where "example_uri = \<lparr>uri_path = ''/b/k'', uri_query = None, uri_authority = None\<rparr>"

lemma example_sig_facts: "set example_sig = {CHR ''a''}" "example_sig \<noteq> []" "last example_sig = CHR ''a''" "hd example_sig = CHR ''a''" "length example_sig = 64"
  by (simp_all add: example_sig_def)

lemma example_sig_split: "split_on CHR '','' example_sig = [example_sig]"
  by (rule split_on_unique) (simp add: example_sig_facts)

lemma example_sig_trim: "trim example_sig = example_sig" "trim (''Signature='' @ example_sig) = ''Signature='' @ example_sig"
  by (rule trim_id; simp add: example_sig_facts ws_first_def ws_last_def)+

lemma example_authorization: "parse_authorization example_headers = Inr \<lparr>sa_access_key = ''AK'', sa_scope_date = ''20240101'', sa_region = ''eu'',
   sa_service = ''s3'', sa_signed_headers = ''host'', sa_signature = example_sig\<rparr>"
proof -
  have t: "trim ''AWS4-HMAC-SHA256'' = ''AWS4-HMAC-SHA256''" "trim ''Credential=AK/20240101/eu/s3/aws4_request'' = ''Credential=AK/20240101/eu/s3/aws4_request''"
    "trim ''Credential'' = ''Credential''" "trim ''AK/20240101/eu/s3/aws4_request'' = ''AK/20240101/eu/s3/aws4_request''"
    "trim ''SignedHeaders=host'' = ''SignedHeaders=host''" "trim ''SignedHeaders'' = ''SignedHeaders''" "trim ''host'' = ''host''"
    "trim ''Signature'' = ''Signature''"
    by (rule trim_id; simp add: ws_first_def ws_last_def)+
  have h: "require_host_signed ''host'' = Inr ()" using t by (simp add: require_host_signed_def eq_ignore_ascii_case_def)
  show ?thesis
    using example_sig_trim by (simp add: parse_authorization_def example_headers_def hdr_simps t h example_sig_split parse_credential_def)
qed


lemma example_header_any:
  assumes "expected = None \<or> expected = Some ''AK''"
  shows "verify_sigv4_request_any (\<lambda>_. Inr example_sig) (\<lambda>_. Inr (''20240101'', 1704067200)) form_parse (\<lambda>s. s)
   (1704067200 * nanos) meth u example_headers expected secret resource = Inr ()"
proof -
  have t: "trim ''d'' = ''d''" "trim ''UNSIGNED-PAYLOAD'' = ''UNSIGNED-PAYLOAD''" "trim ''h'' = ''h''" "trim ''host'' = ''host''"
    by (rule trim_id; simp add: ws_first_def ws_last_def)+
  have l: "to_ascii_lowercase ''host'' = ''host''" "to_ascii_lowercase ''authorization'' = ''authorization''"
    "to_ascii_lowercase ''x-amz-date'' = ''x-amz-date''" "to_ascii_lowercase ''x-amz-content-sha256'' = ''x-amz-content-sha256''"
    by code_simp+
  have f: "validate_sigv4_format example_sig ''20240101'' = Inr ()"
    by (simp add: validate_sigv4_format_def example_sig_facts list_all_iff is_ascii_hexdigit_def is_ascii_digit_def)
  obtain r where v: "variants (path_and_query u) [(''host'', ''h'')] = (path_and_query u, None) # r"
    using variants_first by blast
  have g: "hdr_get example_headers ''x-amz-date'' = Some (Some ''d'')" "hdr_contains example_headers ''authorization''"
    "hdr_get example_headers ''x-amz-content-sha256'' = Some (Some ''UNSIGNED-PAYLOAD'')"
    by (simp_all add: example_headers_def hdr_simps)
  have m: "build_header_map (\<lambda>n. n = ''authorization'') example_headers Map.empty =
     Inr [''host'' \<mapsto> ''h'', ''x-amz-date'' \<mapsto> ''d'', ''x-amz-content-sha256'' \<mapsto> ''UNSIGNED-PAYLOAD'']"
    by (simp add: example_headers_def t l)
  show ?thesis
    using assms by (auto simp add: verify_sigv4_request_any_def example_authorization gate_def f verify_sigv4_header_only_def g m
      parse_amz_date_def t l v skew_of_def offset_to_system_time_def HEADER_SIGV4_MAX_SKEW_def nanos_def
      attempt_headers_def Let_def)
qed

lemmas example_header_ok = example_header_any [of "Some ''AK''" "\<lambda>_. []" "''GET''" example_uri "''secret''" None, simplified]

definition example_pairs :: "(str \<times> str) list" where
  "example_pairs = [(''X-Amz-Algorithm'', ''AWS4-HMAC-SHA256''), (''X-Amz-Credential'', ''AK/20240101/eu/s3/aws4_request''),
     (''X-Amz-Date'', ''d''), (''X-Amz-Expires'', ''60''), (''X-Amz-SignedHeaders'', ''host''), (''X-Amz-Signature'', example_sig)]"

definition example_presigned_uri :: uri where "example_presigned_uri = \<lparr>uri_path = ''/b/k'', uri_query = Some ''q'', uri_authority = None\<rparr>"

definition example_auth :: presigned_sigv4_auth where
 "example_auth = \<lparr>sa_access_key = ''AK'', sa_scope_date = ''20240101'', sa_region = ''eu'',
   sa_service = ''s3'', sa_signed_headers = ''host'', sa_signature = example_sig, pa_amz_date = ''d'', pa_expires = 60, pa_security_token = None\<rparr>"

lemma example_presigned: "parse_presigned_query (\<lambda>_. example_pairs) (\<lambda>s. s) example_presigned_uri = Inr (Some example_auth)"
proof -
  have t: "trim ''X-Amz-Algorithm'' = ''X-Amz-Algorithm''" "trim ''X-Amz-Credential'' = ''X-Amz-Credential''"
   "trim ''X-Amz-Date'' = ''X-Amz-Date''" "trim ''X-Amz-Expires'' = ''X-Amz-Expires''" "trim ''X-Amz-SignedHeaders'' = ''X-Amz-SignedHeaders''"
   "trim ''X-Amz-Signature'' = ''X-Amz-Signature''" "trim ''AWS4-HMAC-SHA256'' = ''AWS4-HMAC-SHA256''" "trim ''60'' = ''60''"
   "trim ''host'' = ''host''"
    by (rule trim_id; simp add: ws_first_def ws_last_def)+
  have l: "to_ascii_lowercase ''X-Amz-Algorithm'' = ''x-amz-algorithm''" "to_ascii_lowercase ''X-Amz-Credential'' = ''x-amz-credential''"
   "to_ascii_lowercase ''X-Amz-Date'' = ''x-amz-date''" "to_ascii_lowercase ''X-Amz-Expires'' = ''x-amz-expires''"
   "to_ascii_lowercase ''X-Amz-SignedHeaders'' = ''x-amz-signedheaders''" "to_ascii_lowercase ''X-Amz-Signature'' = ''x-amz-signature''"
    by code_simp+
  have h: "require_host_signed ''host'' = Inr ()" using t by (simp add: require_host_signed_def eq_ignore_ascii_case_def)
  have n: "parse_u64_std ''60'' = Some 60" by (simp add: parse_u64_std_def from_str_radix_def digit_of_def is_ascii_digit_def)
  show ?thesis
    by (simp add: parse_presigned_query_def example_presigned_uri_def example_pairs_def example_auth_def t l h n parse_credential_def)
qed

lemma example_presigned_ok: "verify_sigv4_request_any (\<lambda>_. Inr example_sig) (\<lambda>_. Inr (''20240101'', 1704067200)) (\<lambda>_. example_pairs) (\<lambda>s. s)
   (1704067200 * nanos) ''GET'' example_presigned_uri [(''host'', Some ''h'')] (Some ''AK'') ''secret'' None = Inr ()"
proof -
  have t: "trim ''d'' = ''d''" "trim ''h'' = ''h''" "trim ''host'' = ''host''" "trim ''X-Amz-Algorithm'' = ''X-Amz-Algorithm''"
    by (rule trim_id; simp add: ws_first_def ws_last_def)+
  have l: "to_ascii_lowercase ''host'' = ''host''" "to_ascii_lowercase ''X-Amz-Algorithm'' = ''x-amz-algorithm''"
    by code_simp+
  have f: "validate_sigv4_format example_sig ''20240101'' = Inr ()"
    by (simp add: validate_sigv4_format_def example_sig_facts list_all_iff is_ascii_hexdigit_def is_ascii_digit_def)
  obtain r where v: "variants ''/b/k'' [(''host'', ''h'')] = (''/b/k'', None) # r"
    using variants_first by blast
  have pq: "unsigned_uri (\<lambda>_. example_pairs) example_presigned_uri = ''/b/k''"
    by (simp add: unsigned_uri_def filtered_query_def example_presigned_uri_def decoded_key_def example_pairs_def t l
       is_presign_param_def unwrap_or_def)
  show ?thesis
    by (simp add: verify_sigv4_request_any_def example_presigned gate_def f verify_sigv4_presigned_url_def hdr_simps pq
      parse_amz_date_def t l v offset_to_system_time_def nanos_def example_auth_def PRESIGN_MAX_EXPIRES_def
      attempt_headers_def Let_def)
qed

section \<open>What verification establishes\<close>

text \<open>
  C3. A header-signed request is accepted only when the holder of the secret signed it. Acceptance
  means: the \<open>Authorization\<close> header parses; its access key is the expected one; the time in
  \<open>x-amz-date\<close> is within fifteen minutes of the clock and agrees with the credential scope; every
  listed header, \<open>host\<close> among them, is in the request and among the signed ones; and the
  signature is the signer's for this method and these headers, for the request's target or its
  canonical form, which names the same resource and has the same query, with the host as sent or
  with a default port added or dropped. At most six signatures are computed.
\<close>
theorem header_signature_sound:
  assumes "verify_sigv4_request_any sign parse_date form_parse dbg now meth u hs (Some ak) secret resource = Inr ()"
    and "hdr_contains hs ''authorization''"
  shows "\<exists>auth x t sha m storage p h. parse_authorization hs = Inr auth \<and> sa_access_key auth = ak \<and>
    hdr_get hs ''x-amz-date'' = Some (Some x) \<and> parse_amz_date parse_date (trim x) = Inr (sa_scope_date auth, t) \<and>
    \<bar>now - t\<bar> \<le> HEADER_SIGV4_MAX_SKEW \<and>
    build_header_map (\<lambda>n. n = ''authorization'') hs Map.empty = Inr m \<and>
    (\<forall>n\<in>set (split_on CHR '';'' (sa_signed_headers auth)). to_ascii_lowercase (trim n) \<noteq> [] \<longrightarrow>
       (\<exists>v. m (to_ascii_lowercase (trim n)) = Some v \<and> (to_ascii_lowercase (trim n), v) \<in> set storage)) \<and>
    (\<exists>n\<in>set (split_on CHR '';'' (sa_signed_headers auth)). to_ascii_lowercase (trim n) = ''host'') \<and>
    rfc_decode (path_part p) = rfc_decode (path_part (path_and_query u)) \<and>
    query_part p = query_part (path_and_query u) \<and> h \<in> set (host_header_variants storage) \<and>
    hdr_get hs ''x-amz-content-sha256'' = Some (Some sha) \<and>
    sign \<lparr>si_access_key = ak, si_secret_key = secret, si_token = None, si_region = sa_region auth,
       si_service = sa_service auth, si_time = t, si_expires = None, si_method = meth, si_path = p,
       si_headers = attempt_headers storage h,
       si_body = (if trim sha = ''UNSIGNED-PAYLOAD'' then UnsignedPayload else Precomputed (trim sha))\<rparr> =
      Inr (sa_signature auth) \<and>
    length (variants (path_and_query u) storage) \<le> 6"
proof -
  from assms obtain auth where auth: "parse_authorization hs = Inr auth" "sa_access_key auth = ak"
    and ok: "verify_sigv4_header_only sign parse_date dbg now meth u hs auth secret (Some HEADER_SIGV4_MAX_SKEW) = Inr ()"
    by (auto simp: verify_sigv4_request_any_def reject_def rbind_Inr_iff gate_ok Let_def split: sum.splits if_splits)
  from header_only_ok [OF ok] obtain x date t sha m storage p h where
    x: "hdr_get hs ''x-amz-date'' = Some (Some x)" "parse_amz_date parse_date (trim x) = Inr (date, t)"
      "date = sa_scope_date auth" "skew_of now t \<le> HEADER_SIGV4_MAX_SKEW"
    and sha: "hdr_get hs ''x-amz-content-sha256'' = Some (Some sha)"
    and m: "build_header_map (\<lambda>n. n = ''authorization'') hs Map.empty = Inr m"
    and st: "select_signed m (split_on CHR '';'' (sa_signed_headers auth)) = Inr storage"
    and v: "(p, h) \<in> set (variants (path_and_query u) storage)"
    and s: "sign \<lparr>si_access_key = sa_access_key auth, si_secret_key = secret, si_token = None,
       si_region = sa_region auth, si_service = sa_service auth, si_time = t, si_expires = None, si_method = meth,
       si_path = p, si_headers = attempt_headers storage h,
       si_body = (if trim sha = ''UNSIGNED-PAYLOAD'' then UnsignedPayload else Precomputed (trim sha))\<rparr> =
      Inr (sa_signature auth)"
    by blast
  have "p \<in> set (path_variants_for_sigv4 (path_and_query u))" "h \<in> set (host_header_variants storage)"
    using v by (auto simp: variants_def)
  with path_variants_same_resource [OF this(1)] show ?thesis
    using auth x sha m s select_signed_covers [OF st] length_variants
      parse_authorization_host [OF auth(1), unfolded require_host_signed_ok]
    by (intro exI [of _ auth] exI [of _ x] exI [of _ t] exI [of _ sha] exI [of _ m] exI [of _ storage]
        exI [of _ p] exI [of _ h]) (simp add: skew_of_def)
qed

theorem header_signature_sound_witness:
  "\<exists>auth t. parse_authorization example_headers = Inr auth \<and> sa_access_key auth = ''AK'' \<and>
     \<bar>1704067200 * nanos - t\<bar> \<le> HEADER_SIGV4_MAX_SKEW"
proof -
  have "hdr_contains example_headers ''authorization''"
    by (simp add: example_headers_def hdr_simps)
  from header_signature_sound [OF example_header_ok this] show ?thesis
    by blast
qed

text \<open>
  C4. A presigned request is accepted only when the holder of the secret signed it: the query
  parses, the access key is the expected one, the lifetime is between one second and seven days,
  it is not over, the date agrees with the credential scope, \<open>host\<close> is signed, and the
  signature is the signer's for this method, lifetime and session token, and for the request's
  target without the signature parameters, or its canonical form.
\<close>
theorem presigned_signature_sound:
  assumes "verify_sigv4_request_any sign parse_date form_parse dbg now meth u hs (Some ak) secret resource = Inr ()"
    and "\<not> hdr_contains hs ''authorization''"
  shows "\<exists>auth t m storage p h. parse_presigned_query form_parse dbg u = Inr (Some auth) \<and> sa_access_key auth = ak \<and>
    parse_amz_date parse_date (trim (pa_amz_date auth)) = Inr (sa_scope_date auth, t) \<and>
    0 < pa_expires auth \<and> unat (pa_expires auth) \<le> 7 * 24 * 60 * 60 \<and>
    now \<le> t + int (unat (pa_expires auth)) * nanos \<and>
    build_header_map (\<lambda>n. False) hs Map.empty = Inr m \<and>
    select_signed m (split_on CHR '';'' (sa_signed_headers auth)) = Inr storage \<and>
    (\<exists>n\<in>set (split_on CHR '';'' (sa_signed_headers auth)). to_ascii_lowercase (trim n) = ''host'') \<and>
    rfc_decode (path_part p) = rfc_decode (path_part (unsigned_uri form_parse u)) \<and>
    query_part p = query_part (unsigned_uri form_parse u) \<and> h \<in> set (host_header_variants storage) \<and>
    sign \<lparr>si_access_key = ak, si_secret_key = secret, si_token = pa_security_token auth,
       si_region = sa_region auth, si_service = sa_service auth, si_time = t,
       si_expires = Some (pa_expires auth), si_method = meth, si_path = p,
       si_headers = attempt_headers storage h, si_body = UnsignedPayload\<rparr> = Inr (sa_signature auth)"
proof -
  from assms obtain auth where auth: "parse_presigned_query form_parse dbg u = Inr (Some auth)" "sa_access_key auth = ak"
    and ok: "verify_sigv4_presigned_url sign parse_date form_parse dbg now meth u hs auth secret = Inr ()"
    by (auto simp: verify_sigv4_request_any_def reject_def rbind_Inr_iff gate_ok Let_def
        split: sum.splits if_splits option.splits)
  have bound: "unat e \<le> 7 * 24 * 60 * 60" if "e \<le> PRESIGN_MAX_EXPIRES" for e
    using that by (simp add: PRESIGN_MAX_EXPIRES_def word_le_nat_alt)
  from presigned_ok [OF ok] auth bound parse_presigned_query_host [OF auth(1), unfolded require_host_signed_ok]
    path_variants_same_resource
  show ?thesis
    unfolding variants_def by (fastforce simp: set_product)
qed

theorem presigned_signature_sound_witness:
  "\<exists>auth t. parse_presigned_query (\<lambda>_. example_pairs) (\<lambda>s. s) example_presigned_uri = Inr (Some auth) \<and>
     sa_access_key auth = ''AK'' \<and> 1704067200 * nanos \<le> t + int (unat (pa_expires auth)) * nanos"
proof -
  have "\<not> hdr_contains [(''host'', Some ''h'')] ''authorization''"
    by (simp add: hdr_simps)
  from presigned_signature_sound [OF example_presigned_ok this] show ?thesis
    by blast
qed

section \<open>Limits of the verification\<close>

text \<open>
  A presigned URL has an end but no beginning: whenever it is accepted, it is also accepted at
  every earlier instant. A URL whose \<open>X-Amz-Date\<close> lies in the future is valid from now on until
  that date plus its lifetime, so the seven-day bound on \<open>X-Amz-Expires\<close> does not bound how long
  a URL is valid.
\<close>
theorem presigned_url_no_start:
  assumes "verify_sigv4_presigned_url sign parse_date form_parse dbg now meth u hs auth secret = Inr ()"
    and "now' \<le> now"
  shows "verify_sigv4_presigned_url sign parse_date form_parse dbg now' meth u hs auth secret = Inr ()"
proof -
  obtain date t where d: "parse_amz_date parse_date (trim (pa_amz_date auth)) = Inr (date, t)"
    using assms(1) by (auto simp: verify_sigv4_presigned_url_def rbind_Inr_iff)
  then have "now' \<le> t + int (unat (pa_expires auth)) * nanos"
    using assms by (auto simp: verify_sigv4_presigned_url_def not_less split: if_splits)
  with assms(1) show ?thesis
    by (auto simp: verify_sigv4_presigned_url_def d split: if_splits)
qed

lemma example_presigned_url_ok:
  "verify_sigv4_presigned_url (\<lambda>_. Inr example_sig) (\<lambda>_. Inr (''20240101'', 1704067200)) (\<lambda>_. example_pairs)
     (\<lambda>s. s) (1704067200 * nanos) ''GET'' example_presigned_uri [(''host'', Some ''h'')] example_auth ''secret'' = Inr ()"
  using example_presigned_ok
  by (auto simp: verify_sigv4_request_any_def hdr_simps example_presigned rbind_Inr_iff reject_def Let_def
      split: sum.splits if_splits)

theorem presigned_url_no_start_witness:
  "verify_sigv4_presigned_url (\<lambda>_. Inr example_sig) (\<lambda>_. Inr (''20240101'', 1704067200)) (\<lambda>_. example_pairs)
     (\<lambda>s. s) 0 ''GET'' example_presigned_uri [(''host'', Some ''h'')] example_auth ''secret'' = Inr ()"
  by (rule presigned_url_no_start [OF example_presigned_url_ok]) (simp add: nanos_def)

lemma build_header_map_shadowed:
  assumes "(n, Some w) \<in> set hs" "to_ascii_lowercase n = n" "\<not> skip n"
  shows "build_header_map skip hs (m(n \<mapsto> v)) = build_header_map skip hs m"
  using assms
proof (induction hs arbitrary: m)
  case (Cons p hs)
  obtain name x where p: "p = (name, x)"
    by fastforce
  have step: "build_header_map skip hs ((m(n \<mapsto> v))(k \<mapsto> y)) = build_header_map skip hs (m(k \<mapsto> y))"
    if "k = n \<or> (n, Some w) \<in> set hs" for k y
  proof (cases "k = n")
    case True
    then show ?thesis
      by (simp only: fun_upd_upd)
  next
    case False
    with that have "(n, Some w) \<in> set hs"
      by simp
    then show ?thesis
      unfolding fun_upd_twist [OF False [symmetric]] by (rule Cons.IH [OF _ Cons.prems(2,3)])
  qed
  show ?case
  proof (cases "skip (to_ascii_lowercase name)")
    case True
    then show ?thesis
      using Cons p by auto
  next
    case False
    have "to_ascii_lowercase name = n \<or> (n, Some w) \<in> set hs"
      using Cons.prems p by auto
    from step [OF this] show ?thesis
      by (cases x) (simp_all only: p build_header_map.simps Let_def False if_False option.case)
  qed
qed simp

text \<open>
  C19. A signed header can be shadowed: when a request carries a signed header, the same header with
  any other value put in front of it changes nothing in the verification, which keeps the last
  value; but a lookup of the header in the request returns the value in front. This holds for
  every header but \<open>authorization\<close>, \<open>x-amz-date\<close> and \<open>x-amz-content-sha256\<close>.
\<close>
theorem signed_header_shadowed:
  assumes "(n, Some w) \<in> set hs" "to_ascii_lowercase n = n"
    and "n \<notin> {''authorization'', ''x-amz-date'', ''x-amz-content-sha256''}"
  shows "verify_sigv4_request_any sign parse_date form_parse dbg now meth u ((n, Some v) # hs) expected secret resource =
         verify_sigv4_request_any sign parse_date form_parse dbg now meth u hs expected secret resource \<and>
         hdr_get ((n, Some v) # hs) n = Some (Some v)"
proof -
  have get: "hdr_get ((n, Some v) # hs) k = hdr_get hs k" if "n \<noteq> k" for k
    using that by (simp add: hdr_get_def)
  have contains: "hdr_contains ((n, Some v) # hs) ''authorization'' = hdr_contains hs ''authorization''"
    using assms(3) get [of "''authorization''"] by (simp add: hdr_contains_iff)
  have maps: "build_header_map skip ((n, Some v) # hs) Map.empty = build_header_map skip hs Map.empty"
    if "\<not> skip n" for skip
    using build_header_map_shadowed [of n w hs skip Map.empty "trim v"] assms that by simp
  have pa: "parse_authorization ((n, Some v) # hs) = parse_authorization hs"
    using assms(3) get [of "''authorization''"] by (simp add: parse_authorization_def)
  have ho: "verify_sigv4_header_only sign parse_date dbg now meth u ((n, Some v) # hs) auth secret mx =
      verify_sigv4_header_only sign parse_date dbg now meth u hs auth secret mx" for auth mx
  proof -
    have g: "hdr_get ((n, Some v) # hs) ''x-amz-date'' = hdr_get hs ''x-amz-date''"
      "hdr_get ((n, Some v) # hs) ''x-amz-content-sha256'' = hdr_get hs ''x-amz-content-sha256''"
      "build_header_map (\<lambda>n. n = ''authorization'') ((n, Some v) # hs) Map.empty =
         build_header_map (\<lambda>n. n = ''authorization'') hs Map.empty"
      using assms(3) get maps by auto
    show ?thesis
      by (simp only: verify_sigv4_header_only_def g)
  qed
  have pr: "verify_sigv4_presigned_url sign parse_date form_parse dbg now meth u ((n, Some v) # hs) auth secret =
      verify_sigv4_presigned_url sign parse_date form_parse dbg now meth u hs auth secret" for auth
    by (simp only: verify_sigv4_presigned_url_def maps not_False_eq_True)
  show ?thesis
    by (simp only: verify_sigv4_request_any_def contains pa ho pr) (simp add: hdr_get_def)
qed

theorem signed_header_shadowed_witness:
  "verify_sigv4_request_any (\<lambda>_. Inr example_sig) (\<lambda>_. Inr (''20240101'', 1704067200)) (\<lambda>_. []) (\<lambda>s. s)
     (1704067200 * nanos) ''GET'' example_uri ((''host'', Some ''other'') # example_headers) (Some ''AK'') ''secret'' None = Inr ()"
proof -
  have "(''host'', Some ''h'') \<in> set example_headers"
    by (simp add: example_headers_def)
  moreover have "to_ascii_lowercase ''host'' = ''host''"
    by code_simp
  ultimately show ?thesis
    using signed_header_shadowed [of "''host''" "''h''" example_headers] example_header_ok by simp
qed

lemma contains_str_mid: "contains_str p s \<Longrightarrow> contains_str p (a @ s @ b)"
  unfolding contains_str_iff by (metis append.assoc)

lemma try_variants_mismatch:
  "(\<And>i. sign i = Inr s') \<Longrightarrow> s' \<noteq> sig \<Longrightarrow> \<exists>ts. try_variants sign inp sig vs tried = Inr (Some ts)"
  by (induction vs arbitrary: tried) (auto simp: Let_def)

text \<open>
  The answer to a bad presigned signature depends on the name of the object: when the path of
  the request contains the word \<open>expired\<close>, a request whose lifetime is not over but whose
  signature is wrong is answered as expired, and not as a signature mismatch. The hypothesis on
  \<open>dbg\<close> is that the \<open>Debug\<close> rendering of a text keeps the words in it.
\<close>
theorem mismatch_reported_as_expired:
  assumes "\<not> hdr_contains hs ''authorization''" "parse_presigned_query form_parse dbg u = Inr (Some auth)"
    and "validate_sigv4_format (sa_signature auth) (sa_scope_date auth) = Inr ()"
    and "parse_amz_date parse_date (trim (pa_amz_date auth)) = Inr (sa_scope_date auth, t)"
    and "0 < pa_expires auth" "pa_expires auth \<le> PRESIGN_MAX_EXPIRES"
    and "now \<le> t + int (unat (pa_expires auth)) * nanos"
    and "build_header_map (\<lambda>n. False) hs Map.empty = Inr m"
    and "select_signed m (split_on CHR '';'' (sa_signed_headers auth)) = Inr storage"
    and "\<And>i. sign i = Inr s'" "s' \<noteq> sa_signature auth"
    and "contains_str ''expired'' (uri_path u)"
    and "\<And>s. contains_str ''expired'' s \<Longrightarrow> contains_str ''expired'' (dbg s)"
  shows "\<exists>reason. verify_sigv4_request_any sign parse_date form_parse dbg now meth u hs (Some (sa_access_key auth)) secret resource =
           reject AccessDenied ''Request has expired'' resource reason"
proof -
  have mismatch: "\<exists>ts. try_variants sign inp (sa_signature auth) vs [] = Inr (Some ts)" for inp vs
    by (rule try_variants_mismatch [of sign s']) (use assms(10,11) in simp_all)
  obtain ts where ts: "verify_sigv4_presigned_url sign parse_date form_parse dbg now meth u hs auth secret =
      Inl (Err (''signature mismatch ('' @ sigv4_mismatch_diagnostic dbg meth (unsigned_uri form_parse u) storage
        (sa_signed_headers auth) auth ''UNSIGNED-PAYLOAD'' ts @ '')''))"
  proof -
    let ?pq = "unsigned_uri form_parse u"
    obtain ts where "try_variants sign
           \<lparr>si_access_key = sa_access_key auth, si_secret_key = secret, si_token = pa_security_token auth,
            si_region = sa_region auth, si_service = sa_service auth, si_time = t,
            si_expires = Some (pa_expires auth), si_method = meth, si_path = ?pq, si_headers = storage,
            si_body = UnsignedPayload\<rparr> (sa_signature auth) (variants ?pq storage) [] = Inr (Some ts)"
      using mismatch by blast
    with assms(4-9) show ?thesis
      by (intro that [of ts]) (auto simp: verify_sigv4_presigned_url_def Let_def not_less)
  qed
  have "contains_str ''expired'' (unsigned_uri form_parse u)"
    using contains_str_mid [OF assms(12), of "[]"] assms(12) by (simp add: unsigned_uri_def Let_def)
  then have "contains_str ''expired'' (dbg (unsigned_uri form_parse u))"
    by (rule assms(13))
  from contains_str_mid [OF this, of "''signature mismatch (method='' @ meth @ '' path_and_query=''"]
  have "contains_str ''expired'' (''signature mismatch ('' @ sigv4_mismatch_diagnostic dbg meth
      (unsigned_uri form_parse u) storage (sa_signed_headers auth) auth ''UNSIGNED-PAYLOAD'' ts @ '')'')"
    by (simp add: sigv4_mismatch_diagnostic_def)
  then show ?thesis
    using assms(1-3) ts by (auto simp: verify_sigv4_request_any_def gate_def rerr_text_def Let_def)
qed

theorem mismatch_reported_as_expired_witness:
  "\<exists>reason. verify_sigv4_request_any (\<lambda>_. Inr []) (\<lambda>_. Inr (''20240101'', 1704067200)) (\<lambda>_. example_pairs) (\<lambda>s. s)
     (1704067200 * nanos) ''GET'' (example_presigned_uri\<lparr>uri_path := ''/b/expired''\<rparr>) [(''host'', Some ''h'')]
     (Some ''AK'') ''secret'' None = reject AccessDenied ''Request has expired'' None reason"
proof -
  have t: "trim ''d'' = ''d''" "trim ''h'' = ''h''" "trim ''host'' = ''host''"
    by (rule trim_id; simp add: ws_first_def ws_last_def)+
  have l: "to_ascii_lowercase ''host'' = ''host''" "contains_str ''expired'' ''/b/expired''"
    by code_simp+
  have q: "parse_presigned_query (\<lambda>_. example_pairs) (\<lambda>s. s) (example_presigned_uri\<lparr>uri_path := ''/b/expired''\<rparr>) =
      Inr (Some example_auth)"
    using example_presigned by (simp add: parse_presigned_query_def example_presigned_uri_def)
  have f: "validate_sigv4_format example_sig ''20240101'' = Inr ()"
    by (simp add: validate_sigv4_format_def example_sig_facts list_all_iff is_ascii_hexdigit_def is_ascii_digit_def)
  show ?thesis
    using mismatch_reported_as_expired
      [where auth = example_auth and t = "1704067200 * nanos" and m = "[''host'' \<mapsto> ''h'']" and
        storage = "[(''host'', ''h'')]" and s' = "[]" and sign = "\<lambda>_. Inr []" and hs = "[(''host'', Some ''h'')]" and
        parse_date = "\<lambda>_. Inr (''20240101'', 1704067200)" and now = "1704067200 * nanos" and meth = "''GET''" and
        secret = "''secret''" and resource = None, OF _ q]
    by (simp add: hdr_simps example_auth_def f parse_amz_date_def offset_to_system_time_def nanos_def t l
        PRESIGN_MAX_EXPIRES_def example_sig_facts example_sig_facts(2) [symmetric])
qed

end
