(* ===== verification/S3_Responses.thy ===== *)
theory S3_Responses
  imports Http_Utils Classifier Sigv4
begin

text \<open>
  The responses the proxy and the gateway build: \<open>crates/s32p-support/src/s3resp.rs\<close> and the
  dispatch of disabled features in \<open>crates/s32p-proxy/src/responses.rs\<close>. A response is its status,
  the error code, message and resource that the XML body renders, and the headers set beside the
  content type and length. The helpers of multi-range bodies are here too: part header, closing
  delimiter and content length.
\<close>

record s3_reply =
  rp_status :: nat
  rp_code :: str
  rp_message :: str
  rp_resource :: "str option"
  rp_headers :: "(str \<times> str) list"

definition s3_error :: "nat \<Rightarrow> str \<Rightarrow> str \<Rightarrow> str option \<Rightarrow> str option \<Rightarrow> s3_reply" where
  "s3_error status code msg resource request_id =
     \<lparr>rp_status = status, rp_code = code, rp_message = msg, rp_resource = resource,
      rp_headers = (case request_id of Some rid \<Rightarrow> [(''x-amz-request-id'', rid)] | None \<Rightarrow> [])\<rparr>"

definition not_implemented :: "str \<Rightarrow> str option \<Rightarrow> s3_reply" where
  "not_implemented msg resource = s3_error 501 ''NotImplemented'' msg resource None"

text \<open>A body that is not an error: the code is empty.\<close>

definition versioning_not_configured :: s3_reply where
  "versioning_not_configured =
     \<lparr>rp_status = 200, rp_code = [], rp_message = ''VersioningConfiguration'', rp_resource = None, rp_headers = []\<rparr>"

definition invalid_request :: "str \<Rightarrow> str option \<Rightarrow> s3_reply" where
  "invalid_request msg resource = s3_error 400 ''InvalidRequest'' msg resource None"

definition sse_not_supported :: "detected_sse \<Rightarrow> str option \<Rightarrow> s3_reply" where
  "sse_not_supported kind resource =
     invalid_request
       (case kind of
          CustomerKey \<Rightarrow> ''Server-side encryption with customer-provided keys (SSE-C) is not supported by this proxy''
        | ServerS3 \<Rightarrow> ''Server-side encryption (SSE-S3, x-amz-server-side-encryption: AES256) is not supported by this proxy''
        | ServerKms \<Rightarrow> ''Server-side encryption with AWS KMS (SSE-KMS) is not supported by this proxy''
        | ServerKmsDsse \<Rightarrow> ''Server-side encryption with AWS KMS dual-layer (SSE-KMS-DSSE) is not supported by this proxy''
        | _ \<Rightarrow> ''The requested server-side encryption algorithm is not supported by this proxy'')
       resource"

definition missing_content_length :: "str \<Rightarrow> str option \<Rightarrow> s3_reply" where
  "missing_content_length msg resource = s3_error 411 ''MissingContentLength'' msg resource None"

definition access_denied :: "str \<Rightarrow> str option \<Rightarrow> s3_reply" where
  "access_denied msg resource = s3_error 403 ''AccessDenied'' msg resource None"

definition signature_does_not_match :: "str \<Rightarrow> str option \<Rightarrow> s3_reply" where
  "signature_does_not_match msg resource = s3_error 403 ''SignatureDoesNotMatch'' msg resource None"

definition request_time_too_skewed :: "str \<Rightarrow> str option \<Rightarrow> s3_reply" where
  "request_time_too_skewed msg resource = s3_error 403 ''RequestTimeTooSkewed'' msg resource None"

definition method_not_allowed :: "str \<Rightarrow> str option \<Rightarrow> str \<Rightarrow> s3_reply" where
  "method_not_allowed msg resource allow =
     (s3_error 405 ''MethodNotAllowed'' msg resource None)\<lparr>rp_headers := [(''Allow'', allow)]\<rparr>"

definition slow_down :: "str \<Rightarrow> str option \<Rightarrow> u64 \<Rightarrow> s3_reply" where
  "slow_down msg resource retry_after_secs =
     (s3_error 429 ''SlowDown'' msg resource None)
       \<lparr>rp_headers := [(''Retry-After'', show_nat (unat retry_after_secs))]\<rparr>"

definition invalid_access_key_id :: "str \<Rightarrow> str option \<Rightarrow> s3_reply" where
  "invalid_access_key_id msg resource = s3_error 403 ''InvalidAccessKeyId'' msg resource None"

definition no_such_bucket :: "str \<Rightarrow> str option \<Rightarrow> s3_reply" where
  "no_such_bucket msg resource = s3_error 404 ''NoSuchBucket'' msg resource None"

definition no_such_key :: "str \<Rightarrow> str option \<Rightarrow> s3_reply" where
  "no_such_key msg resource = s3_error 404 ''NoSuchKey'' msg resource None"

definition precondition_failed :: "str \<Rightarrow> str option \<Rightarrow> s3_reply" where
  "precondition_failed msg resource = s3_error 412 ''PreconditionFailed'' msg resource None"

definition invalid_range :: "str \<Rightarrow> str option \<Rightarrow> s3_reply" where
  "invalid_range msg resource = s3_error 416 ''InvalidRange'' msg resource None"

definition internal_error :: "str \<Rightarrow> str option \<Rightarrow> str option \<Rightarrow> s3_reply" where
  "internal_error msg resource request_id = s3_error 500 ''InternalError'' msg resource request_id"

definition service_unavailable :: "str \<Rightarrow> str option \<Rightarrow> str option \<Rightarrow> s3_reply" where
  "service_unavailable msg resource request_id = s3_error 503 ''ServiceUnavailable'' msg resource request_id"

text \<open>The response a rejected signature carries.\<close>

definition rejection_reply :: "sigv4_rejection \<Rightarrow> s3_reply" where
  "rejection_reply r =
     (case rj_kind r of
        AccessDenied \<Rightarrow> access_denied (rj_message r) (rj_resource r)
      | SignatureDoesNotMatch \<Rightarrow> signature_does_not_match (rj_message r) (rj_resource r)
      | RequestTimeTooSkewed \<Rightarrow> request_time_too_skewed (rj_message r) (rj_resource r))"

definition aws_compat_response :: "s3_op \<Rightarrow> str option \<Rightarrow> s3_reply" where
  "aws_compat_response op resource =
     (case op of
        Versioning GetBucketVersioning \<Rightarrow> versioning_not_configured
      | ObjectLock GetBucketObjectLockConfiguration \<Rightarrow>
          s3_error 404 ''ObjectLockConfigurationNotFoundError''
            ''Object Lock configuration does not exist for this bucket'' resource None
      | ObjectLock GetObjectRetention \<Rightarrow>
          s3_error 404 ''NoSuchObjectLockConfiguration''
            ''The specified object does not have an ObjectLock configuration'' resource None
      | ObjectLock GetObjectLegalHold \<Rightarrow>
          s3_error 404 ''NoSuchObjectLockConfiguration''
            ''The specified object does not have an ObjectLock configuration'' resource None
      | ObjectLock PutObjectRetention \<Rightarrow> invalid_request ''Bucket is missing Object Lock Configuration'' resource
      | ObjectLock PutObjectLegalHold \<Rightarrow> invalid_request ''Bucket is missing Object Lock Configuration'' resource
      | HeadService \<Rightarrow>
          method_not_allowed ''The specified method is not allowed against this resource.'' resource ''GET''
      | _ \<Rightarrow> not_implemented ''operation is not implemented by this proxy'' resource)"

section \<open>Multi-range bodies\<close>

definition OBJECT_CONTENT_TYPE :: str where
  "OBJECT_CONTENT_TYPE = ''application/octet-stream''"

definition CRLF :: str where
  "CRLF = bytes [13, 10]"

definition object_content_range :: "u64 \<Rightarrow> u64 \<Rightarrow> u64 \<Rightarrow> str" where
  "object_content_range s e t =
     ''bytes '' @ show_nat (unat s) @ ''-'' @ show_nat (unat e) @ ''/'' @ show_nat (unat t)"

definition multirange_part_header :: "str \<Rightarrow> u64 \<Rightarrow> u64 \<Rightarrow> u64 \<Rightarrow> str" where
  "multirange_part_header boundary s e t =
     ''--'' @ boundary @ CRLF @ ''Content-Type: '' @ OBJECT_CONTENT_TYPE @ CRLF @
     ''Content-Range: '' @ object_content_range s e t @ CRLF @ CRLF"

definition multirange_closing :: "str \<Rightarrow> str" where
  "multirange_closing boundary = ''--'' @ boundary @ ''--'' @ CRLF"

definition multirange_content_type :: "str \<Rightarrow> str" where
  "multirange_content_type boundary = ''multipart/byteranges; boundary='' @ boundary"

definition multirange_part_len :: "str \<Rightarrow> u64 \<Rightarrow> byte_range \<Rightarrow> u64" where
  "multirange_part_len boundary tot r =
     word_of_nat (length (multirange_part_header boundary (start r) (saturating_sub (end_excl r) 1) tot)) +
     (end_excl r - start r) + 2"

fun multirange_sum :: "str \<Rightarrow> u64 \<Rightarrow> byte_range list \<Rightarrow> u64 \<Rightarrow> u64" where
  "multirange_sum boundary tot [] len = len"
| "multirange_sum boundary tot (r # rs) len =
     multirange_sum boundary tot rs (len + multirange_part_len boundary tot r)"

definition multirange_content_length :: "str \<Rightarrow> byte_range list \<Rightarrow> u64 \<Rightarrow> u64" where
  "multirange_content_length boundary ranges tot =
     multirange_sum boundary tot ranges 0 + word_of_nat (length (multirange_closing boundary))"

end
