(* ===== verification/Proxy_Filter.thy ===== *)
theory Proxy_Filter
  imports S3_Responses Session_Store Conn_Limit Log_Redact
begin

text \<open>
  The proxy's request life cycle, \<open>crates/s32p-proxy/src/main.rs\<close>: admission, header clean-up,
  classification and routing, authentication by session or by long-term credentials, the local
  answers, and the hand-over to a worker; then the filter of the upstream request and the release
  of the admission slot.

  The application state holds the limiter and the session store, modelled by their own theories.
  What the filter asks of others is the environment: the signer, the parsers and the clock of
  \<open>Sigv4\<close>; the answers of the directory; the running workers and the outcome of starting one.
  Each stage of the filter is a function; it either answers the request (on the left) or hands on.
\<close>

section \<open>Data\<close>

record user_doc =
  ud_access_key :: str
  ud_secret_key :: str
  ud_username :: str
  ud_uid :: u32
  ud_gid :: u32

datatype access_level = AccessReadOnly | AccessReadWrite

record bucket_view =
  bv_bucket_id :: str
  bv_bucket_name :: str
  bv_data_path :: str
  bv_access :: access_level

datatype worker_endpoint = Tcp ip_addr "16 word" | Uds str

record worker_handle =
  wh_endpoint :: worker_endpoint
  wh_worker_token :: str

datatype route_action =
    RouteProxy str
  | RouteNotImplemented str
  | RouteCreateSession
  | RouteAwsCompat

record proxy_app =
  ap_limiter :: connection_limiter
  ap_sessions :: session_store
  ap_session_ttl :: int
  ap_class_map :: "str \<rightharpoonup> route_action"
  ap_suffixes :: "str list"

record proxy_env =
  pe_sign :: signer
  pe_parse_date :: "str \<Rightarrow> str + (str \<times> int)"
  pe_form_parse :: "str \<Rightarrow> (str \<times> str) list"
  pe_pdec :: "str \<Rightarrow> str option"
  pe_dbg :: "str \<Rightarrow> str"
  pe_base64 :: "str \<Rightarrow> str"
  pe_rand :: session_rand
  pe_now :: system_time
  pe_instant :: instant
  pe_directory :: "str \<Rightarrow> str + user_doc option"
  pe_buckets :: "str \<Rightarrow> str + bucket_view list"
  pe_get_running :: "str \<Rightarrow> str \<Rightarrow> worker_handle option"
  pe_ensure_running :: "user_doc \<Rightarrow> bucket_view list \<Rightarrow> str \<Rightarrow> str + worker_handle"
  pe_session_xml :: "session_entry \<Rightarrow> str + str"

record proxy_ctx =
  cx_uid :: "u32 option"
  cx_username :: "str option"
  cx_orig_host :: "str option"
  cx_worker_profile :: "str option"
  cx_upstream :: "worker_endpoint option"
  cx_worker :: "worker_handle option"
  cx_session_validated :: bool
  cx_limiter_slot :: "ip_addr option"

definition new_ctx :: proxy_ctx where
  "new_ctx = \<lparr>cx_uid = None, cx_username = None, cx_orig_host = None, cx_worker_profile = None,
     cx_upstream = None, cx_worker = None, cx_session_validated = False, cx_limiter_slot = None\<rparr>"

text \<open>The peer: no address, an internet address, or another kind of socket.\<close>

datatype peer = NoPeer | Inet ip_addr | OtherSocket

record request =
  rq_method :: str
  rq_uri :: uri
  rq_headers :: headers
  rq_peer :: peer

text \<open>\<open>Ok(true)\<close> after an answer, \<open>Ok(false)\<close> to go upstream, or an error of the proxy itself.\<close>

datatype filter_outcome =
    Replied s3_reply
  | SessionReply str
  | Forward
  | ProxyError str

datatype effect = Spawned user_doc str | Minted session_entry

definition set_user :: "user_doc \<Rightarrow> proxy_ctx \<Rightarrow> proxy_ctx" where
  "set_user user ctx = ctx\<lparr>cx_uid := Some (ud_uid user), cx_username := Some (ud_username user)\<rparr>"

section \<open>Before authentication\<close>

definition early_request_filter :: "proxy_app \<Rightarrow> u64 option" where
  "early_request_filter app =
     (let secs = keepalive_idle_secs (ap_limiter app) in if secs > 0 then Some secs else None)"

definition peer_ip :: "peer \<Rightarrow> ip_addr option" where
  "peer_ip p = (case p of Inet ip \<Rightarrow> Some ip | _ \<Rightarrow> None)"

definition admit :: "proxy_app \<Rightarrow> request \<Rightarrow> proxy_ctx \<Rightarrow> (filter_outcome + proxy_ctx) \<times> proxy_app" where
  "admit app rq ctx =
     (case limiter_acquire (ap_limiter app) (peer_ip (rq_peer rq)) of (l, out) \<Rightarrow>
        (case out of
           Acquired ip \<Rightarrow> Inr (ctx\<lparr>cx_limiter_slot := Some ip\<rparr>)
         | Bypassed \<Rightarrow> Inr ctx
         | Throttled ip \<Rightarrow>
             Inl (Replied (slow_down ''request rate too high'' (Some (uri_path (rq_uri rq))) 1)),
         app\<lparr>ap_limiter := l\<rparr>))"

text \<open>The host of HTTP/2 requests is added, and the trust header of the proxy is removed.\<close>

definition prepare_headers :: "request \<Rightarrow> headers" where
  "prepare_headers rq =
     (let hs = rq_headers rq;
          with_host = (case hdr_get hs ''host'' of
            None \<Rightarrow> (case uri_authority (rq_uri rq) of Some a \<Rightarrow> hdr_insert hs ''host'' a | None \<Rightarrow> hs)
          | Some _ \<Rightarrow> hs)
      in hdr_remove with_host ''x-s32p-validated'')"

definition select_route :: "(str \<rightharpoonup> route_action) \<Rightarrow> str \<Rightarrow> filter_outcome + route_action" where
  "select_route class_map key =
     (case class_map key of
        Some a \<Rightarrow> Inr a
      | None \<Rightarrow> (case class_map ''other'' of
          Some a \<Rightarrow> Inr a
        | None \<Rightarrow> Inl (ProxyError (''no routing configured for class '' @ [CHR 0x27] @ key @ [CHR 0x27] @
            '' and no fallback '' @ [CHR 0x27] @ ''other'' @ [CHR 0x27] @ '' route''))))"

section \<open>Authentication\<close>

fun first_session_token :: "(str \<times> str) list \<Rightarrow> str option" where
  "first_session_token [] = None"
| "first_session_token ((k, v) # rest) =
     (if eq_ignore_ascii_case k ''x-amz-s3session-token'' \<and> v \<noteq> [] then Some v else first_session_token rest)"

definition presign_session_token_from_query :: "(str \<Rightarrow> (str \<times> str) list) \<Rightarrow> str \<Rightarrow> str option" where
  "presign_session_token_from_query form_parse q =
     (if q = [] then None else first_session_token (form_parse q))"

definition provided_token :: "(str \<Rightarrow> (str \<times> str) list) \<Rightarrow> uri \<Rightarrow> headers \<Rightarrow> str" where
  "provided_token form_parse u hs =
     (case hdr_text hs ''x-amz-s3session-token'' of
        Some t \<Rightarrow> t
      | None \<Rightarrow> unwrap_or (presign_session_token_from_query form_parse (unwrap_or (uri_query u) [])) [])"

definition verify_with :: "proxy_env \<Rightarrow> request \<Rightarrow> headers \<Rightarrow> str \<Rightarrow> sigv4_rejection + unit" where
  "verify_with env rq hs secret =
     verify_sigv4_request_any (pe_sign env) (pe_parse_date env) (pe_form_parse env) (pe_dbg env) (pe_now env)
       (rq_method rq) (rq_uri rq) hs None secret (Some (uri_path (rq_uri rq)))"

text \<open>Some reply when the signature is rejected.\<close>

definition validate_sigv4_header_only_or_reject :: "proxy_env \<Rightarrow> request \<Rightarrow> headers \<Rightarrow> user_doc \<Rightarrow> filter_outcome option" where
  "validate_sigv4_header_only_or_reject env rq hs user =
     (case verify_with env rq hs (ud_secret_key user) of
        Inr _ \<Rightarrow> None
      | Inl rej \<Rightarrow> Some (Replied (rejection_reply rej)))"

definition authenticate_session ::
  "proxy_env \<Rightarrow> proxy_app \<Rightarrow> request \<Rightarrow> headers \<Rightarrow> s3_request_class \<Rightarrow> str \<Rightarrow> session_entry \<Rightarrow>
   (filter_outcome + user_doc) \<times> proxy_app" where
  "authenticate_session env app rq hs cls key e =
     (let path = Some (uri_path (rq_uri rq));
          token = provided_token (pe_form_parse env) (rq_uri rq) hs in
      if \<not> (length token = length (session_token e) \<and> token = session_token e)
        then (Inl (Replied (access_denied ''Access Denied'' path)), app)
      else if rc_bucket cls \<noteq> Some (se_bucket e)
        then (Inl (Replied (access_denied ''Access Denied'' path)), app)
      else if se_mode e = ReadOnly \<and> needs_write (rc_op cls)
        then (Inl (Replied (access_denied ''session is ReadOnly; write operations are not permitted'' path)), app)
      else (case pe_directory env (real_access_key e) of
          Inl err \<Rightarrow> (Inl (ProxyError (''directory error: '' @ err)), app)
        | Inr None \<Rightarrow>
            (Inl (Replied (access_denied ''session owner has been removed'' path)),
             app\<lparr>ap_sessions := session_invalidate key (ap_sessions app)\<rparr>)
        | Inr (Some real_user) \<Rightarrow>
            (case verify_with env rq hs (secret_key e) of
               Inl rej \<Rightarrow> (Inl (Replied (rejection_reply rej)), app)
             | Inr _ \<Rightarrow> (Inr real_user, app))))"

text \<open>The user, and whether a session credential authenticated the request.\<close>

definition authenticate ::
  "proxy_env \<Rightarrow> proxy_app \<Rightarrow> request \<Rightarrow> headers \<Rightarrow> s3_request_class \<Rightarrow>
   (filter_outcome + (user_doc \<times> bool)) \<times> proxy_app" where
  "authenticate env app rq hs cls =
     (case extract_access_key_from_request (pe_form_parse env) (pe_dbg env) (rq_uri rq) hs of
        Inl _ \<Rightarrow> (Inl (Replied (access_denied ''invalid or missing credentials'' (Some (uri_path (rq_uri rq))))), app)
      | Inr key \<Rightarrow>
          (case session_lookup (pe_instant env) key (ap_sessions app) of
             (Some e, st) \<Rightarrow>
               (case authenticate_session env (app\<lparr>ap_sessions := st\<rparr>) rq hs cls key e of
                  (Inl out, app') \<Rightarrow> (Inl out, app')
                | (Inr user, app') \<Rightarrow> (Inr (user, True), app'))
           | (None, st) \<Rightarrow>
               (case pe_directory env key of
                  Inl err \<Rightarrow> (Inl (ProxyError (''directory error: '' @ err)), app\<lparr>ap_sessions := st\<rparr>)
                | Inr None \<Rightarrow>
                    (Inl (Replied (invalid_access_key_id ''unknown access key'' (Some (uri_path (rq_uri rq))))),
                     app\<lparr>ap_sessions := st\<rparr>)
                | Inr (Some user) \<Rightarrow> (Inr (user, False), app\<lparr>ap_sessions := st\<rparr>))))"

section \<open>The routes\<close>

text \<open>
  The answer that does not depend on a worker: both \<open>NotImplemented\<close> and \<open>AwsCompat\<close> verify the
  signature first, unless the session already did.
\<close>

definition gated_reply ::
  "proxy_env \<Rightarrow> request \<Rightarrow> headers \<Rightarrow> user_doc \<Rightarrow> bool \<Rightarrow> s3_reply \<Rightarrow> filter_outcome" where
  "gated_reply env rq hs user validated reply =
     (case (if validated then None else validate_sigv4_header_only_or_reject env rq hs user) of
        Some out \<Rightarrow> out
      | None \<Rightarrow> Replied reply)"

definition route_create_session ::
  "proxy_env \<Rightarrow> proxy_app \<Rightarrow> request \<Rightarrow> headers \<Rightarrow> s3_request_class \<Rightarrow> user_doc \<Rightarrow> bool \<Rightarrow>
   filter_outcome \<times> proxy_app \<times> effect list" where
  "route_create_session env app rq hs cls user validated =
     (let path = Some (uri_path (rq_uri rq)) in
      if validated then (Replied (invalid_request ''CreateSession requires long-term credentials'' path), app, [])
      else (case validate_sigv4_header_only_or_reject env rq hs user of
        Some out \<Rightarrow> (out, app, [])
      | None \<Rightarrow>
          let bucket = unwrap_or (rc_bucket cls) [] in
          if bucket = [] then (Replied (invalid_request ''CreateSession requires a bucket'' path), app, [])
          else (case session_create (pe_base64 env) (pe_rand env) (pe_instant env) (pe_now env)
                  (ud_access_key user) bucket
                  (session_mode_from_header (hdr_text hs ''x-amz-create-session-mode''))
                  (ap_session_ttl app) (ap_sessions app) of
              (None, st) \<Rightarrow>
                (Replied (service_unavailable ''session store is at capacity'' path None), app\<lparr>ap_sessions := st\<rparr>, [])
            | (Some e, st) \<Rightarrow>
                ((case pe_session_xml env e of
                    Inl err \<Rightarrow> ProxyError (''xml: '' @ err)
                  | Inr body \<Rightarrow> SessionReply body),
                 app\<lparr>ap_sessions := st\<rparr>, [Minted e]))))"

definition select_worker :: "worker_handle \<Rightarrow> proxy_ctx \<Rightarrow> proxy_ctx" where
  "select_worker h ctx = ctx\<lparr>cx_upstream := Some (wh_endpoint h), cx_worker := Some h\<rparr>"

definition route_proxy ::
  "proxy_env \<Rightarrow> request \<Rightarrow> headers \<Rightarrow> str \<Rightarrow> user_doc \<Rightarrow> bool \<Rightarrow> proxy_ctx \<Rightarrow>
   filter_outcome \<times> proxy_ctx \<times> effect list" where
  "route_proxy env rq hs profile user validated ctx0 =
     (let ctx = ctx0\<lparr>cx_worker_profile := Some profile\<rparr> in
      case pe_get_running env (ud_access_key user) profile of
        Some h \<Rightarrow> (Forward, select_worker h ctx, [])
      | None \<Rightarrow>
          (case (if validated then None else validate_sigv4_header_only_or_reject env rq hs user) of
             Some out \<Rightarrow> (out, ctx, [])
           | None \<Rightarrow>
               (case pe_buckets env (ud_access_key user) of
                  Inl err \<Rightarrow> (ProxyError (''directory buckets error: '' @ err), ctx, [])
                | Inr buckets \<Rightarrow>
                    (case pe_ensure_running env user buckets profile of
                       Inl err \<Rightarrow>
                         (Replied (service_unavailable (''failed to start worker: '' @ err)
                            (Some (uri_path (rq_uri rq))) None), ctx, [Spawned user profile])
                     | Inr h \<Rightarrow> (Forward, select_worker h ctx, [Spawned user profile])))))"

definition route_request ::
  "proxy_env \<Rightarrow> proxy_app \<Rightarrow> request \<Rightarrow> headers \<Rightarrow> s3_request_class \<Rightarrow> route_action \<Rightarrow> user_doc \<Rightarrow> bool \<Rightarrow>
   proxy_ctx \<Rightarrow> filter_outcome \<times> proxy_ctx \<times> proxy_app \<times> effect list" where
  "route_request env app rq hs cls action user validated ctx =
     (let path = Some (uri_path (rq_uri rq)) in
      case detect_unsupported_sse hs of
        Some kind \<Rightarrow> (Replied (sse_not_supported kind path), ctx, app, [])
      | None \<Rightarrow>
          (case action of
             RouteNotImplemented message \<Rightarrow>
               (gated_reply env rq hs user validated (not_implemented message path), ctx, app, [])
           | RouteAwsCompat \<Rightarrow>
               (gated_reply env rq hs user validated (aws_compat_response (rc_op cls) path), ctx, app, [])
           | RouteCreateSession \<Rightarrow>
               (case route_create_session env app rq hs cls user validated of
                  (out, app', effs) \<Rightarrow> (out, ctx, app', effs))
           | RouteProxy profile \<Rightarrow>
               (case route_proxy env rq hs profile user validated ctx of
                  (out, ctx', effs) \<Rightarrow> (out, ctx', app, effs))))"

text \<open>
  The whole filter. Besides the outcome it yields the context, the application state, what was
  spawned or minted, and the request headers as the filter leaves them.
\<close>

record filter_result =
  fr_outcome :: filter_outcome
  fr_ctx :: proxy_ctx
  fr_app :: proxy_app
  fr_effects :: "effect list"
  fr_headers :: headers

definition classify_request :: "proxy_env \<Rightarrow> proxy_app \<Rightarrow> request \<Rightarrow> headers \<Rightarrow> s3_request_class" where
  "classify_request env app rq hs =
     classify_with_headers (pe_form_parse env) (pe_pdec env) (rq_method rq) (rq_uri rq) (Some hs) (ap_suffixes app)"

definition request_filter :: "proxy_env \<Rightarrow> proxy_app \<Rightarrow> request \<Rightarrow> proxy_ctx \<Rightarrow> filter_result" where
  "request_filter env app rq ctx =
     (case admit app rq ctx of
        (Inl out, app1) \<Rightarrow>
          \<lparr>fr_outcome = out, fr_ctx = ctx, fr_app = app1, fr_effects = [], fr_headers = rq_headers rq\<rparr>
      | (Inr ctx1, app1) \<Rightarrow>
          (let app2 = app1\<lparr>ap_sessions := snd (start_cleanup (ap_sessions app1))\<rparr>;
               hs = prepare_headers rq;
               cls = classify_request env app2 rq hs in
           case select_route (ap_class_map app2) (class_key cls) of
             Inl out \<Rightarrow>
               \<lparr>fr_outcome = out, fr_ctx = ctx1, fr_app = app2, fr_effects = [], fr_headers = hs\<rparr>
           | Inr action \<Rightarrow>
               (let ctx2 = ctx1\<lparr>cx_orig_host := hdr_text hs ''host''\<rparr> in
                case authenticate env app2 rq hs cls of
                  (Inl out, app3) \<Rightarrow>
                    \<lparr>fr_outcome = out, fr_ctx = ctx2, fr_app = app3, fr_effects = [], fr_headers = hs\<rparr>
                | (Inr (user, validated), app3) \<Rightarrow>
                    (case route_request env app3 rq hs cls action user validated
                       ((set_user user ctx2)\<lparr>cx_session_validated := validated\<rparr>) of
                       (out, ctx3, app4, effs) \<Rightarrow>
                         \<lparr>fr_outcome = out, fr_ctx = ctx3, fr_app = app4, fr_effects = effs, fr_headers = hs\<rparr>))))"

section \<open>After the filter\<close>

text \<open>The text of an address, as the standard library displays it.\<close>

fun hex_digits :: "nat \<Rightarrow> nat \<Rightarrow> str" where
  "hex_digits 0 n = []"
| "hex_digits (Suc fuel) n = (if n < 16 then [''0123456789abcdef'' ! n]
     else hex_digits fuel (n div 16) @ [''0123456789abcdef'' ! (n mod 16)])"

definition v6_segments :: "128 word \<Rightarrow> nat list" where
  "v6_segments a = map (\<lambda>i. unat (drop_bit (112 - 16 * i) a AND 0xffff)) [0..<8]"

text \<open>The leftmost longest run of zero segments: where it starts and how long it is.\<close>

fun longest_zeros :: "nat \<Rightarrow> nat list \<Rightarrow> nat \<times> nat \<Rightarrow> nat \<times> nat \<Rightarrow> nat \<times> nat" where
  "longest_zeros i [] cur best = best"
| "longest_zeros i (s # ss) cur best =
     (if s = 0 then
        (let cur' = (if snd cur = 0 then i else fst cur, Suc (snd cur)) in
         longest_zeros (Suc i) ss cur' (if snd cur' > snd best then cur' else best))
      else longest_zeros (Suc i) ss (0, 0) best)"

definition colon_hex :: "nat list \<Rightarrow> str" where
  "colon_hex ss = join '':'' (map (hex_digits 4) ss)"

fun ip_text :: "ip_addr \<Rightarrow> str" where
  "ip_text (V4 a b c d) = join ''.'' (map (\<lambda>x. show_nat (unat x)) [a, b, c, d])"
| "ip_text (V6 a) =
     (let segs = v6_segments a in
      if take 6 segs = [0, 0, 0, 0, 0, 0xffff]
      then ''::ffff:'' @ join ''.'' (map show_nat [segs ! 6 div 256, segs ! 6 mod 256, segs ! 7 div 256, segs ! 7 mod 256])
      else (case longest_zeros 0 segs (0, 0) (0, 0) of (st, len) \<Rightarrow>
        if len > 1 then colon_hex (take st segs) @ ''::'' @ colon_hex (drop (st + len) segs) else colon_hex segs))"

record http_peer =
  hp_endpoint :: worker_endpoint
  hp_tls :: bool
  hp_sni :: str
  hp_tcp_recv_buf :: "u64 option"

definition upstream_peer :: "(str \<Rightarrow> str + unit) \<Rightarrow> proxy_ctx \<Rightarrow> str + http_peer" where
  "upstream_peer new_uds ctx =
     (case cx_upstream ctx of
        None \<Rightarrow> Inl ''no upstream selected''
      | Some ep \<Rightarrow>
          (case ep of
             Tcp ip port \<Rightarrow>
               Inr \<lparr>hp_endpoint = ep, hp_tls = False, hp_sni = ''localhost'', hp_tcp_recv_buf = Some (8 * 1024 * 1024)\<rparr>
           | Uds path \<Rightarrow>
               (case new_uds path of
                  Inl err \<Rightarrow> Inl (''new_uds failed: '' @ err)
                | Inr _ \<Rightarrow>
                    Inr \<lparr>hp_endpoint = ep, hp_tls = False, hp_sni = ''localhost'', hp_tcp_recv_buf = None\<rparr>)))"

definition HOP_BY_HOP :: "str list" where
  "HOP_BY_HOP = [''connection'', ''proxy-connection'', ''keep-alive'', ''te'', ''upgrade'']"

definition upstream_request_filter :: "peer \<Rightarrow> proxy_ctx \<Rightarrow> headers \<Rightarrow> headers" where
  "upstream_request_filter client ctx hs0 =
     (let hs1 = (case cx_orig_host ctx of Some h \<Rightarrow> hdr_insert hs0 ''host'' h | None \<Rightarrow> hs0);
          hs2 = (case client of
              NoPeer \<Rightarrow> hdr_remove hs1 ''x-forwarded-for''
            | Inet ip \<Rightarrow> hdr_insert hs1 ''x-forwarded-for'' (ip_text ip)
            | OtherSocket \<Rightarrow> hdr_insert hs1 ''x-forwarded-for'' ''unix'');
          hs3 = foldl hdr_remove hs2 HOP_BY_HOP
      in if cx_session_validated ctx
         then (case cx_worker ctx of
             Some h \<Rightarrow> hdr_insert hs3 ''x-s32p-validated'' (wh_worker_token h)
           | None \<Rightarrow> hs3)
         else hs3)"

definition response_filter :: "headers \<Rightarrow> headers" where
  "response_filter hs = hdr_remove (hdr_insert hs ''server'' ''s32p-proxy'') ''alt-svc''"

text \<open>The part of \<open>logging\<close> that changes state: it gives back the slot, once.\<close>

definition logging_release :: "proxy_app \<Rightarrow> proxy_ctx \<Rightarrow> proxy_app \<times> proxy_ctx" where
  "logging_release app ctx =
     (case cx_limiter_slot ctx of
        Some ip \<Rightarrow> (app\<lparr>ap_limiter := limiter_release (ap_limiter app) ip\<rparr>, ctx\<lparr>cx_limiter_slot := None\<rparr>)
      | None \<Rightarrow> (app, ctx))"

text \<open>The request line of the access log.\<close>

definition log_summary :: "request \<Rightarrow> headers \<Rightarrow> str" where
  "log_summary rq hs =
     rq_method rq @ '' '' @ redact_uri_for_log (rq_uri rq) @ '', Host: '' @
     unwrap_or (hdr_text hs ''host'') ''<missing>''"

section \<open>What a result tells of the credentials\<close>

text \<open>The request is authenticated by the session \<open>e\<close>, whose owner is \<open>user\<close>.\<close>

definition session_authenticated ::
  "proxy_env \<Rightarrow> proxy_app \<Rightarrow> request \<Rightarrow> session_entry \<Rightarrow> user_doc \<Rightarrow> bool" where
  "session_authenticated env app rq e user \<longleftrightarrow>
     (\<exists>key. extract_access_key_from_request (pe_form_parse env) (pe_dbg env) (rq_uri rq) (prepare_headers rq) = Inr key \<and>
        fmlookup (ss_inner (ap_sessions app)) key = Some e) \<and>
     pe_instant env < expires_at_inst e \<and>
     provided_token (pe_form_parse env) (rq_uri rq) (prepare_headers rq) = session_token e \<and>
     rc_bucket (classify_request env app rq (prepare_headers rq)) = Some (se_bucket e) \<and>
     (se_mode e = ReadOnly \<longrightarrow> \<not> needs_write (rc_op (classify_request env app rq (prepare_headers rq)))) \<and>
     pe_directory env (real_access_key e) = Inr (Some user) \<and>
     verify_with env rq (prepare_headers rq) (secret_key e) = Inr ()"

text \<open>The request names the long-term credentials of \<open>user\<close>; nothing is verified yet.\<close>

definition long_term_named :: "proxy_env \<Rightarrow> proxy_app \<Rightarrow> request \<Rightarrow> user_doc \<Rightarrow> bool" where
  "long_term_named env app rq user \<longleftrightarrow>
     (\<exists>key. extract_access_key_from_request (pe_form_parse env) (pe_dbg env) (rq_uri rq) (prepare_headers rq) = Inr key \<and>
        fst (session_lookup (pe_instant env) key (ap_sessions app)) = None \<and>
        pe_directory env key = Inr (Some user))"

definition long_term_verified :: "proxy_env \<Rightarrow> proxy_app \<Rightarrow> request \<Rightarrow> user_doc \<Rightarrow> bool" where
  "long_term_verified env app rq user \<longleftrightarrow>
     long_term_named env app rq user \<and> verify_with env rq (prepare_headers rq) (ud_secret_key user) = Inr ()"

lemma session_lookup_started:
  "fst (session_lookup now key (snd (start_cleanup st))) = fst (session_lookup now key st)"
  by (simp add: session_lookup_def start_cleanup_def split: option.splits)

lemma session_lookup_Some:
  "fst (session_lookup now key st) = Some e \<longleftrightarrow> fmlookup (ss_inner st) key = Some e \<and> now < expires_at_inst e"
  by (auto simp: session_lookup_def split: option.splits)

lemma classify_request_app:
  "ap_suffixes app' = ap_suffixes app \<Longrightarrow> classify_request env app' rq hs = classify_request env app rq hs"
  by (simp add: classify_request_def)

lemma authenticate_session_ok:
  "authenticate_session env app rq hs cls key e = (Inr user, app') \<longleftrightarrow>
     app' = app \<and> provided_token (pe_form_parse env) (rq_uri rq) hs = session_token e \<and>
     rc_bucket cls = Some (se_bucket e) \<and> (se_mode e = ReadOnly \<longrightarrow> \<not> needs_write (rc_op cls)) \<and>
     pe_directory env (real_access_key e) = Inr (Some user) \<and> verify_with env rq hs (secret_key e) = Inr ()"
  by (auto simp: authenticate_session_def Let_def split: sum.splits option.splits if_splits)

text \<open>The state after the start of the clean-up task, in which the filter authenticates.\<close>

definition started :: "proxy_app \<Rightarrow> proxy_app" where
  "started app = app\<lparr>ap_sessions := snd (start_cleanup (ap_sessions app))\<rparr>"

lemma started_simps [simp]:
  "ap_limiter (started app) = ap_limiter app" "ap_session_ttl (started app) = ap_session_ttl app"
  "ap_class_map (started app) = ap_class_map app" "ap_suffixes (started app) = ap_suffixes app"
  "ap_sessions (started app) = snd (start_cleanup (ap_sessions app))"
  by (simp_all add: started_def)

lemma authenticate_cases:
  assumes "authenticate env app' rq (prepare_headers rq) cls = (Inr (user, validated), app'')"
    and "ap_sessions app' = snd (start_cleanup (ap_sessions app))"
    and "cls = classify_request env app rq (prepare_headers rq)"
  shows "if validated then \<exists>e. session_authenticated env app rq e user else long_term_named env app rq user"
proof -
  from assms(1) obtain key where
    key: "extract_access_key_from_request (pe_form_parse env) (pe_dbg env) (rq_uri rq) (prepare_headers rq) = Inr key"
    by (auto simp: authenticate_def split: sum.splits)
  obtain found st where l: "session_lookup (pe_instant env) key (ap_sessions app') = (found, st)"
    by fastforce
  then have found: "fst (session_lookup (pe_instant env) key (ap_sessions app)) = found"
    using session_lookup_started [of "pe_instant env" key "ap_sessions app"] assms(2) by simp
  show ?thesis
  proof (cases found)
    case None
    then show ?thesis
      using assms(1) key l found
      by (auto simp: authenticate_def long_term_named_def split: sum.splits option.splits)
  next
    case (Some e)
    with assms(1) key l have v: "validated"
      and a: "authenticate_session env (app'\<lparr>ap_sessions := st\<rparr>) rq (prepare_headers rq) cls key e = (Inr user, app'')"
      by (auto simp: authenticate_def split: sum.splits prod.splits)
    with Some found key show ?thesis
      using a [unfolded authenticate_session_ok] session_lookup_Some assms(3)
      unfolding session_authenticated_def by auto
  qed
qed

lemma validate_None:
  "validate_sigv4_header_only_or_reject env rq hs user = None \<longleftrightarrow> verify_with env rq hs (ud_secret_key user) = Inr ()"
  by (auto simp: validate_sigv4_header_only_or_reject_def split: sum.splits)

lemma route_request_forward:
  assumes "route_request env app rq hs cls action user validated ctx = (Forward, ctx', app', effs)"
  obtains profile h where "action = RouteProxy profile" "app' = app" "detect_unsupported_sse hs = None"
    "ctx' = select_worker h (ctx\<lparr>cx_worker_profile := Some profile\<rparr>)"
    "pe_get_running env (ud_access_key user) profile = Some h \<and> effs = [] \<or>
     pe_get_running env (ud_access_key user) profile = None \<and>
     (validated \<or> verify_with env rq hs (ud_secret_key user) = Inr ()) \<and>
     (\<exists>buckets. pe_buckets env (ud_access_key user) = Inr buckets \<and>
        pe_ensure_running env user buckets profile = Inr h) \<and> effs = [Spawned user profile]"
  using assms
  by (auto simp: route_request_def gated_reply_def route_create_session_def route_proxy_def Let_def validate_None
      validate_sigv4_header_only_or_reject_def
      split: option.splits sum.splits route_action.splits if_splits prod.splits)

lemma admit_app:
  assumes "admit app rq ctx = (res, app1)"
  shows "ap_sessions app1 = ap_sessions app" "ap_class_map app1 = ap_class_map app"
    "ap_suffixes app1 = ap_suffixes app" "ap_session_ttl app1 = ap_session_ttl app"
    "ap_limiter app1 = fst (limiter_acquire (ap_limiter app) (peer_ip (rq_peer rq)))"
  using assms by (auto simp: admit_def split: prod.splits)

lemma same_slot: "\<exists>slot. ctx = ctx\<lparr>cx_limiter_slot := slot\<rparr>"
  by (rule exI [of _ "cx_limiter_slot ctx"]) simp

lemma admit_ctx:
  assumes "admit app rq ctx = (Inr ctx1, app1)"
  shows "\<exists>slot. ctx1 = ctx\<lparr>cx_limiter_slot := slot\<rparr>"
  using assms same_slot by (auto simp: admit_def split: prod.splits acquire_outcome.splits)

text \<open>The filter either answers before the routes, or its result is that of the route.\<close>

lemma request_filter_cases:
  fixes env app rq ctx
  defines "r \<equiv> request_filter env app rq ctx"
    and "cls \<equiv> classify_request env app rq (prepare_headers rq)"
  obtains (early) "fr_effects r = []" "fr_outcome r \<noteq> Forward"
  | (routed) ctx1 app1 app3 action user validated where
      "admit app rq ctx = (Inr ctx1, app1)"
      "select_route (ap_class_map app) (class_key cls) = Inr action"
      "authenticate env (started app1) rq (prepare_headers rq) cls = (Inr (user, validated), app3)"
      "route_request env app3 rq (prepare_headers rq) cls action user validated
         ((set_user user (ctx1\<lparr>cx_orig_host := hdr_text (prepare_headers rq) ''host''\<rparr>))
            \<lparr>cx_session_validated := validated\<rparr>) =
       (fr_outcome r, fr_ctx r, fr_app r, fr_effects r)"
      "fr_headers r = prepare_headers rq"
proof -
  obtain res app1 where adm: "admit app rq ctx = (res, app1)"
    by fastforce
  show thesis
  proof (cases res)
    case (Inl out)
    then have "out \<noteq> Forward"
      using adm by (auto simp: admit_def split: prod.splits acquire_outcome.splits)
    with Inl adm show thesis
      by (intro early) (simp_all add: r_def request_filter_def)
  next
    case (Inr ctx1)
    have cls: "classify_request env (started app1) rq (prepare_headers rq) = cls"
      unfolding cls_def by (rule classify_request_app) (simp add: admit_app [OF adm])
    have rt: "select_route (ap_class_map (started app1)) k = select_route (ap_class_map app) k" for k
      by (simp add: admit_app [OF adm])
    show thesis
    proof (cases "select_route (ap_class_map app) (class_key cls)")
      case (Inl out)
      then have "out \<noteq> Forward"
        by (auto simp: select_route_def split: option.splits)
      with Inl Inr adm cls rt show thesis
        by (intro early) (simp_all add: r_def request_filter_def Let_def started_def [symmetric])
    next
      case action: (Inr action)
      obtain ares app3 where auth: "authenticate env (started app1) rq (prepare_headers rq) cls = (ares, app3)"
        by fastforce
      show thesis
      proof (cases ares)
        case (Inl out)
        then have "out \<noteq> Forward"
          using auth
          by (auto simp: authenticate_def authenticate_session_def Let_def
              split: sum.splits option.splits prod.splits if_splits)
        with Inl action \<open>res = Inr ctx1\<close> adm cls rt auth show thesis
          by (intro early) (simp_all add: r_def request_filter_def Let_def started_def [symmetric])
      next
        case (Inr uv)
        obtain user validated where uv: "uv = (user, validated)"
          by fastforce
        show thesis
          by (rule routed [of ctx1 app1 action user validated app3])
             (use Inr uv action \<open>res = Inr ctx1\<close> adm cls rt auth in
               \<open>auto simp: r_def request_filter_def Let_def started_def [symmetric] split: prod.splits\<close>)
      qed
    qed
  qed
qed

lemma authenticate_ttl:
  assumes "authenticate env app rq hs cls = (res, app')"
  shows "ap_session_ttl app' = ap_session_ttl app" "ap_limiter app' = ap_limiter app"
  using assms
  by (auto simp: authenticate_def authenticate_session_def Let_def
      split: sum.splits option.splits prod.splits if_splits)

lemma routed_authentication:
  assumes "admit app rq ctx = (Inr ctx1, app1)"
    and "authenticate env (started app1) rq (prepare_headers rq)
           (classify_request env app rq (prepare_headers rq)) = (Inr (user, validated), app3)"
  shows "if validated then \<exists>e. session_authenticated env app rq e user else long_term_named env app rq user"
  by (rule authenticate_cases [OF assms(2)]) (simp_all add: admit_app [OF assms(1)])

text \<open>
  C1. A request goes upstream only to a worker of the user it names, under the profile the routing
  table gives its class, and never with a server-side encryption header. Either a live session
  authenticated it: the token is the session's, the bucket is the session's, the session may write
  if the operation does, the owner still exists and the signature verifies with the session's
  secret. Or it names long-term credentials, and then the worker was already running, and verifies
  the signature itself, or the signature was verified before the worker was started.
\<close>
theorem request_filter_forward:
  assumes "fr_outcome (request_filter env app rq new_ctx) = Forward"
  shows "\<exists>user profile h. let ctx = fr_ctx (request_filter env app rq new_ctx) in
    select_route (ap_class_map app) (class_key (classify_request env app rq (prepare_headers rq))) =
      Inr (RouteProxy profile) \<and>
    detect_unsupported_sse (prepare_headers rq) = None \<and>
    cx_uid ctx = Some (ud_uid user) \<and> cx_worker_profile ctx = Some profile \<and>
    cx_worker ctx = Some h \<and> cx_upstream ctx = Some (wh_endpoint h) \<and>
    (pe_get_running env (ud_access_key user) profile = Some h \<or>
     (\<exists>buckets. pe_buckets env (ud_access_key user) = Inr buckets \<and>
        pe_ensure_running env user buckets profile = Inr h)) \<and>
    (if cx_session_validated ctx then \<exists>e. session_authenticated env app rq e user
     else long_term_named env app rq user \<and>
       (pe_get_running env (ud_access_key user) profile = None \<longrightarrow> long_term_verified env app rq user))"
proof (cases rule: request_filter_cases [of env app rq new_ctx])
  case early
  with assms show ?thesis
    by simp
next
  case (routed ctx1 app1 app3 action user validated)
  note auth = routed_authentication [OF routed(1,3)]
  let ?r = "request_filter env app rq new_ctx"
  from routed(4) assms have
    "route_request env app3 rq (prepare_headers rq) (classify_request env app rq (prepare_headers rq)) action user
       validated ((set_user user (ctx1\<lparr>cx_orig_host := hdr_text (prepare_headers rq) ''host''\<rparr>))
         \<lparr>cx_session_validated := validated\<rparr>) = (Forward, fr_ctx ?r, fr_app ?r, fr_effects ?r)"
    by simp
  then show ?thesis
  proof (cases rule: route_request_forward)
    case (1 profile h)
    show ?thesis
      by (rule exI [of _ user], rule exI [of _ profile], rule exI [of _ h])
         (use 1 auth routed(2) in
           \<open>auto simp: Let_def select_worker_def set_user_def long_term_verified_def split: if_splits\<close>)
  qed
qed

lemma session_create_grant:
  assumes "session_create b64 rnd now sys real bucket mode ttl st = (Some e, st')"
  shows "real_access_key e = real \<and> se_bucket e = bucket \<and> se_mode e = mode \<and> expires_at_inst e = now + ttl"
  using assms by (auto simp: session_create_def Let_def split: if_splits)

lemma route_request_effects:
  assumes "route_request env app rq hs cls action user validated ctx = (out, ctx', app', effs)"
    and "eff \<in> set effs"
  obtains (spawned) profile where "eff = Spawned user profile" "action = RouteProxy profile"
    "validated \<or> verify_with env rq hs (ud_secret_key user) = Inr ()"
    "pe_get_running env (ud_access_key user) profile = None"
  | (minted) e where "eff = Minted e" "action = RouteCreateSession" "\<not> validated"
    "verify_with env rq hs (ud_secret_key user) = Inr ()"
    "real_access_key e = ud_access_key user" "rc_bucket cls = Some (se_bucket e)" "se_bucket e \<noteq> []"
    "se_mode e = session_mode_from_header (hdr_text hs ''x-amz-create-session-mode'')"
    "expires_at_inst e = pe_instant env + ap_session_ttl app"
  using assms
  by (auto simp: route_request_def gated_reply_def route_create_session_def route_proxy_def Let_def validate_None
      unwrap_or_def dest!: session_create_grant
      split: option.splits sum.splits route_action.splits if_splits prod.splits)

text \<open>
  C2. Nothing is started or minted for a caller who has not authenticated. A worker is started only
  for the user whose session or whose long-term signature was verified, and only where none is
  running. A session is minted only for a caller whose long-term signature was verified, never from
  another session; it is the caller's own, for the bucket of the request, with the mode the request
  asks for and the configured life time.
\<close>
theorem request_filter_effects_authenticated:
  assumes "eff \<in> set (fr_effects (request_filter env app rq ctx))"
  shows "case eff of
      Spawned user profile \<Rightarrow>
        ((\<exists>e. session_authenticated env app rq e user) \<or> long_term_verified env app rq user) \<and>
        pe_get_running env (ud_access_key user) profile = None
    | Minted e \<Rightarrow>
        (\<exists>user. long_term_verified env app rq user \<and> real_access_key e = ud_access_key user) \<and>
        rc_bucket (classify_request env app rq (prepare_headers rq)) = Some (se_bucket e) \<and> se_bucket e \<noteq> [] \<and>
        se_mode e = session_mode_from_header (hdr_text (prepare_headers rq) ''x-amz-create-session-mode'') \<and>
        expires_at_inst e = pe_instant env + ap_session_ttl app"
proof (cases rule: request_filter_cases [of env app rq ctx])
  case early
  with assms show ?thesis
    by simp
next
  case (routed ctx1 app1 app3 action user validated)
  note auth = routed_authentication [OF routed(1,3)]
  have ttl: "ap_session_ttl app3 = ap_session_ttl app"
    using authenticate_ttl [OF routed(3)] admit_app [OF routed(1)] by simp
  from route_request_effects [OF routed(4) assms] show ?thesis
    by cases (use auth ttl in \<open>auto simp: long_term_verified_def split: if_splits\<close>)
qed

section \<open>An example\<close>

definition example_user :: user_doc where
  "example_user = \<lparr>ud_access_key = ''AK'', ud_secret_key = ''secret'', ud_username = ''ann'', ud_uid = 1000, ud_gid = 100\<rparr>"

definition example_handle :: worker_handle where
  "example_handle = \<lparr>wh_endpoint = Uds ''/run/w'', wh_worker_token = ''t0''\<rparr>"

definition example_session :: session_entry where
  "example_session = \<lparr>access_key = ''AK'', secret_key = ''ephemeral'', session_token = ''tok'', real_access_key = ''LONG'',
     se_bucket = ''b'', se_mode = ReadOnly, expires_at_inst = 300, expires_at_system = 300\<rparr>"

text \<open>No worker is running. The query carries a session token.\<close>

definition example_env :: proxy_env where
  "example_env = \<lparr>pe_sign = (\<lambda>_. Inr example_sig), pe_parse_date = (\<lambda>_. Inr (''20240101'', 1704067200)),
     pe_form_parse = (\<lambda>_. [(''X-Amz-S3session-Token'', ''tok'')]), pe_pdec = Some, pe_dbg = (\<lambda>s. s), pe_base64 = (\<lambda>s. s),
     pe_rand = \<lparr>rand_access = [], rand_secret = [], rand_uuid = []\<rparr>, pe_now = 1704067200 * nanos, pe_instant = 5,
     pe_directory = (\<lambda>_. Inr (Some example_user)), pe_buckets = (\<lambda>_. Inr []), pe_get_running = (\<lambda>_ _. None),
     pe_ensure_running = (\<lambda>_ _ _. Inr example_handle), pe_session_xml = (\<lambda>_. Inr [])\<rparr>"

definition example_app :: "(str, session_entry) fmap \<Rightarrow> proxy_app" where
  "example_app m = \<lparr>ap_limiter = limiter_new \<lparr>max_concurrent_requests_per_ip = 0, trusted_loopback_bypass = True,
       cfg_keepalive_idle_secs = 60\<rparr>,
     ap_sessions = (session_store_new 10 60)\<lparr>ss_inner := m\<rparr>, ap_session_ttl = 300,
     ap_class_map = (\<lambda>_. Some (RouteProxy ''p'')), ap_suffixes = []\<rparr>"

definition example_request :: request where
  "example_request = \<lparr>rq_method = ''GET'', rq_uri = \<lparr>uri_path = ''/b/k'', uri_query = Some ''x'', uri_authority = None\<rparr>,
     rq_headers = example_headers, rq_peer = Inet (V4 10 0 0 1)\<rparr>"

lemma example_prepared: "prepare_headers example_request = example_headers"
  by (simp add: prepare_headers_def example_request_def example_headers_def hdr_simps hdr_remove_def)

lemma example_no_sse: "detect_unsupported_sse example_headers = None"
  by code_simp

lemma cred_end_plain: "c \<noteq> CHR '','' \<Longrightarrow> \<not> ws_first c \<Longrightarrow> \<not> is_cred_end c"
  using white_space_first [of "[c]"] by (auto simp: is_cred_end_def)

lemma example_key:
  "extract_access_key_from_request (pe_form_parse example_env) (pe_dbg example_env) (rq_uri example_request) example_headers
     = Inr ''AK''"
proof -
  have after: "after_first ''Credential='' (''AWS4-HMAC-SHA256 Credential=AK/20240101/eu/s3/aws4_request,SignedHeaders=host,Signature='' @ example_sig)
      = Some (''AK/20240101/eu/s3/aws4_request,SignedHeaders=host,Signature='' @ example_sig)"
    by (simp add: starts_with_def)
  have "is_cred_end CHR '',''"
    by (simp add: is_cred_end_def)
  then have cred: "takeWhile (\<lambda>c. \<not> is_cred_end c) (''AK/20240101/eu/s3/aws4_request,SignedHeaders=host,Signature='' @ example_sig)
      = ''AK/20240101/eu/s3/aws4_request''"
    by (simp add: cred_end_plain ws_first_def)
  have auth: "hdr_get example_headers ''authorization'' = Some (Some
      (''AWS4-HMAC-SHA256 Credential=AK/20240101/eu/s3/aws4_request,SignedHeaders=host,Signature='' @ example_sig))"
    by (simp add: example_headers_def hdr_simps)
  show ?thesis
    unfolding extract_access_key_from_request_def extract_access_key_def hdr_contains_iff auth
      option.distinct simp_thms if_True ok_or_simps rbind_simps after cred by (simp add: Let_def)
qed

lemma example_params:
  "drop_presign (from_uri (pe_form_parse example_env) (rq_uri example_request)) = []"
proof -
  have "trim ''X-Amz-S3session-Token'' = ''X-Amz-S3session-Token''"
    by (rule trim_id) (simp add: ws_first_def ws_last_def)
  moreover have "is_sigv4_presign_key (to_ascii_lowercase ''X-Amz-S3session-Token'')"
    by code_simp
  ultimately show ?thesis
    by (simp add: drop_presign_from_uri plain_pairs_def example_env_def example_request_def)
qed

lemma example_classified:
  "rc_bucket (classify_request example_env (example_app m) example_request example_headers) = Some ''b''"
  "rc_op (classify_request example_env (example_app m) example_request example_headers) = Read GetObject"
proof -
  have "parse_bucket_key_auto Some ''GET'' (rq_uri example_request) (Some example_headers) [] = (Some ''b'', Some ''k'', False)"
    by (simp add: parse_bucket_key_auto_def parse_bucket_key_path_style_def example_headers_def hdr_simps
        example_request_def percent_decode_path_segments_lossy_def strip_prefix_def unwrap_or_def starts_with_def)
  moreover have "classify_op ''GET'' (Some ''b'') (Some ''k'') [] hs = Read GetObject" for hs
    by (simp add: classify_op_def classify_multipart_def classify_acl_tagging_def classify_versioning_def
        classify_object_lock_def classify_plain_def has_def first_def validate_xid_def is_empty_effective_def is_only_effective_def)
  then have "classify_op ''GET'' (Some ''b'') (Some ''k'') (from_uri (pe_form_parse example_env) (rq_uri example_request)) hs
      = Read GetObject" for hs
    using classify_op_drop_presign example_params by metis
  ultimately show "rc_bucket (classify_request example_env (example_app m) example_request example_headers) = Some ''b''"
    "rc_op (classify_request example_env (example_app m) example_request example_headers) = Read GetObject"
    by (simp_all add: classify_request_def classify_with_headers_def example_app_def example_env_def example_request_def Let_def)
qed

lemma example_verified: "verify_with example_env example_request example_headers secret = Inr ()"
  by (simp add: verify_with_def example_env_def example_request_def example_header_any)

lemma example_token: "provided_token (pe_form_parse example_env) (rq_uri example_request) example_headers = ''tok''"
proof -
  have "eq_ignore_ascii_case ''X-Amz-S3session-Token'' ''x-amz-s3session-token''"
    by code_simp
  then show ?thesis
    by (simp add: provided_token_def example_headers_def hdr_simps presign_session_token_from_query_def
        example_env_def example_request_def unwrap_or_def)
qed

lemma example_env_simps:
  "pe_instant example_env = 5" "pe_directory example_env = (\<lambda>_. Inr (Some example_user))"
  "pe_buckets example_env = (\<lambda>_. Inr [])" "pe_get_running example_env = (\<lambda>_ _. None)"
  "pe_ensure_running example_env = (\<lambda>_ _ _. Inr example_handle)"
  by (simp_all add: example_env_def)

lemma example_session_simps:
  "session_token example_session = ''tok''" "real_access_key example_session = ''LONG''" "se_bucket example_session = ''b''"
  "expires_at_inst example_session = 300"
  by (simp_all add: example_session_def)

abbreviation with_session :: proxy_app where
  "with_session \<equiv> example_app (fmupd ''AK'' example_session fmempty)"

lemma example_lookup:
  "session_lookup 5 ''AK'' (ap_sessions (started with_session)) = (Some example_session, ap_sessions (started with_session))"
  "session_lookup 5 ''AK'' (ap_sessions (started (example_app fmempty))) = (None, ap_sessions (started (example_app fmempty)))"
  by (simp_all add: example_app_def session_lookup_def start_cleanup_def example_session_simps)

lemma example_authenticate:
  "authenticate example_env (started with_session) example_request example_headers
     (classify_request example_env (example_app m) example_request example_headers) =
   (Inr (example_user, True), started with_session)"
  "authenticate example_env (started (example_app fmempty)) example_request example_headers cls =
   (Inr (example_user, False), started (example_app fmempty))"
  by (simp_all add: authenticate_def authenticate_session_def Let_def example_key example_token example_verified
      example_classified example_env_simps example_session_simps example_lookup del: started_simps)

lemma example_admit: "admit (example_app m) example_request ctx = (Inr ctx, example_app m)"
  by (simp add: admit_def limiter_acquire_def example_app_def example_request_def peer_ip_def limiter_new_def)

lemma example_route: "select_route (ap_class_map (started (example_app m))) k = Inr (RouteProxy ''p'')"
  by (simp add: select_route_def example_app_def)

lemma example_cls: "classify_request example_env (started (example_app m)) rq hs = classify_request example_env (example_app m) rq hs"
  by (rule classify_request_app) simp

lemmas example_filter = request_filter_def example_admit example_prepared example_route example_cls
  example_authenticate started_def [symmetric] Let_def route_request_def route_proxy_def example_no_sse
  example_env_simps validate_sigv4_header_only_or_reject_def example_verified

lemma example_forward:
  "fr_outcome (request_filter example_env with_session example_request new_ctx) = Forward"
  "cx_session_validated (fr_ctx (request_filter example_env with_session example_request new_ctx))"
  "fr_effects (request_filter example_env (example_app fmempty) example_request new_ctx) = [Spawned example_user ''p'']"
  by (simp_all add: example_filter select_worker_def del: started_simps)

theorem request_filter_forward_witness:
  "fr_outcome (request_filter example_env with_session example_request new_ctx) = Forward \<and>
   (\<exists>e user. session_authenticated example_env with_session example_request e user)"
  using request_filter_forward [OF example_forward(1)] example_forward(1,2) by (auto simp: Let_def)

theorem request_filter_effects_authenticated_witness:
  "Spawned example_user ''p'' \<in> set (fr_effects (request_filter example_env (example_app fmempty) example_request new_ctx)) \<and>
   pe_get_running example_env (ud_access_key example_user) ''p'' = None"
  using request_filter_effects_authenticated
    [of "Spawned example_user ''p''" example_env "example_app fmempty" example_request new_ctx] example_forward(3)
  by simp

section \<open>The upstream request\<close>

lemma foldl_remove: "hdr_get (foldl hdr_remove hs ns) k = (if k \<in> set ns then None else hdr_get hs k)"
  by (induction ns arbitrary: hs) (auto simp: hdr_get_remove)

definition upstream_names :: "str set" where
  "upstream_names = insert ''host'' (insert ''x-forwarded-for'' (insert ''x-s32p-validated'' (set HOP_BY_HOP)))"

lemma upstream_hdr_get:
  "hdr_get (upstream_request_filter client ctx hs) n =
     (if n = ''x-s32p-validated'' \<and> cx_session_validated ctx \<and> cx_worker ctx \<noteq> None
        then Some (Some (wh_worker_token (the (cx_worker ctx))))
      else if n \<in> set HOP_BY_HOP then None
      else if n = ''x-forwarded-for'' then
        (case client of NoPeer \<Rightarrow> None | Inet ip \<Rightarrow> Some (Some (ip_text ip)) | OtherSocket \<Rightarrow> Some (Some ''unix''))
      else if n = ''host'' \<and> cx_orig_host ctx \<noteq> None then Some (cx_orig_host ctx)
      else hdr_get hs n)"
  by (auto simp: upstream_request_filter_def Let_def hdr_get_insert hdr_get_remove foldl_remove HOP_BY_HOP_def
      split: peer.splits option.splits)

lemma prepare_hdr_get:
  "hdr_get (prepare_headers rq) n =
     (if n = ''x-s32p-validated'' then None
      else if n = ''host'' \<and> hdr_get (rq_headers rq) n = None then map_option Some (uri_authority (rq_uri rq))
      else hdr_get (rq_headers rq) n)"
  by (auto simp: prepare_headers_def Let_def hdr_get_insert hdr_get_remove split: option.splits)

lemma request_filter_forward_ctx:
  assumes "fr_outcome (request_filter env app rq ctx) = Forward"
  shows "fr_headers (request_filter env app rq ctx) = prepare_headers rq"
    and "cx_worker (fr_ctx (request_filter env app rq ctx)) \<noteq> None"
    and "cx_orig_host (fr_ctx (request_filter env app rq ctx)) = hdr_text (prepare_headers rq) ''host''"
proof -
  let ?r = "request_filter env app rq ctx"
  have "fr_headers ?r = prepare_headers rq \<and> cx_worker (fr_ctx ?r) \<noteq> None \<and>
        cx_orig_host (fr_ctx ?r) = hdr_text (prepare_headers rq) ''host''"
  proof (cases rule: request_filter_cases [of env app rq ctx])
    case early
    with assms show ?thesis
      by simp
  next
    case (routed ctx1 app1 app3 action user validated)
    then show ?thesis
      using assms by (auto elim!: route_request_forward simp: select_worker_def set_user_def)
  qed
  then show "fr_headers ?r = prepare_headers rq" "cx_worker (fr_ctx ?r) \<noteq> None"
    "cx_orig_host (fr_ctx ?r) = hdr_text (prepare_headers rq) ''host''"
    by simp_all
qed



end
