(* ===== verification/Proxy_Lifecycle.thy ===== *)
theory Proxy_Lifecycle
  imports Proxy_Filter
begin

text \<open>
  The proxy over many requests: histories of arrivals and completions, which refine the admission
  contract of \<open>Conn_Limit\<close>; and what callers without valid credentials learn from the answers, and
  readers of the log from the requests.
\<close>

section \<open>Histories of requests\<close>

text \<open>
  Requests, named by \<open>'r\<close>, run concurrently. The filter of one takes its slot in its first,
  atomic, step; \<open>logging\<close> is the last step of every request, however it ends.
\<close>

datatype 'r proxy_event = Begin 'r proxy_env request | Log 'r

fun proxy_step ::
  "proxy_app \<times> ('r \<rightharpoonup> proxy_ctx) \<Rightarrow> 'r proxy_event \<Rightarrow> proxy_app \<times> ('r \<rightharpoonup> proxy_ctx)" where
  "proxy_step (app, open) (Begin r env rq) =
     (if r \<in> dom open then (app, open)
      else (let res = request_filter env app rq new_ctx in (fr_app res, open(r \<mapsto> fr_ctx res))))"
| "proxy_step (app, open) (Log r) =
     (case open r of
        Some ctx \<Rightarrow> (fst (logging_release app ctx), open(r := None))
      | None \<Rightarrow> (app, open))"

definition slots :: "('r \<rightharpoonup> proxy_ctx) \<Rightarrow> 'r \<rightharpoonup> ip_addr" where
  "slots open r = Option.bind (open r) cx_limiter_slot"

definition abs_state :: "proxy_app \<times> ('r \<rightharpoonup> proxy_ctx) \<Rightarrow> connection_limiter \<times> ('r \<rightharpoonup> ip_addr)" where
  "abs_state s = (ap_limiter (fst s), slots (snd s))"

lemma route_request_slot:
  assumes "route_request env app rq hs cls action user validated ctx = (out, ctx', app', effs)"
  shows "cx_limiter_slot ctx' = cx_limiter_slot ctx \<and> ap_limiter app' = ap_limiter app"
  using assms
  by (auto simp: route_request_def route_create_session_def route_proxy_def select_worker_def Let_def
      split: option.splits sum.splits route_action.splits if_splits prod.splits)

lemma admit_slot:
  "admit app rq ctx = (res, app1) \<Longrightarrow> limiter_acquire (ap_limiter app) (peer_ip (rq_peer rq)) = (l, out) \<Longrightarrow>
   ap_limiter app1 = l \<and>
   (case out of Acquired ip \<Rightarrow> res = Inr (ctx\<lparr>cx_limiter_slot := Some ip\<rparr>)
      | Bypassed \<Rightarrow> res = Inr ctx | Throttled ip \<Rightarrow> isl res)"
  by (auto simp: admit_def split: acquire_outcome.splits)

text \<open>Whatever the filter does, its context holds the slot exactly when the limiter granted one.\<close>

lemma request_filter_slot:
  assumes "limiter_acquire (ap_limiter app) (peer_ip (rq_peer rq)) = (l, out)"
    and "cx_limiter_slot ctx = None"
  shows "ap_limiter (fr_app (request_filter env app rq ctx)) = l"
    and "cx_limiter_slot (fr_ctx (request_filter env app rq ctx)) = (case out of Acquired ip \<Rightarrow> Some ip | _ \<Rightarrow> None)"
proof -
  obtain res app1 where adm: "admit app rq ctx = (res, app1)"
    by fastforce
  note slot = admit_slot [OF adm assms(1)]
  have "ap_limiter (fr_app (request_filter env app rq ctx)) = l \<and>
    cx_limiter_slot (fr_ctx (request_filter env app rq ctx)) = (case out of Acquired ip \<Rightarrow> Some ip | _ \<Rightarrow> None)"
    using slot assms(2)
    by (auto simp: request_filter_def adm Let_def set_user_def
        dest!: authenticate_ttl(2) route_request_slot
        split: sum.splits prod.splits acquire_outcome.splits)
  then show "ap_limiter (fr_app (request_filter env app rq ctx)) = l"
    "cx_limiter_slot (fr_ctx (request_filter env app rq ctx)) = (case out of Acquired ip \<Rightarrow> Some ip | _ \<Rightarrow> None)"
    by simp_all
qed

lemma slots_upd: "slots (open(r := c)) = (slots open)(r := Option.bind c cx_limiter_slot)"
  by (auto simp: slots_def)

text \<open>Each step of the proxy is a step of the admission contract, or leaves its state alone.\<close>

lemma proxy_step_refines:
  "abs_state (proxy_step s e) = abs_state s \<or> (\<exists>ev. abs_state (proxy_step s e) = limits.serve (abs_state s) ev)"
proof (cases e)
  case (Begin r env rq)
  obtain app "open" where s: "s = (app, open)"
    by fastforce
  obtain l out where acq: "limiter_acquire (ap_limiter app) (peer_ip (rq_peer rq)) = (l, out)"
    by fastforce
  have slot: "cx_limiter_slot new_ctx = None"
    by (simp add: new_ctx_def)
  show ?thesis
  proof (cases "r \<in> dom open")
    case False
    then have none: "slots open r = None"
      by (simp add: slots_def domIff)
    have "abs_state (proxy_step s e) = limits.serve (abs_state s) (Arrive r (peer_ip (rq_peer rq)))"
      using False none acq request_filter_slot [OF acq slot, of env]
      by (cases out) (simp_all add: Begin s abs_state_def Let_def slots_upd domIff fun_upd_idem)
    then show ?thesis
      by blast
  qed (simp add: Begin s)
next
  case (Log r)
  obtain app "open" where s: "s = (app, open)"
    by fastforce
  show ?thesis
  proof (cases "open r")
    case (Some ctx)
    have "abs_state (proxy_step s e) = limits.serve (abs_state s) (Finish r)"
      using Some
      by (cases "cx_limiter_slot ctx")
         (simp_all add: Log s abs_state_def logging_release_def slots_upd slots_def [of "open" r] fun_upd_idem)
    then show ?thesis
      by blast
  qed (simp add: Log s)
qed

lemma proxy_run_refines:
  "\<exists>evs. abs_state (foldl proxy_step s es) = foldl limits.serve (abs_state s) evs"
proof (induction es rule: rev_induct)
  case Nil
  have "abs_state (foldl proxy_step s []) = foldl limits.serve (abs_state s) []"
    by simp
  then show ?case
    by blast
next
  case (snoc e es)
  then obtain evs where evs: "abs_state (foldl proxy_step s es) = foldl limits.serve (abs_state s) evs"
    by blast
  show ?case
    using proxy_step_refines [of "foldl proxy_step s es" e]
  proof
    assume "abs_state (proxy_step (foldl proxy_step s es) e) = abs_state (foldl proxy_step s es)"
    with evs have "abs_state (foldl proxy_step s (es @ [e])) = foldl limits.serve (abs_state s) evs"
      by simp
    then show ?thesis
      by (rule exI)
  next
    assume "\<exists>ev. abs_state (proxy_step (foldl proxy_step s es) e) = limits.serve (abs_state (foldl proxy_step s es)) ev"
    then obtain ev where "abs_state (foldl proxy_step s (es @ [e])) = foldl limits.serve (abs_state s) (evs @ [ev])"
      using evs by auto
    then show ?thesis
      by (rule exI)
  qed
qed

text \<open>
  C7. However requests interleave and however they end, the proxy neither leaks nor loses a slot:
  the counter of an address is the number of its open requests that took one, at most the
  configured maximum, and zero once every request was logged.
\<close>
theorem proxy_slots_balanced:
  assumes "ap_limiter app0 = limiter_new cfg"
    and "(app, open) = foldl proxy_step (app0, Map.empty) es"
  shows "limiter_count (ap_limiter app) ip = card {r. \<exists>ctx. open r = Some ctx \<and> cx_limiter_slot ctx = Some ip} \<and>
         limiter_count (ap_limiter app) ip \<le> unat (max_concurrent_requests_per_ip cfg) \<and>
         (open = Map.empty \<longrightarrow> limiter_count (ap_limiter app) ip = 0)"
proof -
  have init: "abs_state (app0, Map.empty) = (limiter_new cfg, Map.empty)"
    using assms(1) by (auto simp: abs_state_def slots_def)
  have "limits.consistent (limiter_new cfg, Map.empty)"
    by (simp add: limits.consistent_def limits.holders_def limiter_count_def limiter_new_def)
  moreover obtain evs where evs: "abs_state (app, open) = foldl limits.serve (limiter_new cfg, Map.empty) evs"
    using proxy_run_refines [of "(app0, Map.empty)" es] assms(2) init by metis
  ultimately have "limits.consistent (ap_limiter app, slots open)"
    using limits.consistent_run by (metis abs_state_def fst_conv snd_conv)
  then have "limiter_count (ap_limiter app) ip = card {r. slots open r = Some ip}"
    "card {r. slots open r = Some ip} \<le> unat (per_ip (ap_limiter app))"
    by (simp_all add: limits.consistent_def limits.holders_def)
  moreover have "per_ip (ap_limiter app) = max_concurrent_requests_per_ip cfg"
    using serve_run_config [of "(limiter_new cfg, Map.empty)" evs] evs [symmetric]
    by (simp add: abs_state_def limiter_new_def)
  moreover have "{r. slots open r = Some ip} = {r. \<exists>ctx. open r = Some ctx \<and> cx_limiter_slot ctx = Some ip}"
    by (auto simp: slots_def bind_eq_Some_conv)
  ultimately show ?thesis
    by simp
qed

theorem proxy_slots_balanced_witness:
  "\<exists>app open. (app, open) = foldl proxy_step
       ((example_app fmempty)\<lparr>ap_limiter := limiter_new \<lparr>max_concurrent_requests_per_ip = 4, trusted_loopback_bypass = False,
          cfg_keepalive_idle_secs = 60\<rparr>\<rparr>, Map.empty)
       [Begin (0 :: nat) example_env example_request, Begin 1 example_env example_request, Log 0] \<and>
     limiter_count (ap_limiter app) (V4 10 0 0 1) \<le> 4"
proof -
  let ?cfg = "\<lparr>max_concurrent_requests_per_ip = 4, trusted_loopback_bypass = False, cfg_keepalive_idle_secs = 60\<rparr>"
  obtain app "open" where run: "(app, open) = foldl proxy_step
      ((example_app fmempty)\<lparr>ap_limiter := limiter_new ?cfg\<rparr>, Map.empty)
      [Begin (0 :: nat) example_env example_request, Begin 1 example_env example_request, Log 0]"
    by (metis surj_pair)
  have "ap_limiter ((example_app fmempty)\<lparr>ap_limiter := limiter_new ?cfg\<rparr>) = limiter_new ?cfg"
    by simp
  from proxy_slots_balanced [OF this run, of "V4 10 0 0 1"] run show ?thesis
    by auto
qed

section \<open>Callers without valid credentials\<close>

lemma filter_rejected_early:
  assumes "admit app rq ctx = (Inr ctx1, app1)"
    and "select_route (ap_class_map app) (class_key (classify_request env app rq (prepare_headers rq))) = Inr action"
    and "\<And>app' cls. authenticate env app' rq (prepare_headers rq) cls = (Inl out, app')"
  shows "fr_outcome (request_filter env app rq ctx) = out" "fr_effects (request_filter env app rq ctx) = []"
proof -
  have "classify_request env (started app1) rq hs = classify_request env app rq hs" for hs
    by (rule classify_request_app) (simp add: admit_app [OF assms(1)])
  moreover have "ap_class_map (started app1) = ap_class_map app"
    by (simp add: admit_app [OF assms(1)])
  ultimately show "fr_outcome (request_filter env app rq ctx) = out" "fr_effects (request_filter env app rq ctx) = []"
    using assms by (simp_all add: request_filter_def Let_def started_def [symmetric] del: started_simps)
qed

text \<open>
  A request without credentials is answered with \<open>403 AccessDenied\<close> whatever it asks for and
  however it is routed, and has no effect. So \<open>HEAD /\<close>, which is answered with
  \<open>405 MethodNotAllowed\<close> under the \<open>AwsCompat\<close> route, is so only for callers who sign it.
\<close>
theorem no_credentials_denied:
  assumes "extract_access_key_from_request (pe_form_parse env) (pe_dbg env) (rq_uri rq) (prepare_headers rq) = Inl err"
    and "admit app rq ctx = (Inr ctx1, app1)"
    and "select_route (ap_class_map app) (class_key (classify_request env app rq (prepare_headers rq))) = Inr action"
  shows "fr_outcome (request_filter env app rq ctx) =
           Replied (access_denied ''invalid or missing credentials'' (Some (uri_path (rq_uri rq)))) \<and>
         rp_status (access_denied ''invalid or missing credentials'' (Some (uri_path (rq_uri rq)))) = 403 \<and>
         fr_effects (request_filter env app rq ctx) = []"
proof -
  have "authenticate env app' rq (prepare_headers rq) cls =
      (Inl (Replied (access_denied ''invalid or missing credentials'' (Some (uri_path (rq_uri rq))))), app')" for app' cls
    using assms(1) by (simp add: authenticate_def)
  from filter_rejected_early [OF assms(2,3) this] show ?thesis
    by (simp add: access_denied_def s3_error_def)
qed

definition head_request :: request where
  "head_request = \<lparr>rq_method = ''HEAD'', rq_uri = \<lparr>uri_path = ''/'', uri_query = None, uri_authority = None\<rparr>,
     rq_headers = [(''host'', Some ''h'')], rq_peer = Inet (V4 10 0 0 1)\<rparr>"

theorem no_credentials_denied_witness:
  "rc_op (classify_request example_env ((example_app fmempty)\<lparr>ap_class_map := (\<lambda>_. Some RouteAwsCompat)\<rparr>)
     head_request (prepare_headers head_request)) = HeadService \<and>
   rp_status (aws_compat_response HeadService (Some ''/'')) = 405 \<and>
   fr_outcome (request_filter example_env ((example_app fmempty)\<lparr>ap_class_map := (\<lambda>_. Some RouteAwsCompat)\<rparr>)
     head_request new_ctx) = Replied (access_denied ''invalid or missing credentials'' (Some ''/''))"
proof -
  let ?app = "(example_app fmempty)\<lparr>ap_class_map := (\<lambda>_. Some RouteAwsCompat)\<rparr>"
  have hs: "prepare_headers head_request = [(''host'', Some ''h'')]"
    by (simp add: prepare_headers_def head_request_def hdr_simps hdr_remove_def)
  have key: "extract_access_key_from_request (pe_form_parse example_env) (pe_dbg example_env) (rq_uri head_request)
      (prepare_headers head_request) = Inl (Err ''missing Authorization and missing presign params'')"
    unfolding hs by (simp add: extract_access_key_from_request_def hdr_simps parse_presigned_query_def head_request_def)
  have adm: "admit ?app head_request new_ctx = (Inr new_ctx, ?app)"
    by (simp add: admit_def limiter_acquire_def example_app_def head_request_def peer_ip_def limiter_new_def)
  have route: "select_route (ap_class_map ?app) k = Inr RouteAwsCompat" for k
    by (simp add: select_route_def)
  have "rc_op (classify_request example_env ?app head_request (prepare_headers head_request)) = HeadService"
    unfolding hs
    by (simp add: classify_request_def classify_with_headers_def parse_bucket_key_auto_def parse_bucket_key_path_style_def
        head_request_def example_app_def hdr_simps from_uri_def classify_op_def is_empty_effective_def)
  then show ?thesis
    using no_credentials_denied [OF key adm route]
    by (simp add: head_request_def aws_compat_response_def method_not_allowed_def s3_error_def)
qed

text \<open>
  A caller whose signature does not verify learns nothing of the routing table: where no worker
  of the named user is running, the answer is the rejection of the signature for every route the
  request may have, and nothing is started or minted.
\<close>
theorem rejected_reply_hides_routes:
  assumes "long_term_named env app rq user"
    and "verify_with env rq (prepare_headers rq) (ud_secret_key user) = Inl rej"
    and "detect_unsupported_sse (prepare_headers rq) = None"
    and "\<forall>profile. pe_get_running env (ud_access_key user) profile = None"
    and "admit app rq ctx = (Inr ctx1, app1)"
    and "select_route (ap_class_map app) (class_key (classify_request env app rq (prepare_headers rq))) = Inr action"
  shows "fr_outcome (request_filter env app rq ctx) = Replied (rejection_reply rej) \<and>
         fr_effects (request_filter env app rq ctx) = []"
proof -
  let ?hs = "prepare_headers rq"
  have cls: "classify_request env (started app1) rq hs = classify_request env app rq hs" for hs
    by (rule classify_request_app) (simp add: admit_app [OF assms(5)])
  have map: "ap_class_map (started app1) = ap_class_map app"
    by (simp add: admit_app [OF assms(5)])
  from assms(1) obtain key where
    key: "extract_access_key_from_request (pe_form_parse env) (pe_dbg env) (rq_uri rq) ?hs = Inr key"
    and none: "fst (session_lookup (pe_instant env) key (ap_sessions app)) = None"
    and dir: "pe_directory env key = Inr (Some user)"
    by (auto simp: long_term_named_def)
  have "fst (session_lookup (pe_instant env) key (ap_sessions (started app1))) = None"
    using none by (simp add: session_lookup_started admit_app [OF assms(5)])
  then obtain st where "session_lookup (pe_instant env) key (ap_sessions (started app1)) = (None, st)"
    by (metis fst_conv surj_pair)
  then have auth: "authenticate env (started app1) rq ?hs cls = (Inr (user, False), (started app1)\<lparr>ap_sessions := st\<rparr>)" for cls
    using key dir by (simp add: authenticate_def del: started_simps)
  have val: "validate_sigv4_header_only_or_reject env rq ?hs user = Some (Replied (rejection_reply rej))"
    using assms(2) by (simp add: validate_sigv4_header_only_or_reject_def)
  show ?thesis
    using assms(3,4,6) val
    by (cases action)
       (simp_all add: request_filter_def assms(5) Let_def started_def [symmetric] cls map auth route_request_def
         gated_reply_def route_create_session_def route_proxy_def del: started_simps)
qed

theorem rejected_reply_hides_routes_witness:
  "\<exists>rej. verify_with (example_env\<lparr>pe_parse_date := (\<lambda>_. Inl ''bad'')\<rparr>) example_request example_headers ''secret'' = Inl rej \<and>
     fr_outcome (request_filter (example_env\<lparr>pe_parse_date := (\<lambda>_. Inl ''bad'')\<rparr>) (example_app fmempty) example_request new_ctx)
       = Replied (rejection_reply rej)"
proof -
  let ?env = "example_env\<lparr>pe_parse_date := (\<lambda>_. Inl ''bad'')\<rparr>"
  have "verify_with ?env example_request example_headers ''secret'' \<noteq> Inr ()"
    by (auto simp: verify_with_def verify_sigv4_request_any_def reject_def rbind_Inr_iff parse_amz_date_def Let_def
        example_env_def example_headers_def hdr_simps split: sum.splits if_splits dest!: header_only_ok)
  then obtain rej where rej: "verify_with ?env example_request example_headers ''secret'' = Inl rej"
    by (cases "verify_with ?env example_request example_headers ''secret''") auto
  have named: "long_term_named ?env (example_app fmempty) example_request example_user"
    using example_key
    by (simp add: long_term_named_def example_prepared example_env_simps)
       (simp add: example_app_def session_lookup_def)
  have user: "ud_secret_key example_user = ''secret''"
    by (simp add: example_user_def)
  have route: "select_route (ap_class_map (example_app fmempty)) k = Inr (RouteProxy ''p'')" for k
    using example_route [of fmempty k] by simp
  show ?thesis
    using rejected_reply_hides_routes [OF named _ _ _ example_admit route, of rej] rej
    by (auto simp: example_prepared user example_no_sse example_env_simps)
qed

section \<open>The access log\<close>

text \<open>
  The token of a session is written to the access log. When the query of a presigned request
  carries it and the proxy takes it from there, the logged line contains the parameter in full:
  redaction covers the signature and the STS token, not the session token.
\<close>
theorem session_token_logged:
  assumes "uri_query (rq_uri rq) = Some (join ''&'' (pre @ (key @ ''='' @ tok) # post))"
    and "\<forall>kv\<in>set (pre @ key # tok # post). CHR ''&'' \<notin> set kv"
    and "eq_ignore_ascii_case key ''x-amz-s3session-token''" "CHR ''='' \<notin> set key"
    and "hdr_text hs ''x-amz-s3session-token'' = None"
    and "first_session_token (form_parse (join ''&'' (pre @ (key @ ''='' @ tok) # post))) = Some tok"
  shows "provided_token form_parse (rq_uri rq) hs = tok \<and>
         (\<exists>before after. log_summary rq hs = before @ key @ ''='' @ tok @ after)"
proof -
  let ?q = "join ''&'' (pre @ (key @ ''='' @ tok) # post)"
  have split: "split_on CHR ''&'' ?q = pre @ (key @ ''='' @ tok) # post"
    by (rule split_on_join) (use assms(2) in auto)
  have "to_ascii_lowercase ''x-amz-s3session-token'' \<noteq> to_ascii_lowercase ''X-Amz-Signature''"
    "to_ascii_lowercase ''x-amz-s3session-token'' \<noteq> to_ascii_lowercase ''X-Amz-Security-Token''"
    by code_simp+
  with assms(3) have "\<not> is_sensitive_param key"
    unfolding is_sensitive_param_def eq_ignore_ascii_case_def by metis
  then have same: "redact_param (key @ ''='' @ tok) = key @ ''='' @ tok"
    using assms(4) by (simp add: redact_param_def)
  have ne: "?q \<noteq> []"
    using split by (cases "?q = []") (auto simp: Cons_eq_append_conv)
  have "redact_query_for_log ?q = join ''&'' (map redact_param pre @ (key @ ''='' @ tok) # map redact_param post)"
    unfolding redact_query_eq split map_append list.map same by simp
  moreover have "\<exists>before after. join ''&'' (xs @ x # ys) = before @ x @ after" for xs ys and x :: str
  proof (induction xs)
    case Nil
    then show ?case
      by (cases ys) (auto intro: exI [of _ "[]"])
  next
    case (Cons z zs)
    then obtain before after where "join ''&'' (zs @ x # ys) = before @ x @ after"
      by blast
    then have "join ''&'' ((z # zs) @ x # ys) = (z @ ''&'' @ before) @ x @ after"
      by (cases zs) auto
    then show ?case
      by blast
  qed
  ultimately obtain before after where "redact_query_for_log ?q = before @ (key @ ''='' @ tok) @ after"
    by metis
  then have "log_summary rq hs = (rq_method rq @ '' '' @ uri_path (rq_uri rq) @ ''?'' @ before) @ key @ ''='' @ tok @
      (after @ '', Host: '' @ unwrap_or (hdr_text hs ''host'') ''<missing>'')"
    using assms(1) by (simp add: log_summary_def redact_uri_for_log_def)
  moreover have "provided_token form_parse (rq_uri rq) hs = tok"
    using assms(1,5,6) ne by (simp add: provided_token_def presign_session_token_from_query_def unwrap_or_def)
  ultimately show ?thesis
    by blast
qed

theorem session_token_logged_witness:
  "\<exists>before after. log_summary
     \<lparr>rq_method = ''GET'', rq_uri = \<lparr>uri_path = ''/b/k'', uri_query = Some ''X-Amz-S3session-Token=tok'', uri_authority = None\<rparr>,
      rq_headers = [], rq_peer = NoPeer\<rparr> [] = before @ ''X-Amz-S3session-Token=tok'' @ after"
proof -
  have "eq_ignore_ascii_case ''X-Amz-S3session-Token'' ''x-amz-s3session-token''"
    by code_simp
  then show ?thesis
    using session_token_logged [of "\<lparr>rq_method = ''GET'', rq_uri = \<lparr>uri_path = ''/b/k'',
        uri_query = Some ''X-Amz-S3session-Token=tok'', uri_authority = None\<rparr>, rq_headers = [], rq_peer = NoPeer\<rparr>"
        "[]" "''X-Amz-S3session-Token''" "''tok''" "[]" "[]" "\<lambda>_. [(''X-Amz-S3session-Token'', ''tok'')]"]
    by (simp add: hdr_simps)
qed

end
