(* ===== verification/Utf8.thy ===== *)
theory Utf8
  imports Rust_Std
begin

text \<open>
  UTF-8 as the standard library checks it: \<open>str::from_utf8\<close>, and \<open>String::from_utf8_lossy\<close>, which
  replaces each maximal invalid prefix by U+FFFD.
\<close>

definition in_bytes :: "nat \<Rightarrow> nat \<Rightarrow> char \<Rightarrow> bool" where
  "in_bytes lo hi c \<longleftrightarrow> lo \<le> byte c \<and> byte c \<le> hi"

abbreviation is_cont :: "char \<Rightarrow> bool" where
  "is_cont \<equiv> in_bytes 0x80 0xbf"

text \<open>The second byte that may follow the first of a sequence of three or of four.\<close>

definition second_of_3 :: "char \<Rightarrow> char \<Rightarrow> bool" where
  "second_of_3 a b \<longleftrightarrow>
     byte a = 0xe0 \<and> in_bytes 0xa0 0xbf b \<or> in_bytes 0xe1 0xec a \<and> is_cont b \<or>
     byte a = 0xed \<and> in_bytes 0x80 0x9f b \<or> in_bytes 0xee 0xef a \<and> is_cont b"

definition second_of_4 :: "char \<Rightarrow> char \<Rightarrow> bool" where
  "second_of_4 a b \<longleftrightarrow>
     byte a = 0xf0 \<and> in_bytes 0x90 0xbf b \<or> in_bytes 0xf1 0xf3 a \<and> is_cont b \<or>
     byte a = 0xf4 \<and> in_bytes 0x80 0x8f b"

text \<open>
  What starts here: a character of the given length, or an invalid prefix of the given length.
\<close>

datatype utf8_head = Valid nat | Invalid nat

fun nth_is :: "(char \<Rightarrow> bool) \<Rightarrow> str \<Rightarrow> nat \<Rightarrow> bool" where
  "nth_is P s i = (i < length s \<and> P (s ! i))"

definition utf8_head :: "str \<Rightarrow> utf8_head" where
  "utf8_head s =
     (let a = hd s in
      if byte a < 0x80 then Valid 1
      else if in_bytes 0xc2 0xdf a then (if nth_is is_cont s 1 then Valid 2 else Invalid 1)
      else if in_bytes 0xe0 0xef a then
        (if \<not> nth_is (second_of_3 a) s 1 then Invalid 1
         else if \<not> nth_is is_cont s 2 then Invalid 2 else Valid 3)
      else if in_bytes 0xf0 0xf4 a then
        (if \<not> nth_is (second_of_4 a) s 1 then Invalid 1
         else if \<not> nth_is is_cont s 2 then Invalid 2
         else if \<not> nth_is is_cont s 3 then Invalid 3 else Valid 4)
      else Invalid 1)"

lemma utf8_head_pos: "utf8_head s = Valid n \<Longrightarrow> 0 < n" "utf8_head s = Invalid n \<Longrightarrow> 0 < n"
  by (auto simp: utf8_head_def Let_def split: if_splits)

lemma utf8_head_length:
  "s \<noteq> [] \<Longrightarrow> utf8_head s = Valid n \<Longrightarrow> n \<le> length s" "s \<noteq> [] \<Longrightarrow> utf8_head s = Invalid n \<Longrightarrow> n \<le> length s"
  by (cases s; auto simp: utf8_head_def Let_def Suc_le_eq split: if_splits)+

function from_utf8 :: "str \<Rightarrow> bool" where
  "from_utf8 s = (if s = [] then True
     else (case utf8_head s of Valid n \<Rightarrow> from_utf8 (drop n s) | Invalid n \<Rightarrow> False))"
  by pat_completeness auto
termination
  by (relation "measure length") (auto dest: utf8_head_pos)

definition REPLACEMENT :: str where
  "REPLACEMENT = bytes [0xef, 0xbf, 0xbd]"

function from_utf8_lossy :: "str \<Rightarrow> str" where
  "from_utf8_lossy s = (if s = [] then []
     else (case utf8_head s of
         Valid n \<Rightarrow> take n s @ from_utf8_lossy (drop n s)
       | Invalid n \<Rightarrow> REPLACEMENT @ from_utf8_lossy (drop n s)))"
  by pat_completeness auto
termination
  by (relation "measure length") (auto dest: utf8_head_pos)

declare from_utf8.simps [simp del] from_utf8_lossy.simps [simp del]

lemma from_utf8_Nil [simp]: "from_utf8 []" "from_utf8_lossy [] = []"
  by (simp_all add: from_utf8.simps from_utf8_lossy.simps)

lemma from_utf8_lossy_id: "from_utf8 s \<Longrightarrow> from_utf8_lossy s = s"
proof (induction s rule: from_utf8.induct)
  case (1 s)
  then show ?case
    by (cases "s = []") (auto simp: from_utf8.simps [of s] from_utf8_lossy.simps [of s] split: utf8_head.splits)
qed

text \<open>A prefix of the text decides about the character that starts it.\<close>

lemma nth_is_take: "i < n \<Longrightarrow> n \<le> length s \<Longrightarrow> nth_is P (take n s @ t) i = nth_is P s i"
  by (simp add: nth_append)

lemma utf8_head_take:
  assumes "s \<noteq> []" "utf8_head s = Valid n"
  shows "utf8_head (take n s @ t) = Valid n"
proof -
  have "n \<le> length s"
    using utf8_head_length(1) assms by blast
  moreover have "hd (take n s @ t) = hd s"
    using assms utf8_head_pos(1) by (cases s; cases n) auto
  ultimately show ?thesis
    using assms(2) nth_is_take [of _ n s _ t]
    by (simp add: utf8_head_def Let_def del: nth_is.simps split: if_splits)
qed

lemma from_utf8_lossy_valid: "from_utf8 (from_utf8_lossy s)"
proof (induction s rule: from_utf8_lossy.induct)
  case (1 s)
  show ?case
  proof (cases "s = []")
    case False
    show ?thesis
    proof (cases "utf8_head s")
      case (Valid n)
      then have "utf8_head (take n s @ from_utf8_lossy (drop n s)) = Valid n" "n \<le> length s" "0 < n"
        using False utf8_head_take utf8_head_length utf8_head_pos by blast+
      moreover have "from_utf8 (from_utf8_lossy (drop n s))"
        using 1 False Valid by blast
      ultimately show ?thesis
        using False Valid
        by (subst from_utf8_lossy.simps) (simp add: from_utf8.simps [of "take n s @ _"])
    next
      case (Invalid n)
      have "utf8_head (REPLACEMENT @ from_utf8_lossy (drop n s)) = Valid 3"
        by (simp add: utf8_head_def REPLACEMENT_def bytes_def in_bytes_def second_of_3_def)
      moreover have "from_utf8 (from_utf8_lossy (drop n s))"
        using 1 False Invalid by blast
      moreover have "length REPLACEMENT = 3"
        by (simp add: REPLACEMENT_def bytes_def)
      ultimately show ?thesis
        using False Invalid
        by (subst from_utf8_lossy.simps) (simp add: from_utf8.simps [of "REPLACEMENT @ _"])
    qed
  qed simp
qed

lemma ascii_from_utf8: "\<forall>c\<in>set s. byte c < (128 :: nat) \<Longrightarrow> from_utf8 s"
proof (induction s)
  case (Cons a s)
  then show ?case
    by (subst from_utf8.simps) (simp add: utf8_head_def)
qed simp

end
