(* ===== verification/Fs_Helpers.thy ===== *)
theory Fs_Helpers
  imports Http_Utils Utf8
begin

text \<open>
  The file helpers of the gateway, \<open>crates/s32p-gateway/src/fs_helpers.rs\<close>: alignment, the path of
  an object, modification times, preallocation and the extended attributes that keep tags, user
  metadata and the content type. A path is its bytes. The system calls are parameters.
\<close>

section \<open>Alignment\<close>

definition ALIGN :: u64 where
  "ALIGN = 4096"

definition align_down :: "u64 \<Rightarrow> u64 \<Rightarrow> u64" where
  "align_down x a = (x div a) * a"

definition align_up :: "u64 \<Rightarrow> u64 \<Rightarrow> u64" where
  "align_up x a = (saturating_add x (a - 1) div a) * a"

lemma div_round: "0 < a \<Longrightarrow> n < n div a * a + a" "n div a * a \<le> (n :: nat)"
  using div_mult_mod_eq [of n a] mod_less_divisor [of a n] by linarith+

lemma unat_align_down: "unat (align_down x a) = unat x div unat a * unat a"
proof -
  have "unat x div unat a * unat a < 18446744073709551616"
    using div_round(2) [of "unat x" "unat a"] u64_bound [of x] by linarith
  then show ?thesis
    by (simp add: align_down_def unat_mult_lem [THEN iffD1] unat_div_distrib)
qed

lemma align_down_bounds:
  assumes "0 < a"
  shows "align_down x a \<le> x" "unat x < unat (align_down x a) + unat a" "unat (align_down x a) mod unat a = 0"
  using assms div_round(1) [of "unat a" "unat x"] div_round(2) [of "unat x" "unat a"]
  by (simp_all add: word_le_nat_alt unat_align_down word_greater_zero_iff unat_gt_0)

lemma unat_align_up:
  assumes "0 < a" "unat x + (unat a - 1) < 18446744073709551616"
  shows "unat (align_up x a) = (unat x + (unat a - 1)) div unat a * unat a"
proof -
  have "unat (a - 1) = unat a - 1"
    using assms(1) by (simp add: unat_minus_one_pos)
  then have "unat (saturating_add x (a - 1)) = unat x + (unat a - 1)"
    using assms(2) unat_add_lem [of x "a - 1"] by (simp add: saturating_add_def)
  then show ?thesis
    using unat_align_down [of "saturating_add x (a - 1)" a] by (simp add: align_up_def align_down_def)
qed

lemma align_up_bounds:
  assumes "0 < a" "unat x + (unat a - 1) < 18446744073709551616"
  shows "x \<le> align_up x a" "unat (align_up x a) < unat x + unat a" "unat (align_up x a) mod unat a = 0"
proof -
  let ?y = "unat x + (unat a - 1)"
  have a: "0 < unat a"
    using assms(1) by (simp add: unat_gt_0)
  then have "unat x \<le> ?y div unat a * unat a" "?y div unat a * unat a < unat x + unat a"
    using div_round(1) [of "unat a" ?y] div_round(2) [of ?y "unat a"] by linarith+
  then show "x \<le> align_up x a" "unat (align_up x a) < unat x + unat a" "unat (align_up x a) mod unat a = 0"
    unfolding word_le_nat_alt unat_align_up [OF assms] by (blast, blast, simp)
qed

section \<open>Paths\<close>

text \<open>\<open>PathBuf::push\<close>: an absolute path replaces, a relative one is appended after a separator.\<close>

definition path_push :: "str \<Rightarrow> str \<Rightarrow> str" where
  "path_push p part =
     (if starts_with ''/'' part then part
      else if p = [] \<or> last p = CHR ''/'' then p @ part
      else p @ ''/'' @ part)"

fun push_parts :: "str \<Rightarrow> str list \<Rightarrow> str + str" where
  "push_parts out [] = Inr out"
| "push_parts out (part # rest) =
     (if part = [] then push_parts out rest
      else if part = ''.'' \<or> part = ''..'' then Inl ''invalid key segment''
      else if CHR 0x00 \<in> set part then Inl ''NUL in key segment''
      else push_parts (path_push out part) rest)"

definition join_object_path :: "str \<Rightarrow> str \<Rightarrow> str \<Rightarrow> str + str" where
  "join_object_path root bucket key =
     (if bucket = [] \<or> CHR ''/'' \<in> set bucket \<or> bucket = ''.'' \<or> bucket = ''..'' then Inl ''invalid bucket''
      else push_parts (path_push root bucket) (split_on CHR ''/'' key))"

definition bucket_root_path :: "str \<Rightarrow> str \<Rightarrow> str + str" where
  "bucket_root_path root bucket = join_object_path root bucket []"

text \<open>The segments of a key that name files, and which of them are safe.\<close>

definition key_segments :: "str \<Rightarrow> str list" where
  "key_segments key = filter (\<lambda>p. p \<noteq> []) (split_on CHR ''/'' key)"

definition safe_segment :: "str \<Rightarrow> bool" where
  "safe_segment p \<longleftrightarrow> p \<noteq> [] \<and> p \<noteq> ''.'' \<and> p \<noteq> ''..'' \<and> CHR ''/'' \<notin> set p"

lemma path_push_plain:
  assumes "p \<noteq> []" "last p \<noteq> CHR ''/''" "CHR ''/'' \<notin> set part" "part \<noteq> []"
  shows "path_push p part = p @ ''/'' @ part" "path_push p part \<noteq> []" "last (path_push p part) \<noteq> CHR ''/''"
proof -
  have "\<not> starts_with ''/'' part"
    using assms(3,4) by (cases part) (auto simp: starts_with_def)
  then show "path_push p part = p @ ''/'' @ part" "path_push p part \<noteq> []" "last (path_push p part) \<noteq> CHR ''/''"
    using assms by (simp_all add: path_push_def) (metis last_in_set)
qed

lemma push_parts_ok:
  assumes "p \<noteq> []" "last p \<noteq> CHR ''/''" "\<forall>q\<in>set parts. CHR ''/'' \<notin> set q"
  shows "push_parts p parts = Inr out \<longleftrightarrow>
    (\<forall>q\<in>set (filter (\<lambda>q. q \<noteq> []) parts). safe_segment q \<and> CHR 0x00 \<notin> set q) \<and>
    out = foldl (\<lambda>p q. p @ ''/'' @ q) p (filter (\<lambda>q. q \<noteq> []) parts)"
  using assms
proof (induction parts arbitrary: p)
  case (Cons q parts)
  show ?case
  proof (cases "q = []")
    case False
    note pp = path_push_plain [of p q]
    have "push_parts (path_push p q) parts = Inr out \<longleftrightarrow>
      (\<forall>r\<in>set (filter (\<lambda>q. q \<noteq> []) parts). safe_segment r \<and> CHR 0x00 \<notin> set r) \<and>
      out = foldl (\<lambda>p q. p @ ''/'' @ q) (path_push p q) (filter (\<lambda>q. q \<noteq> []) parts)"
      by (rule Cons.IH) (use pp False Cons.prems in auto)
    then show ?thesis
      using False pp(1) Cons.prems by (auto simp: safe_segment_def)
  qed (use Cons in auto)
qed auto

lemma foldl_segments: "foldl (\<lambda>p q. p @ CHR ''/'' # q) p qs = p @ concat (map (\<lambda>q. CHR ''/'' # q) qs)"
  by (induction qs arbitrary: p) auto

text \<open>
  How the kernel walks a path: empty and \<open>.\<close> components stay, \<open>..\<close> goes up, others go down.
\<close>

fun walk :: "str list \<Rightarrow> str list \<Rightarrow> str list" where
  "walk at [] = at"
| "walk at (c # cs) =
     (if c = [] \<or> c = ''.'' then walk at cs
      else if c = ''..'' then walk (butlast at) cs
      else walk (at @ [c]) cs)"

lemma walk_append: "walk at (xs @ ys) = walk (walk at xs) ys"
  by (induction xs arbitrary: at) auto

lemma walk_safe: "\<forall>q\<in>set qs. safe_segment q \<Longrightarrow> walk at qs = at @ qs"
  by (induction qs arbitrary: at) (auto simp: safe_segment_def)

lemma split_on_segments:
  "\<forall>q\<in>set qs. CHR ''/'' \<notin> set q \<Longrightarrow>
   split_on CHR ''/'' (p @ concat (map (\<lambda>q. CHR ''/'' # q) qs)) = split_on CHR ''/'' p @ qs"
proof (induction qs arbitrary: p rule: rev_induct)
  case (snoc q qs)
  have split: "split_on c (s @ c # t) = split_on c s @ split_on c t" for c s and t :: str
    by (induction s) (auto split: list.splits)
  show ?case
    using snoc split [of "CHR ''/''" "p @ concat (map (\<lambda>q. CHR ''/'' # q) qs)" q]
    by (simp add: split_on_unique)
qed simp

definition proper_root :: "str \<Rightarrow> bool" where
  "proper_root root \<longleftrightarrow> root \<noteq> [] \<and> last root \<noteq> CHR ''/''"

lemma join_object_path_ok:
  assumes "proper_root root"
  shows "join_object_path root bucket key = Inr p \<longleftrightarrow>
    safe_segment bucket \<and> (\<forall>q\<in>set (key_segments key). safe_segment q \<and> CHR 0x00 \<notin> set q) \<and>
    p = root @ concat (map (\<lambda>q. CHR ''/'' # q) (bucket # key_segments key))"
proof (cases "safe_segment bucket")
  case True
  then have b: "bucket \<noteq> []" "CHR ''/'' \<notin> set bucket"
    by (auto simp: safe_segment_def)
  have r: "root \<noteq> []" "last root \<noteq> CHR ''/''"
    using assms by (auto simp: proper_root_def)
  note pp = path_push_plain [OF r b(2,1)]
  have "join_object_path root bucket key = push_parts (path_push root bucket) (split_on CHR ''/'' key)"
    using True by (auto simp: join_object_path_def safe_segment_def)
  with push_parts_ok [OF pp(2,3), of "split_on CHR ''/'' key" p] True show ?thesis
    by (auto simp: pp(1) foldl_segments key_segments_def dest: split_on_no_sep)
next
  case False
  then show ?thesis
    by (auto simp: join_object_path_def safe_segment_def)
qed

text \<open>
  C36. Object paths stay below their bucket. The path of an accepted bucket and key is the root
  followed by the bucket and the non-empty segments of the key, and the kernel, walking it from
  anywhere, ends below the bucket's directory, in the segments of the key: no key can climb out or
  name another bucket. Two keys share a path exactly when their non-empty segments agree.
\<close>
theorem join_object_path_contained:
  assumes "proper_root root" "join_object_path root bucket key = Inr p"
  shows "walk at (split_on CHR ''/'' p) = walk at (split_on CHR ''/'' root) @ bucket # key_segments key \<and>
         (join_object_path root bucket key' = Inr p) = (key_segments key' = key_segments key)"
proof -
  have ok: "safe_segment bucket" "\<forall>q\<in>set (key_segments key). safe_segment q \<and> CHR 0x00 \<notin> set q"
    "p = root @ concat (map (\<lambda>q. CHR ''/'' # q) (bucket # key_segments key))"
    using assms join_object_path_ok by blast+
  have nosep: "\<forall>q\<in>set (bucket # key_segments k). CHR ''/'' \<notin> set q" for k
    using ok(1) by (auto simp: safe_segment_def key_segments_def dest: split_on_no_sep)
  note split = split_on_segments [OF nosep]
  have "walk at (split_on CHR ''/'' p) = walk at (split_on CHR ''/'' root) @ bucket # key_segments key"
    unfolding ok(3) split walk_append by (rule walk_safe) (use ok in auto)
  moreover have "key_segments key' = key_segments key"
    if "p = root @ concat (map (\<lambda>q. CHR ''/'' # q) (bucket # key_segments key'))"
  proof -
    have "split_on CHR ''/'' root @ bucket # key_segments key' = split_on CHR ''/'' root @ bucket # key_segments key"
      using split [of root key'] split [of root key] that ok(3) by simp
    then show ?thesis
      by simp
  qed
  moreover have "join_object_path root bucket key' = Inr p"
    if "key_segments key' = key_segments key"
    unfolding join_object_path_ok [OF assms(1)] that using ok by blast
  ultimately show ?thesis
    using join_object_path_ok [OF assms(1), of bucket key' p] by blast
qed

theorem join_object_path_contained_witness:
  "join_object_path ''/srv'' ''b'' ''a//c'' = Inr ''/srv/b/a/c'' \<and>
   join_object_path ''/srv'' ''b'' ''a/c'' = Inr ''/srv/b/a/c'' \<and>
   walk [] (split_on CHR ''/'' ''/srv/b/a/c'') = [''srv'', ''b'', ''a'', ''c'']"
proof -
  have ok: "join_object_path ''/srv'' ''b'' ''a//c'' = Inr ''/srv/b/a/c''"
    by (simp add: join_object_path_def path_push_def starts_with_def)
  have "proper_root ''/srv''"
    by (simp add: proper_root_def)
  from join_object_path_contained [OF this ok, of "[]" "''a/c''"] ok show ?thesis
    by (simp add: key_segments_def)
qed

section \<open>Files\<close>

text \<open>
  \<open>rename_noreplace\<close>, from what the system calls return: the error number of \<open>renameat2\<close> if it
  fails, whether the destination exists, and the error number of the plain rename.
\<close>

datatype io_failure = AlreadyExists | InvalidInput | Os int

definition EEXIST :: int where "EEXIST = 17"
definition EINVAL :: int where "EINVAL = 22"
definition ENOSYS :: int where "ENOSYS = 38"
definition ENODATA :: int where "ENODATA = 61"
definition ENOTSUP :: int where "ENOTSUP = 95"

definition rename_noreplace ::
  "(str \<Rightarrow> str \<Rightarrow> int option) \<Rightarrow> (str \<Rightarrow> bool) \<Rightarrow> (str \<Rightarrow> str \<Rightarrow> int option) \<Rightarrow> str \<Rightarrow> str \<Rightarrow> io_failure + unit" where
  "rename_noreplace renameat2 exists rename src dst =
     (if src = [] \<or> CHR 0x00 \<in> set src \<or> dst = [] \<or> CHR 0x00 \<in> set dst then Inl InvalidInput
      else (case renameat2 src dst of
          None \<Rightarrow> Inr ()
        | Some errno \<Rightarrow>
            if errno = EEXIST then Inl AlreadyExists
            else if errno = ENOSYS \<or> errno = EINVAL then
              (if exists dst then Inl AlreadyExists
               else (case rename src dst of None \<Rightarrow> Inr () | Some e \<Rightarrow> Inl (Os e)))
            else Inl (Os errno)))"

definition stripe_count_for_size :: "u64 \<Rightarrow> u64 \<Rightarrow> u32 \<Rightarrow> u32" where
  "stripe_count_for_size file_size stripe_size max_stripe_count =
     (if stripe_size = 0 then 1
      else (let n = (ucast ((file_size + stripe_size - 1) div stripe_size) :: u32);
                n1 = (if n < 1 then 1 else n)
            in if max_stripe_count > 0 \<and> n1 > max_stripe_count then max_stripe_count else n1))"

definition is_direct_io_not_supported :: "int option \<Rightarrow> bool" where
  "is_direct_io_not_supported raw =
     (case raw of None \<Rightarrow> False | Some errno \<Rightarrow> errno = EINVAL \<or> errno = ENOTSUP \<or> errno = ENOSYS)"

datatype open_direct = Buffered | Direct | TryDirect

text \<open>\<open>open_file\<close> without striping; \<open>io\<close> opens the file, with \<open>O_DIRECT\<close> or not.\<close>

definition open_file :: "(bool \<Rightarrow> int option + 'f) \<Rightarrow> open_direct \<Rightarrow> int option + 'f \<times> bool" where
  "open_file io direct =
     (case direct of
        Buffered \<Rightarrow> (case io False of Inl e \<Rightarrow> Inl e | Inr f \<Rightarrow> Inr (f, False))
      | Direct \<Rightarrow> (case io True of Inl e \<Rightarrow> Inl e | Inr f \<Rightarrow> Inr (f, True))
      | TryDirect \<Rightarrow>
          (case io True of
             Inr f \<Rightarrow> Inr (f, True)
           | Inl e \<Rightarrow>
               if is_direct_io_not_supported e
               then (case io False of Inl e' \<Rightarrow> Inl e' | Inr f \<Rightarrow> Inr (f, False))
               else Inl e))"

text \<open>The content of a file, and \<open>ftruncate\<close> on it: cut, or extended by zeros.\<close>

definition ftruncate_file :: "str \<Rightarrow> nat \<Rightarrow> str" where
  "ftruncate_file content n = take n content @ replicate (n - length content) CHR 0x00"

text \<open>
  \<open>try_preallocate_range\<close>: \<open>fallocate\<close> extends a file that is too short; where it is not supported
  the file is truncated to the end of the range.
\<close>

definition try_preallocate_range ::
  "(u64 \<Rightarrow> u64 \<Rightarrow> int option) \<Rightarrow> u64 \<Rightarrow> u64 \<Rightarrow> str \<Rightarrow> str + str" where
  "try_preallocate_range fallocate st len content =
     (if len = 0 then Inr content
      else if unat st + unat len \<ge> 2 ^ 64 then Inl ''preallocate range overflow''
      else (case fallocate st len of
          None \<Rightarrow> Inr (ftruncate_file content (max (length content) (unat (st + len))))
        | Some errno \<Rightarrow>
            if errno = ENOTSUP \<or> errno = ENOSYS \<or> errno = EINVAL
            then Inr (ftruncate_file content (unat (st + len)))
            else Inl ''fallocate failed''))"

lemma length_ftruncate [simp]: "length (ftruncate_file c n) = n"
  by (simp add: ftruncate_file_def)

lemma ftruncate_append [simp]: "length xs = n \<Longrightarrow> ftruncate_file (xs @ ys) n = xs"
  by (simp add: ftruncate_file_def)

section \<open>Modification times\<close>

definition system_time_from_unix :: "int \<Rightarrow> u32 \<Rightarrow> system_time" where
  "system_time_from_unix sec nsec =
     (if sec \<ge> 0 then sec * nanos + int (unat nsec) else - (- sec * nanos + int (unat nsec)))"

record statx =
  stx_ino :: u64
  stx_size :: u64
  stx_uid :: u32
  stx_mtime_sec :: int
  stx_mtime_nsec :: u32

record statx_info =
  si_ino :: u64
  si_size :: u64
  si_uid :: u32
  si_mtime :: system_time

text \<open>\<open>statx_info\<close>: the target of a link if it can be reached, else the link.\<close>

definition statx_info :: "(bool \<Rightarrow> str \<Rightarrow> statx option) \<Rightarrow> str \<Rightarrow> statx_info option" where
  "statx_info do_statx path =
     (if path = [] \<or> CHR 0x00 \<in> set path then None
      else (case (case do_statx True path of Some s \<Rightarrow> Some s | None \<Rightarrow> do_statx False path) of
          None \<Rightarrow> None
        | Some s \<Rightarrow> Some \<lparr>si_ino = stx_ino s, si_size = stx_size s, si_uid = stx_uid s,
            si_mtime = system_time_from_unix (stx_mtime_sec s) (stx_mtime_nsec s)\<rparr>))"

text \<open>
  Times before 1970 are wrong. The kernel gives a time as whole seconds, rounded down, and
  nanoseconds to add. The conversion agrees from 1970 on and for whole seconds, but for an earlier
  time with a fraction it subtracts the nanoseconds: the time of the file is twice the fraction
  too early, and so is never the real one.
\<close>
theorem mtime_before_epoch:
  assumes "do_statx True path = Some s" "path \<noteq> []" "CHR 0x00 \<notin> set path"
    and "time = stx_mtime_sec s * nanos + int (unat (stx_mtime_nsec s))"
  shows "\<exists>info. statx_info do_statx path = Some info \<and> si_size info = stx_size s \<and>
    (si_mtime info = time) = (stx_mtime_sec s \<ge> 0 \<or> stx_mtime_nsec s = 0) \<and>
    (stx_mtime_sec s < 0 \<longrightarrow> si_mtime info = time - 2 * int (unat (stx_mtime_nsec s)))"
  using assms by (auto simp: statx_info_def system_time_from_unix_def unsigned_eq_0_iff)

theorem mtime_before_epoch_witness:
  "\<exists>info. statx_info (\<lambda>_ _. Some \<lparr>stx_ino = 1, stx_size = 5, stx_uid = 0, stx_mtime_sec = -1, stx_mtime_nsec = 500000000\<rparr>)
       ''/f'' = Some info \<and> si_mtime info = - 1500000000"
  using mtime_before_epoch [of "\<lambda>_ _. Some \<lparr>stx_ino = 1, stx_size = 5, stx_uid = 0, stx_mtime_sec = -1, stx_mtime_nsec = 500000000\<rparr>"
      "''/f''", OF refl] by (auto simp: nanos_def)

section \<open>Extended attributes\<close>

record 's xattr_api =
  xa_get :: "'s \<Rightarrow> str \<Rightarrow> int + str option"
  xa_set :: "'s \<Rightarrow> str \<Rightarrow> str \<Rightarrow> int + 's"
  xa_remove :: "'s \<Rightarrow> str \<Rightarrow> int + 's"

definition TAGGING_XATTR :: str where "TAGGING_XATTR = ''user.s32p.tags''"
definition USER_META_XATTR :: str where "USER_META_XATTR = ''user.s32p.meta''"
definition CONTENT_TYPE_XATTR :: str where "CONTENT_TYPE_XATTR = ''user.s32p.content_type''"
definition FREEDESKTOP_MIME_XATTR :: str where "FREEDESKTOP_MIME_XATTR = ''user.mime_type''"

definition read_xattr_string :: "'s xattr_api \<Rightarrow> 's \<Rightarrow> str \<Rightarrow> int + str option" where
  "read_xattr_string api fs name =
     (case xa_get api fs name of
        Inr (Some b) \<Rightarrow> Inr (Some (from_utf8_lossy b))
      | Inr None \<Rightarrow> Inr None
      | Inl e \<Rightarrow> if e = ENOTSUP then Inr None else Inl e)"

definition read_tags :: "'s xattr_api \<Rightarrow> 's \<Rightarrow> int + str" where
  "read_tags api fs =
     (case xa_get api fs TAGGING_XATTR of
        Inr (Some b) \<Rightarrow> Inr (from_utf8_lossy b)
      | Inr None \<Rightarrow> Inr []
      | Inl e \<Rightarrow> if e = ENOTSUP then Inr [] else Inl e)"

definition read_user_meta :: "'s xattr_api \<Rightarrow> 's \<Rightarrow> int + str" where
  "read_user_meta api fs =
     (case xa_get api fs USER_META_XATTR of
        Inr (Some b) \<Rightarrow> Inr (from_utf8_lossy b)
      | Inr None \<Rightarrow> Inr []
      | Inl e \<Rightarrow> if e = ENOTSUP then Inr [] else Inl e)"

definition read_content_type :: "'s xattr_api \<Rightarrow> 's \<Rightarrow> int + str option" where
  "read_content_type api fs =
     (case read_xattr_string api fs CONTENT_TYPE_XATTR of
        Inl e \<Rightarrow> Inl e
      | Inr (Some v) \<Rightarrow> Inr (Some v)
      | Inr None \<Rightarrow> read_xattr_string api fs FREEDESKTOP_MIME_XATTR)"

definition remove_xattr :: "'s xattr_api \<Rightarrow> 's \<Rightarrow> str \<Rightarrow> int + 's" where
  "remove_xattr api fs name =
     (case xa_remove api fs name of
        Inr fs' \<Rightarrow> Inr fs'
      | Inl e \<Rightarrow> if e = ENODATA \<or> e = ENOTSUP then Inr fs else Inl e)"

definition remove_tags :: "'s xattr_api \<Rightarrow> 's \<Rightarrow> int + 's" where
  "remove_tags api fs = remove_xattr api fs TAGGING_XATTR"

definition remove_user_meta :: "'s xattr_api \<Rightarrow> 's \<Rightarrow> int + 's" where
  "remove_user_meta api fs = remove_xattr api fs USER_META_XATTR"

definition remove_content_type :: "'s xattr_api \<Rightarrow> 's \<Rightarrow> int + 's" where
  "remove_content_type api fs = remove_xattr api fs CONTENT_TYPE_XATTR"

definition write_tags :: "'s xattr_api \<Rightarrow> 's \<Rightarrow> str \<Rightarrow> int + 's" where
  "write_tags api fs v = (if v = [] then remove_tags api fs else xa_set api fs TAGGING_XATTR v)"

definition write_user_meta :: "'s xattr_api \<Rightarrow> 's \<Rightarrow> str \<Rightarrow> int + 's" where
  "write_user_meta api fs v = (if v = [] then remove_user_meta api fs else xa_set api fs USER_META_XATTR v)"

definition write_content_type :: "'s xattr_api \<Rightarrow> 's \<Rightarrow> str \<Rightarrow> int + 's" where
  "write_content_type api fs v = (if v = [] then remove_content_type api fs else xa_set api fs CONTENT_TYPE_XATTR v)"

lemmas xattr_defs = read_tags_def read_user_meta_def read_content_type_def read_xattr_string_def
  write_tags_def write_user_meta_def write_content_type_def remove_tags_def remove_user_meta_def
  remove_content_type_def remove_xattr_def

lemma attr_names:
  "USER_META_XATTR \<noteq> TAGGING_XATTR" "CONTENT_TYPE_XATTR \<noteq> TAGGING_XATTR" "FREEDESKTOP_MIME_XATTR \<noteq> TAGGING_XATTR"
  "CONTENT_TYPE_XATTR \<noteq> USER_META_XATTR" "FREEDESKTOP_MIME_XATTR \<noteq> USER_META_XATTR"
  by (simp_all add: TAGGING_XATTR_def USER_META_XATTR_def CONTENT_TYPE_XATTR_def FREEDESKTOP_MIME_XATTR_def)

text \<open>
  What the handlers rely on: an attribute that was set is read back, one that was removed is gone,
  and the others stay. From it follows that tags and metadata are read back as they were written, also
  the empty ones, which remove the attribute.
\<close>

locale xattr_store =
  fixes api :: "'s xattr_api"
  assumes set_get: "xa_set api fs n v = Inr fs' \<Longrightarrow> xa_get api fs' m = (if m = n then Inr (Some v) else xa_get api fs m)"
    and remove_get: "xa_remove api fs n = Inr fs' \<Longrightarrow> xa_get api fs' m = (if m = n then Inr None else xa_get api fs m)"
    and remove_missing: "xa_remove api fs n = Inl ENODATA \<Longrightarrow> xa_get api fs n = Inr None"
    and remove_unsupported: "xa_remove api fs n = Inl ENOTSUP \<Longrightarrow> xa_get api fs n = Inl ENOTSUP"
begin

lemma remove_xattr_get:
  assumes "remove_xattr api fs n = Inr fs'"
  shows "m \<noteq> n \<Longrightarrow> xa_get api fs' m = xa_get api fs m" "xa_get api fs' n \<in> {Inr None, Inl ENOTSUP}"
proof -
  have "(m \<noteq> n \<longrightarrow> xa_get api fs' m = xa_get api fs m) \<and> xa_get api fs' n \<in> {Inr None, Inl ENOTSUP}"
  proof (cases "xa_remove api fs n")
    case (Inl e)
    with assms have "fs' = fs" "e = ENODATA \<or> e = ENOTSUP"
      by (auto simp: remove_xattr_def split: if_splits)
    with Inl remove_missing [of fs n] remove_unsupported [of fs n] show ?thesis by auto
  next
    case (Inr fs1)
    with assms remove_get [OF Inr] show ?thesis by (simp add: remove_xattr_def)
  qed
  then show "m \<noteq> n \<Longrightarrow> xa_get api fs' m = xa_get api fs m" "xa_get api fs' n \<in> {Inr None, Inl ENOTSUP}"
    by blast+
qed

lemma write_others:
  assumes "write_tags api fs tags = Inr fs'" "m \<noteq> TAGGING_XATTR"
  shows "xa_get api fs' m = xa_get api fs m"
  using assms set_get remove_xattr_get(1) by (auto simp: write_tags_def remove_tags_def split: if_splits)

lemma tags_stored:
  assumes "write_tags api fs tags = Inr fs'" "from_utf8 tags"
  shows "read_tags api fs' = Inr tags"
proof (cases "tags = []")
  case True
  with assms(1) have "remove_xattr api fs TAGGING_XATTR = Inr fs'"
    by (simp add: write_tags_def remove_tags_def)
  from remove_xattr_get(2) [OF this] True show ?thesis
    by (auto simp: read_tags_def split: if_splits)
next
  case False
  with assms set_get [of fs TAGGING_XATTR tags fs' TAGGING_XATTR] show ?thesis
    by (simp add: write_tags_def read_tags_def from_utf8_lossy_id)
qed

lemma meta_stored:
  assumes "write_user_meta api fs v = Inr fs'" "from_utf8 v"
  shows "read_user_meta api fs' = Inr v"
proof (cases "v = []")
  case True
  with assms(1) have "remove_xattr api fs USER_META_XATTR = Inr fs'"
    by (simp add: write_user_meta_def remove_user_meta_def)
  from remove_xattr_get(2) [OF this] True show ?thesis
    by (auto simp: read_user_meta_def split: if_splits)
next
  case False
  with assms set_get [of fs USER_META_XATTR v fs' USER_META_XATTR] show ?thesis
    by (simp add: write_user_meta_def read_user_meta_def from_utf8_lossy_id)
qed

lemma tags_keep_headers:
  assumes "write_tags api fs tags = Inr fs'"
  shows "read_user_meta api fs' = read_user_meta api fs" "read_content_type api fs' = read_content_type api fs"
proof -
  have get: "read_xattr_string api fs' m = read_xattr_string api fs m" if "m \<noteq> TAGGING_XATTR" for m
    by (simp add: read_xattr_string_def write_others [OF assms that])
  show "read_user_meta api fs' = read_user_meta api fs"
    unfolding read_user_meta_def write_others [OF assms attr_names(1)] by (rule refl)
  show "read_content_type api fs' = read_content_type api fs"
    unfolding read_content_type_def get [OF attr_names(2)] get [OF attr_names(3)] by (rule refl)
qed

end

end
