(* ===== verification/Payload_Readers.thy ===== *)
theory Payload_Readers
  imports Fs_Helpers
begin

text \<open>
  The readers of a request body, \<open>PlainFrameReader\<close> and \<open>aws_chunked::Decoder\<close> of
  \<open>crates/s32p-gateway/src/streaming.rs\<close>. A body is the list of the frames its stream yields, each
  some bytes or an error. The locale \<open>payload_reader\<close> is what the upload path relies on: a reader
  gives the bytes of a payload in order, whatever the frames they came in.
\<close>

section \<open>Frames\<close>

datatype read_error = UnexpectedEof str | InvalidData str | Broken str

type_synonym frames = "(str + str) list"

text \<open>The loop of both \<open>refill\<close>s: the next frames until one is not empty, or the end.\<close>

fun refill_loop :: "frames \<Rightarrow> str \<Rightarrow> bool \<Rightarrow> read_error + frames \<times> str \<times> bool" where
  "refill_loop [] buf eof = (if buf \<noteq> [] \<or> eof then Inr ([], buf, eof) else Inr ([], [], True))"
| "refill_loop (f # fs) buf eof =
     (if buf \<noteq> [] \<or> eof then Inr (f # fs, buf, eof)
      else (case f of Inr b \<Rightarrow> refill_loop fs b eof | Inl e \<Rightarrow> Inl (Broken e)))"

text \<open>The bytes a stream yields before it ends, and the error it ends with, if any.\<close>

fun stream_bytes :: "frames \<Rightarrow> str" where
  "stream_bytes [] = []"
| "stream_bytes (Inr b # fs) = b @ stream_bytes fs"
| "stream_bytes (Inl e # fs) = []"

fun stream_end :: "frames \<Rightarrow> str option" where
  "stream_end [] = None"
| "stream_end (Inr b # fs) = stream_end fs"
| "stream_end (Inl e # fs) = Some e"

text \<open>The bytes still to come, from a buffer and a stream that may be known to have ended.\<close>

definition raw_bytes :: "frames \<Rightarrow> str \<Rightarrow> bool \<Rightarrow> str" where
  "raw_bytes fs buf eof = buf @ (if eof then [] else stream_bytes fs)"

definition raw_end :: "frames \<Rightarrow> bool \<Rightarrow> str option" where
  "raw_end fs eof = (if eof then None else stream_end fs)"

definition frames_size :: "frames \<Rightarrow> nat" where
  "frames_size fs = sum_list (map (\<lambda>f. case f of Inr b \<Rightarrow> length b | Inl e \<Rightarrow> 0) fs)"

lemma frames_size_simps [simp]:
  "frames_size [] = 0" "frames_size (Inr b # fs) = length b + frames_size fs" "frames_size (Inl e # fs) = frames_size fs"
  by (simp_all add: frames_size_def)

lemma refill_loop_facts:
  "refill_loop fs buf eof = Inr (fs', buf', eof') \<Longrightarrow>
     raw_bytes fs' buf' eof' = raw_bytes fs buf eof \<and> raw_end fs' eof' = raw_end fs eof \<and>
     (buf' \<noteq> [] \<or> eof') \<and> length buf' + frames_size fs' = length buf + frames_size fs \<and>
     length fs' \<le> length fs \<and> (buf = [] \<and> buf' \<noteq> [] \<longrightarrow> length fs' < length fs)"
proof (induction fs buf eof rule: refill_loop.induct)
  case (1 buf eof)
  then show ?case
    by (auto simp: raw_bytes_def raw_end_def split: if_splits)
next
  case (2 f fs buf eof)
  show ?case
  proof (cases "buf \<noteq> [] \<or> eof")
    case False
    then obtain b where b: "f = Inr b" "refill_loop fs b eof = Inr (fs', buf', eof')"
      using "2.prems" by (auto split: sum.splits)
    from "2.IH" [OF False b] b(1) False show ?thesis
      by (auto simp: raw_bytes_def raw_end_def)
  qed (use "2.prems" in auto)
qed

lemma refill_loop_ok:
  assumes "refill_loop fs buf eof = Inr (fs', buf', eof')"
  shows "raw_bytes fs' buf' eof' = raw_bytes fs buf eof" "raw_end fs' eof' = raw_end fs eof"
    "buf' \<noteq> [] \<or> eof'" "length buf' + frames_size fs' = length buf + frames_size fs"
    "buf = [] \<Longrightarrow> buf' \<noteq> [] \<Longrightarrow> length fs' < length fs"
  using refill_loop_facts [OF assms] by blast+

lemma raw_at_eof: "raw_bytes fs [] True = []" "raw_end fs True = None"
  by (simp_all add: raw_bytes_def raw_end_def)

lemma refill_loop_err:
  assumes "refill_loop fs buf eof = Inl e"
  shows "\<exists>m. e = Broken m \<and> raw_bytes fs buf eof = [] \<and> raw_end fs eof = Some m"
  using assms
  by (induction fs buf eof rule: refill_loop.induct)
     (auto simp: raw_bytes_def raw_end_def split: if_splits sum.splits)

text \<open>The error of a reader that needs more bytes than there are.\<close>

definition starved :: "str option \<Rightarrow> str \<Rightarrow> read_error" where
  "starved ending msg = (case ending of None \<Rightarrow> UnexpectedEof msg | Some e \<Rightarrow> Broken e)"

section \<open>The contract\<close>

text \<open>
  A reader of kind \<open>'s\<close> has a payload: the bytes it can give, and the error it gives when it is
  asked for more.
\<close>

locale payload_reader =
  fixes read_exact_payload :: "nat \<Rightarrow> 's \<Rightarrow> read_error + str \<times> 's"
    and payload :: "'s \<Rightarrow> str"
    and failure :: "'s \<Rightarrow> read_error"
  assumes read_enough: "n \<le> length (payload s) \<Longrightarrow>
      \<exists>s'. read_exact_payload n s = Inr (take n (payload s), s') \<and> payload s' = drop n (payload s) \<and> failure s' = failure s"
    and read_short: "length (payload s) < n \<Longrightarrow> read_exact_payload n s = Inl (failure s)"
begin

text \<open>A client that reads pieces of the given lengths, one after the other.\<close>

fun read_pieces :: "nat list \<Rightarrow> 's \<Rightarrow> read_error + str list \<times> 's" where
  "read_pieces [] s = Inr ([], s)"
| "read_pieces (n # ns) s =
     (case read_exact_payload n s of
        Inl e \<Rightarrow> Inl e
      | Inr (b, s') \<Rightarrow>
          (case read_pieces ns s' of Inl e \<Rightarrow> Inl e | Inr (bs, s'') \<Rightarrow> Inr (b # bs, s'')))"

lemma read_pieces_enough:
  assumes "sum_list ns \<le> length (payload s)"
  shows "\<exists>bs s'. read_pieces ns s = Inr (bs, s') \<and> concat bs = take (sum_list ns) (payload s) \<and>
    map length bs = ns \<and> payload s' = drop (sum_list ns) (payload s) \<and> failure s' = failure s"
  using assms
proof (induction ns arbitrary: s)
  case (Cons n ns)
  from read_enough [of n s] Cons.prems obtain s1 where
    s1: "read_exact_payload n s = Inr (take n (payload s), s1)" "payload s1 = drop n (payload s)" "failure s1 = failure s"
    by auto
  have "sum_list ns \<le> length (payload s1)"
    using Cons.prems s1(2) by simp
  from Cons.IH [OF this] obtain bs s2 where
    "read_pieces ns s1 = Inr (bs, s2)" "concat bs = take (sum_list ns) (payload s1)" "map length bs = ns"
    "payload s2 = drop (sum_list ns) (payload s1)" "failure s2 = failure s1"
    by blast
  with s1 Cons.prems show ?case
    by (auto simp: take_add add.commute)
qed auto

lemma read_pieces_short:
  assumes "length (payload s) < sum_list ns"
  shows "read_pieces ns s = Inl (failure s)"
  using assms
proof (induction ns arbitrary: s)
  case (Cons n ns)
  show ?case
  proof (cases "n \<le> length (payload s)")
    case True
    from read_enough [OF True] obtain s1 where
      s1: "read_exact_payload n s = Inr (take n (payload s), s1)" "payload s1 = drop n (payload s)" "failure s1 = failure s"
      by blast
    then show ?thesis
      using Cons.IH [of s1] Cons.prems True by auto
  qed (simp add: read_short)
qed simp

end

section \<open>Plain bodies\<close>

record plain_reader =
  pl_stream :: frames
  pl_buf :: str
  pl_done :: bool

definition plain_new :: "frames \<Rightarrow> plain_reader" where
  "plain_new stream = \<lparr>pl_stream = stream, pl_buf = [], pl_done = False\<rparr>"

definition plain_refill :: "plain_reader \<Rightarrow> read_error + plain_reader" where
  "plain_refill r =
     (if pl_done r then Inr r
      else (case refill_loop (pl_stream r) (pl_buf r) (pl_done r) of
          Inl e \<Rightarrow> Inl e
        | Inr (fs, buf, eof) \<Rightarrow> Inr \<lparr>pl_stream = fs, pl_buf = buf, pl_done = eof\<rparr>))"

lemma plain_refill_progress: "plain_refill r = Inr r' \<Longrightarrow> pl_buf r' \<noteq> [] \<or> pl_done r'"
  by (auto simp: plain_refill_def dest: refill_loop_ok split: if_splits sum.splits)

function plain_read_exact :: "nat \<Rightarrow> plain_reader \<Rightarrow> read_error + str \<times> plain_reader" where
  "plain_read_exact n r =
     (if n = 0 then Inr ([], r)
      else (case plain_refill r of
          Inl e \<Rightarrow> Inl e
        | Inr r1 \<Rightarrow>
            if pl_done r1 \<and> pl_buf r1 = [] then Inl (UnexpectedEof ''body shorter than expected'')
            else (let k = min n (length (pl_buf r1)) in
              case plain_read_exact (n - k) (r1\<lparr>pl_buf := drop k (pl_buf r1)\<rparr>) of
                Inl e \<Rightarrow> Inl e
              | Inr (bs, r2) \<Rightarrow> Inr (take k (pl_buf r1) @ bs, r2))))"
  by pat_completeness auto
termination
  by (relation "measure fst") (auto dest!: plain_refill_progress)

declare plain_read_exact.simps [simp del]

text \<open>\<open>ensure_eof\<close>: what follows in the stream must be empty.\<close>

fun frames_empty :: "frames \<Rightarrow> read_error + unit" where
  "frames_empty [] = Inr ()"
| "frames_empty (Inl e # fs) = Inl (Broken e)"
| "frames_empty (Inr b # fs) =
     (if b \<noteq> [] then Inl (InvalidData ''body longer than expected'') else frames_empty fs)"

definition plain_ensure_eof :: "plain_reader \<Rightarrow> read_error + unit" where
  "plain_ensure_eof r = frames_empty (pl_stream r)"

definition plain_payload :: "plain_reader \<Rightarrow> str" where
  "plain_payload r = raw_bytes (pl_stream r) (pl_buf r) (pl_done r)"

definition plain_failure :: "plain_reader \<Rightarrow> read_error" where
  "plain_failure r = starved (raw_end (pl_stream r) (pl_done r)) ''body shorter than expected''"

lemma plain_refill_ok:
  assumes "plain_refill r = Inr r'"
  shows "plain_payload r' = plain_payload r" "plain_failure r' = plain_failure r" "pl_buf r' \<noteq> [] \<or> pl_done r'"
  using assms refill_loop_ok [of "pl_stream r" "pl_buf r" "pl_done r"]
  by (auto simp: plain_refill_def plain_payload_def plain_failure_def split: if_splits sum.splits)

lemma plain_refill_err:
  assumes "plain_refill r = Inl e"
  shows "plain_payload r = []" "plain_failure r = e"
  using assms refill_loop_err [of "pl_stream r" "pl_buf r" "pl_done r" e]
  by (auto simp: plain_refill_def plain_payload_def plain_failure_def starved_def split: if_splits sum.splits)

lemma plain_advance:
  assumes "k \<le> length (pl_buf r)"
  shows "plain_payload (r\<lparr>pl_buf := drop k (pl_buf r)\<rparr>) = drop k (plain_payload r)"
    "plain_failure (r\<lparr>pl_buf := drop k (pl_buf r)\<rparr>) = plain_failure r" "take k (pl_buf r) = take k (plain_payload r)"
  using assms by (simp_all add: plain_payload_def plain_failure_def raw_bytes_def)

lemma plain_read_exact_spec:
  "if n \<le> length (plain_payload r)
   then \<exists>r'. plain_read_exact n r = Inr (take n (plain_payload r), r') \<and> plain_payload r' = drop n (plain_payload r) \<and>
     plain_failure r' = plain_failure r
   else plain_read_exact n r = Inl (plain_failure r)"
proof (induction n r rule: plain_read_exact.induct)
  case (1 n r)
  show ?case
  proof (cases "n = 0")
    case False
    show ?thesis
    proof (cases "plain_refill r")
      case (Inl e)
      with False show ?thesis
        by (simp add: plain_read_exact.simps plain_refill_err [OF Inl])
    next
      case (Inr r1)
      note ok = plain_refill_ok [OF Inr]
      show ?thesis
      proof (cases "pl_done r1 \<and> pl_buf r1 = []")
        case True
        then have "plain_payload r1 = []" "plain_failure r1 = UnexpectedEof ''body shorter than expected''"
          by (simp_all add: plain_payload_def plain_failure_def raw_at_eof starved_def)
        with ok False Inr True show ?thesis
          by (simp add: plain_read_exact.simps)
      next
        case more: False
        define k where "k = min n (length (pl_buf r1))"
        define r2 where "r2 = r1\<lparr>pl_buf := drop k (pl_buf r1)\<rparr>"
        have k: "k \<le> length (pl_buf r1)" "k \<le> n"
          by (simp_all add: k_def)
        note adv = plain_advance [OF k(1), folded r2_def, unfolded ok(1,2)]
        have len: "length (plain_payload r2) = length (plain_payload r) - k"
          using adv(1) by simp
        have step: "plain_read_exact n r = (case plain_read_exact (n - k) r2 of
            Inl e \<Rightarrow> Inl e | Inr (bs, r3) \<Rightarrow> Inr (take k (plain_payload r) @ bs, r3))"
          unfolding plain_read_exact.simps [of n r]
          by (simp only: False Inr more if_False sum.case Let_def k_def [symmetric] r2_def [symmetric] adv(3))
        have "k \<le> length (plain_payload r1)"
          using k(1) by (simp add: plain_payload_def raw_bytes_def)
        then have le: "n - k \<le> length (plain_payload r2) \<longleftrightarrow> n \<le> length (plain_payload r)"
          using len k(2) unfolding ok(1) by linarith
        from "1" [OF False Inr more k_def] show ?thesis
          using step adv le k(2) unfolding r2_def [symmetric]
          by (auto simp: add.commute take_add [symmetric] split: if_splits)
      qed
    qed
  qed (simp add: plain_read_exact.simps)
qed

interpretation plain: payload_reader plain_read_exact plain_payload plain_failure
  using plain_read_exact_spec by unfold_locales (metis, metis linorder_not_less)


section \<open>The aws-chunked decoder\<close>

datatype chunk_state = NeedHeader | NeedData | NeedCrlf | NeedTrailers | Done

record decoder =
  dc_stream :: frames
  dc_buf :: str
  dc_pending :: str
  dc_state :: chunk_state
  dc_remaining :: usize
  dc_eof :: bool

definition decoder_new :: "frames \<Rightarrow> decoder" where
  "decoder_new stream = \<lparr>dc_stream = stream, dc_buf = [], dc_pending = [], dc_state = NeedHeader,
     dc_remaining = 0, dc_eof = False\<rparr>"

definition dec_refill :: "decoder \<Rightarrow> read_error + decoder" where
  "dec_refill d =
     (case refill_loop (dc_stream d) (dc_buf d) (dc_eof d) of
        Inl e \<Rightarrow> Inl e
      | Inr (fs, buf, eof) \<Rightarrow> Inr (d\<lparr>dc_stream := fs, dc_buf := buf, dc_eof := eof\<rparr>))"

definition dec_raw :: "decoder \<Rightarrow> str" where
  "dec_raw d = raw_bytes (dc_stream d) (dc_buf d) (dc_eof d)"

definition dec_end :: "decoder \<Rightarrow> str option" where
  "dec_end d = raw_end (dc_stream d) (dc_eof d)"

definition dec_size :: "decoder \<Rightarrow> nat" where
  "dec_size d = length (dc_buf d) + frames_size (dc_stream d)"

text \<open>What reading from the stream leaves alone.\<close>

definition same_control :: "decoder \<Rightarrow> decoder \<Rightarrow> bool" where
  "same_control d d' \<longleftrightarrow> dc_pending d' = dc_pending d \<and> dc_state d' = dc_state d \<and>
     dc_remaining d' = dc_remaining d \<and> dec_end d' = dec_end d"

lemma dec_refill_ok:
  assumes "dec_refill d = Inr d'"
  shows "dec_raw d' = dec_raw d" "same_control d d'" "dc_buf d' \<noteq> [] \<or> dc_eof d'" "dec_size d' = dec_size d"
    "dc_buf d = [] \<Longrightarrow> dc_buf d' \<noteq> [] \<Longrightarrow> length (dc_stream d') < length (dc_stream d)"
  using assms refill_loop_ok [of "dc_stream d" "dc_buf d" "dc_eof d"]
  by (auto simp: dec_refill_def dec_raw_def dec_end_def dec_size_def same_control_def split: sum.splits)

lemma dec_refill_err:
  assumes "dec_refill d = Inl e"
  shows "dec_raw d = []" "starved (dec_end d) msg = e"
  using assms refill_loop_err [of "dc_stream d" "dc_buf d" "dc_eof d" e]
  by (auto simp: dec_refill_def dec_raw_def dec_end_def starved_def split: sum.splits)

lemma dec_exhausted:
  assumes "dc_eof d" "dc_buf d = []"
  shows "dec_raw d = []" "dec_end d = None" "starved (dec_end d) msg = UnexpectedEof msg"
  using assms by (simp_all add: dec_raw_def dec_end_def raw_at_eof starved_def)

abbreviation NL :: char where
  "NL \<equiv> CHR 0x0A"

text \<open>\<open>read_line\<close>, with the bytes kept in \<open>scratch\<close> so far.\<close>

function read_line_loop :: "str \<Rightarrow> decoder \<Rightarrow> read_error + str \<times> decoder" where
  "read_line_loop scratch d =
     (case split_once NL (dc_buf d) of
        Some (a, b) \<Rightarrow> Inr (scratch @ a @ [NL], d\<lparr>dc_buf := b\<rparr>)
      | None \<Rightarrow>
          (case dec_refill (d\<lparr>dc_buf := []\<rparr>) of
             Inl e \<Rightarrow> Inl e
           | Inr d1 \<Rightarrow>
               if dc_eof d1 \<and> dc_buf d1 = []
               then Inl (UnexpectedEof ''aws-chunked: unexpected EOF while reading line'')
               else read_line_loop (scratch @ dc_buf d) d1))"
  by pat_completeness auto
termination
proof (relation "measure (\<lambda>(scratch, d). length (dc_stream d))")
  fix scratch :: str and d d1
  assume "dec_refill (d\<lparr>dc_buf := []\<rparr>) = Inr d1" "\<not> (dc_eof d1 \<and> dc_buf d1 = [])"
  then show "((scratch @ dc_buf d, d1), (scratch, d)) \<in> measure (\<lambda>(scratch, d). length (dc_stream d))"
    using dec_refill_ok(3,5) [of "d\<lparr>dc_buf := []\<rparr>" d1] by auto
qed simp

declare read_line_loop.simps [simp del]

definition read_line :: "decoder \<Rightarrow> read_error + str \<times> decoder" where
  "read_line d = read_line_loop [] d"

definition parse_chunk_len_line :: "str \<Rightarrow> read_error + usize" where
  "parse_chunk_len_line line0 =
     (let line1 = unwrap_or (strip_suffix [NL] line0) line0;
          line = unwrap_or (strip_suffix [CHR 0x0D] line1) line1;
          hex_part = hd (split_on CHR '';'' line)
      in if hex_part = [] then Inl (InvalidData ''aws-chunked: empty chunk size'')
         else if \<not> from_utf8 hex_part then Inl (InvalidData ''aws-chunked: non-utf8 size'')
         else ok_or (parse_usize_hex hex_part)
                (InvalidData (''aws-chunked: invalid hex chunk size: '' @ hex_part)))"

lemma split_once_append_left:
  "c \<notin> set u \<Longrightarrow> split_once c (u @ v) = map_option (\<lambda>(a, b). (u @ a, b)) (split_once c v)"
  by (induction u) (auto simp: option.map_comp comp_def option.map_id split: option.splits)

lemma dec_raw_split: "dec_raw d = dc_buf d @ dec_raw (d\<lparr>dc_buf := []\<rparr>)"
  by (simp add: dec_raw_def raw_bytes_def)

lemma dec_size_split: "dec_size d = length (dc_buf d) + dec_size (d\<lparr>dc_buf := []\<rparr>)"
  by (simp add: dec_size_def)

lemma same_control_buf: "same_control d (d\<lparr>dc_buf := b\<rparr>)"
  by (simp add: same_control_def dec_end_def)

lemma same_control_trans: "same_control d d1 \<Longrightarrow> same_control d1 d2 \<Longrightarrow> same_control d d2"
  by (simp add: same_control_def)

lemma read_line_loop_spec:
  "case split_once NL (dec_raw d) of
     Some (a, b) \<Rightarrow> \<exists>d'. read_line_loop scratch d = Inr (scratch @ a @ [NL], d') \<and> dec_raw d' = b \<and>
       same_control d d' \<and> dec_size d' < dec_size d
   | None \<Rightarrow> read_line_loop scratch d =
       Inl (starved (dec_end d) ''aws-chunked: unexpected EOF while reading line'')"
proof (induction scratch d rule: read_line_loop.induct)
  case (1 scratch d)
  let ?d0 = "d\<lparr>dc_buf := []\<rparr>"
  show ?case
  proof (cases "split_once NL (dc_buf d)")
    case (Some ab)
    obtain a b where ab: "ab = (a, b)" by fastforce
    with Some have buf: "dc_buf d = a @ NL # b" "NL \<notin> set a"
      by (simp_all add: split_once_Some_iff)
    then have "split_once NL (dec_raw d) = Some (a, b @ dec_raw ?d0)"
      by (simp add: dec_raw_split [of d])
    moreover have "dec_raw (d\<lparr>dc_buf := b\<rparr>) = b @ dec_raw ?d0" "dec_size (d\<lparr>dc_buf := b\<rparr>) < dec_size d"
      using buf by (simp_all add: dec_raw_def raw_bytes_def dec_size_def)
    ultimately show ?thesis
      using Some ab by (auto simp: read_line_loop.simps intro: same_control_buf)
  next
    case None
    then have nl: "NL \<notin> set (dc_buf d)"
      by (simp add: split_once_None_iff)
    have split: "split_once NL (dec_raw d) = map_option (\<lambda>(a, b). (dc_buf d @ a, b)) (split_once NL (dec_raw ?d0))"
      unfolding dec_raw_split [of d] by (rule split_once_append_left [OF nl])
    have end0: "dec_end ?d0 = dec_end d"
      by (simp add: dec_end_def)
    show ?thesis
    proof (cases "dec_refill ?d0")
      case (Inl e)
      have "dec_raw ?d0 = []" "starved (dec_end d) ''aws-chunked: unexpected EOF while reading line'' = e"
        using dec_refill_err [OF Inl] end0 by simp_all
      with None Inl split show ?thesis
        by (simp add: read_line_loop.simps)
    next
      case (Inr d1)
      note ok = dec_refill_ok [OF Inr]
      have end1: "dec_end d1 = dec_end d"
        using ok(2) end0 by (simp add: same_control_def)
      show ?thesis
      proof (cases "dc_eof d1 \<and> dc_buf d1 = []")
        case True
        then have "dec_raw ?d0 = []" "starved (dec_end d) ''aws-chunked: unexpected EOF while reading line'' =
            UnexpectedEof ''aws-chunked: unexpected EOF while reading line''"
          using dec_exhausted [of d1] ok(1) end1 by simp_all
        with None Inr True split show ?thesis
          by (simp add: read_line_loop.simps)
      next
        case False
        have step: "read_line_loop scratch d = read_line_loop (scratch @ dc_buf d) d1"
          unfolding read_line_loop.simps [of scratch d] by (simp only: None Inr False option.case sum.case if_False)
        have "same_control d d1" "dec_size d1 \<le> dec_size d"
          using ok(2,4) dec_size_split [of d] same_control_trans [OF same_control_buf] by auto
        with "1" [OF None Inr False] step split ok(1) end1 show ?thesis
          by (auto simp: same_control_def split: option.splits)
      qed
    qed
  qed
qed

lemma read_line_size: "read_line d = Inr (line, d') \<Longrightarrow> dec_size d' < dec_size d"
  using read_line_loop_spec [of "[]" d] by (auto simp: read_line_def split: option.splits)

function consume_exact :: "str \<Rightarrow> decoder \<Rightarrow> read_error + decoder" where
  "consume_exact need d =
     (if need = [] then Inr d
      else (case dec_refill d of
          Inl e \<Rightarrow> Inl e
        | Inr d1 \<Rightarrow>
            if dc_eof d1 \<and> dc_buf d1 = []
            then Inl (UnexpectedEof ''aws-chunked: unexpected EOF while consuming CRLF'')
            else (let k = min (length need) (length (dc_buf d1)) in
              if take k (dc_buf d1) \<noteq> take k need then Inl (InvalidData ''aws-chunked: missing/invalid CRLF'')
              else consume_exact (drop k need) (d1\<lparr>dc_buf := drop k (dc_buf d1)\<rparr>))))"
  by pat_completeness auto
termination
  by (relation "measure (\<lambda>(need, d). length need)") (auto dest!: dec_refill_ok(3))

declare consume_exact.simps [simp del]

lemma dec_advance:
  assumes "k \<le> length (dc_buf d)"
  shows "dec_raw (d\<lparr>dc_buf := drop k (dc_buf d)\<rparr>) = drop k (dec_raw d)" "take k (dc_buf d) = take k (dec_raw d)"
    "k \<le> length (dec_raw d)" "dec_size (d\<lparr>dc_buf := drop k (dc_buf d)\<rparr>) = dec_size d - k" "k \<le> dec_size d"
  using assms by (simp_all add: dec_raw_def raw_bytes_def dec_size_def)

lemma consume_exact_spec:
  "if take (min (length need) (length (dec_raw d))) (dec_raw d) \<noteq> take (min (length need) (length (dec_raw d))) need
   then consume_exact need d = Inl (InvalidData ''aws-chunked: missing/invalid CRLF'')
   else if length (dec_raw d) < length need
   then consume_exact need d = Inl (starved (dec_end d) ''aws-chunked: unexpected EOF while consuming CRLF'')
   else \<exists>d'. consume_exact need d = Inr d' \<and> dec_raw d' = drop (length need) (dec_raw d) \<and> same_control d d' \<and>
     dec_size d' = dec_size d - length need"
proof (induction need d rule: consume_exact.induct)
  case (1 need d)
  show ?case
  proof (cases "need = []")
    case False
    show ?thesis
    proof (cases "dec_refill d")
      case (Inl e)
      with False show ?thesis
        using dec_refill_err [OF Inl] by (simp add: consume_exact.simps)
    next
      case (Inr d1)
      note ok = dec_refill_ok [OF Inr]
      have end1: "dec_end d1 = dec_end d"
        using ok(2) by (simp add: same_control_def)
      show ?thesis
      proof (cases "dc_eof d1 \<and> dc_buf d1 = []")
        case True
        with dec_exhausted [of d1] ok(1) end1 have "dec_raw d = []"
          "starved (dec_end d) ''aws-chunked: unexpected EOF while consuming CRLF'' =
            UnexpectedEof ''aws-chunked: unexpected EOF while consuming CRLF''"
          by simp_all
        with False Inr True show ?thesis
          by (simp add: consume_exact.simps)
      next
        case more: False
        define k where "k = min (length need) (length (dc_buf d1))"
        define d2 where "d2 = d1\<lparr>dc_buf := drop k (dc_buf d1)\<rparr>"
        have k: "k \<le> length (dc_buf d1)" "k \<le> length need"
          by (simp_all add: k_def)
        note adv = dec_advance [OF k(1), folded d2_def, unfolded ok(1,4)]
        have step: "consume_exact need d = (if take k (dec_raw d) \<noteq> take k need
            then Inl (InvalidData ''aws-chunked: missing/invalid CRLF'') else consume_exact (drop k need) d2)"
          unfolding consume_exact.simps [of need d]
          by (simp only: False Inr more if_False sum.case Let_def k_def [symmetric] d2_def [symmetric] adv(2))
        have ctl: "same_control d d2"
          unfolding d2_def using ok(2) same_control_buf by (rule same_control_trans)
        let ?m = "min (length need) (length (dec_raw d))"
        have km: "k \<le> ?m"
          using k(2) adv(3) by simp
        show ?thesis
        proof (cases "take k (dec_raw d) = take k need")
          case False
          then have "take ?m (dec_raw d) \<noteq> take ?m need"
            using km by (metis min_absorb1 take_take)
          with False step show ?thesis
            by simp
        next
          case True
          have m: "min (length (drop k need)) (length (dec_raw d2)) = ?m - k"
            using adv(1) km by auto
          have "take ?m (dec_raw d) = take ?m need \<longleftrightarrow> take (?m - k) (drop k (dec_raw d)) = take (?m - k) (drop k need)"
            using True km take_add [of k "?m - k" "dec_raw d"] take_add [of k "?m - k" need] by simp
          moreover have "dec_end d2 = dec_end d"
            using ctl by (simp add: same_control_def)
          moreover have "length (dec_raw d2) < length (drop k need) \<longleftrightarrow> length (dec_raw d) < length need"
            using adv(1,3) k(2) by auto
          moreover have "drop (length (drop k need)) (dec_raw d2) = drop (length need) (dec_raw d)"
            "dec_size d2 - length (drop k need) = dec_size d - length need"
            using adv k(2) by simp_all
          moreover note "1" [OF False Inr more k_def, folded d2_def, unfolded m adv(1)]
          ultimately show ?thesis
            using True step same_control_trans [OF ctl] adv(1,2) by (auto split: if_splits)
        qed
      qed
    qed
  qed (simp add: consume_exact.simps same_control_def)
qed


function read_trailers_until_blank :: "decoder \<Rightarrow> read_error + decoder" where
  "read_trailers_until_blank d =
     (case read_line d of
        Inl e \<Rightarrow> Inl e
      | Inr (line, d1) \<Rightarrow>
          if line = [NL] \<or> line = [CHR 0x0D, NL] then Inr d1 else read_trailers_until_blank d1)"
  by pat_completeness auto
termination
  by (relation "measure dec_size") (auto dest: read_line_size)

declare read_trailers_until_blank.simps [simp del]

text \<open>The number of bytes of \<open>next_payload_raw\<close>'s progress: a step reads some, or changes the state.\<close>

lemma stream_bytes_size: "length (stream_bytes fs) \<le> frames_size fs"
  by (induction fs rule: stream_bytes.induct) auto

lemma dec_raw_size: "length (dec_raw d) \<le> dec_size d"
  using stream_bytes_size [of "dc_stream d"] by (simp add: dec_raw_def raw_bytes_def dec_size_def)

lemma consume_exact_size:
  "consume_exact need d = Inr d' \<Longrightarrow> need \<noteq> [] \<Longrightarrow> dec_size d' < dec_size d"
proof -
  assume "consume_exact need d = Inr d'" "need \<noteq> []"
  then have "dec_size d' = dec_size d - length need" "length need \<le> length (dec_raw d)" "0 < length need"
    using consume_exact_spec [of need d] by (auto split: if_splits)
  with dec_raw_size [of d] show ?thesis
    by linarith
qed

lemma dec_size_update [simp]:
  "dec_size (d\<lparr>dc_state := st\<rparr>) = dec_size d" "dec_size (d\<lparr>dc_remaining := n\<rparr>) = dec_size d"
  by (simp_all add: dec_size_def)

fun state_rank :: "chunk_state \<Rightarrow> nat" where
  "state_rank NeedData = 1"
| "state_rank _ = 0"

function next_payload_raw :: "decoder \<Rightarrow> read_error + str option \<times> decoder" where
  "next_payload_raw d =
     (case dc_state d of
        Done \<Rightarrow> Inr (None, d)
      | NeedHeader \<Rightarrow>
          (case read_line d of
             Inl e \<Rightarrow> Inl e
           | Inr (line, d1) \<Rightarrow>
               (case parse_chunk_len_line line of
                  Inl e \<Rightarrow> Inl e
                | Inr n \<Rightarrow>
                    if n = 0 then next_payload_raw (d1\<lparr>dc_state := NeedTrailers\<rparr>)
                    else next_payload_raw (d1\<lparr>dc_remaining := n, dc_state := NeedData\<rparr>)))
      | NeedData \<Rightarrow>
          if dc_remaining d = 0 then next_payload_raw (d\<lparr>dc_state := NeedCrlf\<rparr>)
          else (case dec_refill d of
              Inl e \<Rightarrow> Inl e
            | Inr d1 \<Rightarrow>
                if dc_eof d1 \<and> dc_buf d1 = []
                then Inl (UnexpectedEof ''aws-chunked: unexpected EOF in chunk data'')
                else (let k = min (unat (dc_remaining d)) (length (dc_buf d1));
                          out = take k (dc_buf d1);
                          d2 = d1\<lparr>dc_buf := drop k (dc_buf d1), dc_remaining := dc_remaining d - of_nat k\<rparr>
                      in if out \<noteq> [] then Inr (Some out, d2) else next_payload_raw d2))
      | NeedCrlf \<Rightarrow>
          (case consume_exact [CHR 0x0D, NL] d of
             Inl e \<Rightarrow> Inl e
           | Inr d1 \<Rightarrow> next_payload_raw (d1\<lparr>dc_state := NeedHeader\<rparr>))
      | NeedTrailers \<Rightarrow>
          (case read_trailers_until_blank d of
             Inl e \<Rightarrow> Inl e
           | Inr d1 \<Rightarrow> Inr (None, d1\<lparr>dc_state := Done\<rparr>)))"
  by pat_completeness auto
termination
proof (relation "measures [dec_size, \<lambda>d. state_rank (dc_state d)]", goal_cases)
  case (5 d d1 k out d2)
  then have "out \<noteq> []"
    using dec_refill_ok(3) [of d d1] by (auto simp: unat_gt_0)
  with 5 show ?case
    by simp
qed (auto dest: read_line_size consume_exact_size)

declare next_payload_raw.simps [simp del]

section \<open>The payload of a chunked body\<close>

text \<open>
  The reference: from the state of the decoder and the bytes to come, the payload and the error
  after it. It knows nothing of frames. \<open>e\<close> is how the stream ends.
\<close>

abbreviation short_payload :: read_error where
  "short_payload \<equiv> UnexpectedEof ''aws-chunked: decoded payload shorter than expected''"

function trailers_failure :: "str option \<Rightarrow> str \<Rightarrow> read_error" where
  "trailers_failure e raw =
     (case split_once NL raw of
        None \<Rightarrow> starved e ''aws-chunked: unexpected EOF while reading line''
      | Some (a, b) \<Rightarrow> if a = [] \<or> a = [CHR 0x0D] then short_payload else trailers_failure e b)"
  by pat_completeness auto
termination
  by (relation "measure (length \<circ> snd)") (auto simp: split_once_Some_iff)

function chunked :: "str option \<Rightarrow> chunk_state \<Rightarrow> nat \<Rightarrow> str \<Rightarrow> str \<times> read_error" where
  "chunked e Done n raw = ([], short_payload)"
| "chunked e NeedTrailers n raw = ([], trailers_failure e raw)"
| "chunked e NeedHeader n raw =
     (case split_once NL raw of
        None \<Rightarrow> ([], starved e ''aws-chunked: unexpected EOF while reading line'')
      | Some (a, b) \<Rightarrow>
          (case parse_chunk_len_line (a @ [NL]) of
             Inl err \<Rightarrow> ([], err)
           | Inr m \<Rightarrow> if m = 0 then chunked e NeedTrailers 0 b else chunked e NeedData (unat m) b))"
| "chunked e NeedCrlf n raw =
     (if take (min 2 (length raw)) raw \<noteq> take (min 2 (length raw)) [CHR 0x0D, NL]
      then ([], InvalidData ''aws-chunked: missing/invalid CRLF'')
      else if length raw < 2 then ([], starved e ''aws-chunked: unexpected EOF while consuming CRLF'')
      else chunked e NeedHeader 0 (drop 2 raw))"
| "chunked e NeedData n raw =
     (if length raw < n then (raw, starved e ''aws-chunked: unexpected EOF in chunk data'')
      else (case chunked e NeedCrlf 0 (drop n raw) of (p, err) \<Rightarrow> (take n raw @ p, err)))"
  by pat_completeness auto
termination
  by (relation "measures [\<lambda>(e, st, n, raw). length raw, \<lambda>(e, st, n, raw). state_rank st]")
     (auto simp: split_once_Some_iff)

declare trailers_failure.simps [simp del]

definition dec_chunks :: "decoder \<Rightarrow> str \<times> read_error" where
  "dec_chunks d = chunked (dec_end d) (dc_state d) (unat (dc_remaining d)) (dec_raw d)"

lemma chunked_data: "0 < k \<Longrightarrow> k \<le> n \<Longrightarrow> k \<le> length raw \<Longrightarrow>
  chunked e NeedData n raw = (take k raw @ fst (chunked e NeedData (n - k) (drop k raw)), snd (chunked e NeedData (n - k) (drop k raw)))"
  by (auto simp: take_add [symmetric] split: prod.splits)

lemma trailers_spec:
  "case read_trailers_until_blank d of
     Inl e \<Rightarrow> trailers_failure (dec_end d) (dec_raw d) = e
   | Inr d1 \<Rightarrow> trailers_failure (dec_end d) (dec_raw d) = short_payload"
proof (induction d rule: read_trailers_until_blank.induct)
  case (1 d)
  show ?case
  proof (cases "split_once NL (dec_raw d)")
    case None
    then show ?thesis
      using read_line_loop_spec [of "[]" d]
      by (simp add: read_trailers_until_blank.simps trailers_failure.simps read_line_def)
  next
    case (Some ab)
    obtain a b where ab: "ab = (a, b)" by fastforce
    from Some ab read_line_loop_spec [of "[]" d] obtain d1 where
      d1: "read_line d = Inr (a @ [NL], d1)" "dec_raw d1 = b" "dec_end d1 = dec_end d"
      by (auto simp: read_line_def same_control_def)
    show ?thesis
    proof (cases "a = [] \<or> a = [CHR 0x0D]")
      case True
      then show ?thesis
        using d1 Some ab by (auto simp: read_trailers_until_blank.simps trailers_failure.simps [of "dec_end d"])
    next
      case False
      then have "\<not> (a @ [NL] = [NL] \<or> a @ [NL] = [CHR 0x0D, NL])"
        by (cases a rule: rev_cases) auto
      then have "read_trailers_until_blank d = read_trailers_until_blank d1"
        using d1(1) by (simp add: read_trailers_until_blank.simps [of d])
      moreover have "trailers_failure (dec_end d) (dec_raw d) = trailers_failure (dec_end d1) (dec_raw d1)"
        using d1 Some ab False by (simp add: trailers_failure.simps [of "dec_end d" "dec_raw d"])
      ultimately show ?thesis
        using "1" [OF d1(1) refl] \<open>\<not> (a @ [NL] = [NL] \<or> a @ [NL] = [CHR 0x0D, NL])\<close> by (simp split: sum.splits)
    qed
  qed
qed


lemma dec_end_update [simp]:
  "dec_end (d\<lparr>dc_state := st\<rparr>) = dec_end d" "dec_end (d\<lparr>dc_remaining := n\<rparr>) = dec_end d"
  "dec_raw (d\<lparr>dc_state := st\<rparr>) = dec_raw d" "dec_raw (d\<lparr>dc_remaining := n\<rparr>) = dec_raw d"
  "dec_end (d\<lparr>dc_buf := b\<rparr>) = dec_end d" "dec_end (d\<lparr>dc_pending := p\<rparr>) = dec_end d" "dec_raw (d\<lparr>dc_pending := p\<rparr>) = dec_raw d"
  by (simp_all add: dec_end_def dec_raw_def)

lemma chunked_header_arg: "chunked e NeedHeader n raw = chunked e NeedHeader 0 raw"
  by simp

text \<open>The decoder gives the payload of the reference piece by piece, and fails as it does.\<close>

definition gives :: "decoder \<Rightarrow> (read_error + str option \<times> decoder) \<Rightarrow> bool" where
  "gives d res \<longleftrightarrow>
     (case res of
        Inl e \<Rightarrow> dec_chunks d = ([], e)
      | Inr (None, d') \<Rightarrow> dec_chunks d = ([], short_payload)
      | Inr (Some b, d') \<Rightarrow> b \<noteq> [] \<and> dc_pending d' = dc_pending d \<and>
          dec_chunks d = (b @ fst (dec_chunks d'), snd (dec_chunks d')))"

lemma gives_step:
  "gives d1 res \<Longrightarrow> dec_chunks d = dec_chunks d1 \<Longrightarrow> dc_pending d1 = dc_pending d \<Longrightarrow> gives d res"
  by (auto simp: gives_def split: sum.splits option.splits)

lemma next_payload_raw_spec: "gives d (next_payload_raw d)"
proof (induction d rule: next_payload_raw.induct)
  case (1 d)
  show ?case
  proof (cases "dc_state d")
    case NeedHeader
    show ?thesis
    proof (cases "split_once NL (dec_raw d)")
      case None
      then show ?thesis
        using read_line_loop_spec [of "[]" d] NeedHeader
        by (simp add: gives_def next_payload_raw.simps [of d] dec_chunks_def read_line_def)
    next
      case (Some ab)
      obtain a b where ab: "ab = (a, b)" by fastforce
      from Some ab read_line_loop_spec [of "[]" d] obtain d1 where
        d1: "read_line d = Inr (a @ [NL], d1)" "dec_raw d1 = b" "same_control d d1"
        by (auto simp: read_line_def)
      show ?thesis
      proof (cases "parse_chunk_len_line (a @ [NL])")
        case (Inl e)
        then show ?thesis
          using d1 Some ab NeedHeader by (simp add: gives_def next_payload_raw.simps [of d] dec_chunks_def)
      next
        case (Inr n)
        show ?thesis
        proof (cases "n = 0")
          case True
          have "gives (d1\<lparr>dc_state := NeedTrailers\<rparr>) (next_payload_raw (d1\<lparr>dc_state := NeedTrailers\<rparr>))"
            using "1.IH"(1) NeedHeader d1(1) Inr True by blast
          moreover have "next_payload_raw d = next_payload_raw (d1\<lparr>dc_state := NeedTrailers\<rparr>)"
            using NeedHeader d1(1) Inr True by (simp add: next_payload_raw.simps [of d])
          moreover have "dec_chunks d = dec_chunks (d1\<lparr>dc_state := NeedTrailers\<rparr>)"
            using d1 Some ab NeedHeader Inr True by (simp add: dec_chunks_def same_control_def)
          ultimately show ?thesis
            using d1(3) gives_step [of "d1\<lparr>dc_state := NeedTrailers\<rparr>"] by (simp add: same_control_def)
        next
          case False
          have "gives (d1\<lparr>dc_remaining := n, dc_state := NeedData\<rparr>) (next_payload_raw (d1\<lparr>dc_remaining := n, dc_state := NeedData\<rparr>))"
            using "1.IH"(2) NeedHeader d1(1) Inr False by blast
          moreover have "next_payload_raw d = next_payload_raw (d1\<lparr>dc_remaining := n, dc_state := NeedData\<rparr>)"
            using NeedHeader d1(1) Inr False by (simp add: next_payload_raw.simps [of d])
          moreover have "dec_chunks d = dec_chunks (d1\<lparr>dc_remaining := n, dc_state := NeedData\<rparr>)"
            using d1 Some ab NeedHeader Inr False by (simp add: dec_chunks_def same_control_def del: chunked.simps(5))
          ultimately show ?thesis
            using d1(3) gives_step [of "d1\<lparr>dc_remaining := n, dc_state := NeedData\<rparr>"] by (simp add: same_control_def)
        qed
      qed
    qed
  next
    case NeedData
    show ?thesis
    proof (cases "dc_remaining d = 0")
      case True
      have "gives (d\<lparr>dc_state := NeedCrlf\<rparr>) (next_payload_raw (d\<lparr>dc_state := NeedCrlf\<rparr>))"
        using "1.IH"(3) NeedData True by blast
      moreover have "next_payload_raw d = next_payload_raw (d\<lparr>dc_state := NeedCrlf\<rparr>)"
        using NeedData True by (simp add: next_payload_raw.simps [of d])
      moreover have "dec_chunks d = dec_chunks (d\<lparr>dc_state := NeedCrlf\<rparr>)"
        using NeedData True by (simp add: dec_chunks_def split: prod.splits)
      ultimately show ?thesis
        using gives_step [of "d\<lparr>dc_state := NeedCrlf\<rparr>"] by simp
    next
      case False
      then have pos: "0 < unat (dc_remaining d)"
        by (simp add: unat_gt_0)
      show ?thesis
      proof (cases "dec_refill d")
        case (Inl e)
        then show ?thesis
          using NeedData False pos dec_refill_err [OF Inl] by (simp add: gives_def next_payload_raw.simps [of d] dec_chunks_def)
      next
        case (Inr d1)
        note ok = dec_refill_ok [OF Inr]
        show ?thesis
        proof (cases "dc_eof d1 \<and> dc_buf d1 = []")
          case True
          then have "dec_raw d = []" "starved (dec_end d) m = UnexpectedEof m" for m
            using dec_exhausted [of d1] ok(1,2) by (simp_all add: same_control_def)
          with True show ?thesis
            using NeedData False Inr pos by (simp add: gives_def next_payload_raw.simps [of d] dec_chunks_def)
        next
          case more: False
          define k where "k = min (unat (dc_remaining d)) (length (dc_buf d1))"
          define d2 where "d2 = d1\<lparr>dc_buf := drop k (dc_buf d1), dc_remaining := dc_remaining d - of_nat k\<rparr>"
          have k: "0 < k" "k \<le> unat (dc_remaining d)" "k \<le> length (dc_buf d1)"
            using pos more ok(3) by (auto simp: k_def)
          note adv = dec_advance [OF k(3), unfolded ok(1)]
          have "next_payload_raw d = Inr (Some (take k (dec_raw d)), d2)"
            unfolding next_payload_raw.simps [of d] using NeedData False Inr more k adv(2)
            by (simp only: chunk_state.case sum.case if_False Let_def k_def [symmetric] d2_def [symmetric]) auto
          moreover have "unat (dc_remaining d2) = unat (dc_remaining d) - k"
            using k(2) by (simp add: d2_def unat_sub_of_nat)
          moreover have "dec_raw d2 = drop k (dec_raw d)" "dec_end d2 = dec_end d" "dc_state d2 = NeedData"
            "dc_pending d2 = dc_pending d"
            using adv(1) ok(2) NeedData by (simp_all add: d2_def same_control_def)
          moreover have "take k (dec_raw d) \<noteq> []"
            using k(1) adv(3) by (cases "dec_raw d") auto
          ultimately show ?thesis
            using chunked_data [OF k(1,2) adv(3), of "dec_end d"] NeedData
            by (simp add: gives_def dec_chunks_def del: chunked.simps(5))
        qed
      qed
    qed
  next
    case NeedCrlf
    show ?thesis
    proof (cases "consume_exact [CHR 0x0D, NL] d")
      case (Inl e)
      then show ?thesis
        using consume_exact_spec [of "[CHR 0x0D, NL]" d] NeedCrlf
        by (auto simp: gives_def next_payload_raw.simps [of d] dec_chunks_def numeral_2_eq_2 split: if_splits)
    next
      case (Inr d1)
      have "gives (d1\<lparr>dc_state := NeedHeader\<rparr>) (next_payload_raw (d1\<lparr>dc_state := NeedHeader\<rparr>))"
        using "1.IH"(5) NeedCrlf Inr by blast
      moreover have "next_payload_raw d = next_payload_raw (d1\<lparr>dc_state := NeedHeader\<rparr>)"
        using NeedCrlf Inr by (simp add: next_payload_raw.simps [of d])
      moreover have "dec_chunks d = dec_chunks (d1\<lparr>dc_state := NeedHeader\<rparr>)" "dc_pending d1 = dc_pending d"
        using consume_exact_spec [of "[CHR 0x0D, NL]" d] NeedCrlf Inr
        by (auto simp: dec_chunks_def same_control_def numeral_2_eq_2 chunked_header_arg [of _ "unat (dc_remaining d)"]
            simp del: chunked.simps(1-3,5) split: if_splits)
      ultimately show ?thesis
        using gives_step [of "d1\<lparr>dc_state := NeedHeader\<rparr>"] by simp
    qed
  next
    case NeedTrailers
    then show ?thesis
      using trailers_spec [of d]
      by (auto simp: gives_def next_payload_raw.simps [of d] dec_chunks_def split: sum.splits)
  next
    case Done
    then show ?thesis
      by (simp add: gives_def next_payload_raw.simps [of d] dec_chunks_def)
  qed
qed


function dec_read_exact :: "nat \<Rightarrow> decoder \<Rightarrow> read_error + str \<times> decoder" where
  "dec_read_exact n d =
     (if n = 0 then Inr ([], d)
      else if dc_pending d \<noteq> [] then
        (let k = min n (length (dc_pending d)) in
         (case dec_read_exact (n - k) (d\<lparr>dc_pending := drop k (dc_pending d)\<rparr>) of
            Inl e \<Rightarrow> Inl e
          | Inr (bs, d') \<Rightarrow> Inr (take k (dc_pending d) @ bs, d')))
      else (case next_payload_raw d of
          Inl e \<Rightarrow> Inl e
        | Inr (None, d1) \<Rightarrow> Inl short_payload
        | Inr (Some b, d1) \<Rightarrow>
            if b = [] then dec_read_exact n d1
            else (let k = min n (length b);
                      d2 = (if k < length b then d1\<lparr>dc_pending := drop k b\<rparr> else d1)
                  in (case dec_read_exact (n - k) d2 of
                        Inl e \<Rightarrow> Inl e
                      | Inr (bs, d') \<Rightarrow> Inr (take k b @ bs, d')))))"
  by pat_completeness auto

lemma next_payload_raw_nonempty: "next_payload_raw d = Inr (Some b, d') \<Longrightarrow> b \<noteq> []"
  using next_payload_raw_spec [of d] by (simp add: gives_def)

termination dec_read_exact
  by (relation "measure fst") (auto dest: next_payload_raw_nonempty)

declare dec_read_exact.simps [simp del]

fun drain_frames :: "frames \<Rightarrow> read_error + unit" where
  "drain_frames [] = Inr ()"
| "drain_frames (Inl e # fs) = Inl (Broken e)"
| "drain_frames (Inr b # fs) = drain_frames fs"

definition drain_to_eof :: "decoder \<Rightarrow> read_error + unit" where
  "drain_to_eof d = drain_frames (dc_stream d)"

definition dec_payload :: "decoder \<Rightarrow> str" where
  "dec_payload d = dc_pending d @ fst (dec_chunks d)"

definition dec_failure :: "decoder \<Rightarrow> read_error" where
  "dec_failure d = snd (dec_chunks d)"

lemma dec_chunks_pending [simp]: "dec_chunks (d\<lparr>dc_pending := p\<rparr>) = dec_chunks d"
  by (simp add: dec_chunks_def)

lemma dec_read_exact_spec:
  "if n \<le> length (dec_payload d)
   then \<exists>d'. dec_read_exact n d = Inr (take n (dec_payload d), d') \<and> dec_payload d' = drop n (dec_payload d) \<and>
     dec_failure d' = dec_failure d
   else dec_read_exact n d = Inl (dec_failure d)"
proof (induction n d rule: dec_read_exact.induct)
  case (1 n d)
  show ?case
  proof (cases "n = 0")
    case n: False
    show ?thesis
    proof (cases "dc_pending d = []")
      case False
      define k where "k = min n (length (dc_pending d))"
      define d2 where "d2 = d\<lparr>dc_pending := drop k (dc_pending d)\<rparr>"
      have tk: "take k (dc_pending d) = take k (dec_payload d)"
        by (simp add: dec_payload_def k_def)
      have step: "dec_read_exact n d = (case dec_read_exact (n - k) d2 of
            Inl e \<Rightarrow> Inl e | Inr (bs, d') \<Rightarrow> Inr (take k (dec_payload d) @ bs, d'))"
        unfolding dec_read_exact.simps [of n d] tk [symmetric] using n False
        by (simp only: if_False if_True simp_thms k_def [symmetric] d2_def [symmetric] Let_def)
      have pay: "dec_payload d2 = drop k (dec_payload d)" "dec_failure d2 = dec_failure d"
        by (simp_all add: d2_def dec_payload_def dec_failure_def k_def)
      have "k \<le> n" "k \<le> length (dec_payload d)"
        by (simp_all add: k_def dec_payload_def)
      with "1.IH"(1) [OF n False k_def] show ?thesis
        unfolding d2_def [symmetric] step using pay
        by (auto simp: take_add [symmetric] split: if_splits)
    next
      case True
      note spec = next_payload_raw_spec [of d]
      show ?thesis
      proof (cases "next_payload_raw d")
        case (Inl e)
        with spec n True show ?thesis
          by (simp add: gives_def dec_payload_def dec_failure_def dec_read_exact.simps [of n d])
      next
        case (Inr res)
        obtain r d1 where res: "res = (r, d1)" by fastforce
        show ?thesis
        proof (cases r)
          case None
          with spec n True Inr res show ?thesis
            by (simp add: gives_def dec_payload_def dec_failure_def dec_read_exact.simps [of n d])
        next
          case (Some b)
          with spec Inr res have b: "b \<noteq> []" "dc_pending d1 = []"
            "dec_payload d = b @ fst (dec_chunks d1)" "dec_failure d = snd (dec_chunks d1)"
            by (simp_all add: gives_def dec_payload_def dec_failure_def True)
          define k where "k = min n (length b)"
          define d2 where "d2 = (if k < length b then d1\<lparr>dc_pending := drop k b\<rparr> else d1)"
          have "k \<le> length b"
            by (simp add: k_def)
          then have pay: "dec_payload d2 = drop k (dec_payload d)" "dec_failure d2 = dec_failure d"
            using b by (auto simp: d2_def dec_payload_def dec_failure_def)
          have tk: "take k b = take k (dec_payload d)"
            using \<open>k \<le> length b\<close> by (simp add: b(3))
          have step: "dec_read_exact n d = (case dec_read_exact (n - k) d2 of
              Inl e \<Rightarrow> Inl e | Inr (bs, d') \<Rightarrow> Inr (take k (dec_payload d) @ bs, d'))"
            unfolding dec_read_exact.simps [of n d] tk [symmetric] using n True b(1)
            by (simp only: Inr res Some sum.case prod.case option.case if_False if_True simp_thms k_def [symmetric] d2_def [symmetric] Let_def)
          have "k \<le> n" "k \<le> length (dec_payload d)"
            using b(3) by (simp_all add: k_def)
          with "1.IH"(3) [OF n _ Inr res [symmetric] Some b(1) k_def d2_def] True show ?thesis
            unfolding step using pay by (auto simp: take_add [symmetric] split: if_splits)
        qed
      qed
    qed
  qed (simp add: dec_read_exact.simps)
qed

interpretation aws: payload_reader dec_read_exact dec_payload dec_failure
  using dec_read_exact_spec by unfold_locales (metis, metis linorder_not_less)

section \<open>Encoded bodies\<close>

text \<open>
  What a client sends in the \<open>aws-chunked\<close> encoding: chunks, each a size in hexadecimal, extensions
  (the chunk's signature), the data; a chunk of size 0; trailers; and an empty line.
\<close>

type_synonym chunk = "str \<times> str \<times> str"

definition CR_LF :: str where
  "CR_LF = [CHR 0x0D, NL]"

fun encode_chunk :: "chunk \<Rightarrow> str" where
  "encode_chunk (sz, ext, data) = sz @ ext @ CR_LF @ data @ CR_LF"

fun chunk_data :: "chunk \<Rightarrow> str" where
  "chunk_data (sz, ext, data) = data"

definition encode_body :: "chunk list \<Rightarrow> str \<Rightarrow> str list \<Rightarrow> str" where
  "encode_body chunks ext trailers =
     concat (map encode_chunk chunks) @ ''0'' @ ext @ CR_LF @ concat (map (\<lambda>t. t @ CR_LF) trailers) @ CR_LF"

definition valid_ext :: "str \<Rightarrow> bool" where
  "valid_ext ext \<longleftrightarrow> NL \<notin> set ext \<and> (ext = [] \<or> hd ext = CHR '';'')"

fun valid_chunk :: "chunk \<Rightarrow> bool" where
  "valid_chunk (sz, ext, data) \<longleftrightarrow>
     sz \<noteq> [] \<and> from_utf8 sz \<and> CHR '';'' \<notin> set sz \<and> NL \<notin> set sz \<and> valid_ext ext \<and>
     data \<noteq> [] \<and> length data < 2 ^ 64 \<and> parse_usize_hex sz = Some (of_nat (length data))"

definition valid_trailer :: "str \<Rightarrow> bool" where
  "valid_trailer t \<longleftrightarrow> t \<noteq> [] \<and> NL \<notin> set t"

lemma hd_split_on: "c \<notin> set u \<Longrightarrow> v = [] \<or> hd v = c \<Longrightarrow> hd (split_on c (u @ v)) = u"
proof (induction u)
  case Nil
  then show ?case by (cases v) auto
next
  case (Cons x u)
  then show ?case
    by (auto split: list.splits)
qed

lemma parse_size_line:
  assumes "sz \<noteq> []" "from_utf8 sz" "CHR '';'' \<notin> set sz" "valid_ext ext" "parse_usize_hex sz = Some n"
  shows "parse_chunk_len_line (sz @ ext @ [CHR 0x0D] @ [NL]) = Inr n"
proof -
  have "unwrap_or (strip_suffix [NL] (sz @ ext @ [CHR 0x0D] @ [NL])) x = sz @ ext @ [CHR 0x0D]"
    "unwrap_or (strip_suffix [CHR 0x0D] (sz @ ext @ [CHR 0x0D])) x = sz @ ext" for x
    by (simp_all add: strip_suffix_def strip_prefix_def starts_with_def unwrap_or_def)
  moreover have "hd (split_on CHR '';'' (sz @ ext)) = sz"
    using assms by (intro hd_split_on) (auto simp: valid_ext_def)
  ultimately show ?thesis
    using assms by (simp only: parse_chunk_len_line_def Let_def) (simp add: ok_or_def)
qed

lemmas parse_hex_simps =
  parse_usize_hex_def from_str_radix_def digit_of_def is_ascii_digit_def is_ascii_lower_def is_ascii_upper_def

lemma zero_size: "from_utf8 ''0''" "parse_usize_hex ''0'' = Some 0"
  by (simp_all add: ascii_from_utf8 parse_hex_simps)

lemma split_once_line: "NL \<notin> set a \<Longrightarrow> split_once NL (a @ NL # b) = Some (a, b)"
  by (induction a) auto

lemma trailers_failure_encoded:
  "\<forall>t\<in>set ts. valid_trailer t \<Longrightarrow> trailers_failure e (concat (map (\<lambda>t. t @ CR_LF) ts) @ CR_LF @ rest) = short_payload"
proof (induction ts)
  case Nil
  have "split_once NL ([CHR 0x0D] @ NL # rest) = Some ([CHR 0x0D], rest)"
    by (rule split_once_line) simp
  then show ?case
    by (simp add: trailers_failure.simps [of e] CR_LF_def)
next
  case (Cons t ts)
  let ?rest = "concat (map (\<lambda>t. t @ CR_LF) ts) @ CR_LF @ rest"
  have "split_once NL ((t @ [CHR 0x0D]) @ NL # ?rest) = Some (t @ [CHR 0x0D], ?rest)"
    using Cons.prems by (intro split_once_line) (auto simp: valid_trailer_def)
  moreover have "t \<noteq> []"
    using Cons.prems by (simp add: valid_trailer_def)
  ultimately have "trailers_failure e ((t @ [CHR 0x0D]) @ NL # ?rest) = trailers_failure e ?rest"
    by (subst trailers_failure.simps) simp
  with Cons show ?case
    by (simp add: CR_LF_def)
qed

lemma chunked_encoded:
  assumes "\<forall>c\<in>set chunks. valid_chunk c" "valid_ext ext" "\<forall>t\<in>set trailers. valid_trailer t"
  shows "chunked e NeedHeader 0 (encode_body chunks ext trailers @ rest) = (concat (map chunk_data chunks), short_payload)"
  using assms(1)
proof (induction chunks)
  case Nil
  let ?rest = "concat (map (\<lambda>t. t @ CR_LF) trailers) @ CR_LF @ rest"
  have "split_once NL ((''0'' @ ext @ [CHR 0x0D]) @ NL # ?rest) = Some (''0'' @ ext @ [CHR 0x0D], ?rest)"
    using assms(2) by (intro split_once_line) (auto simp: valid_ext_def)
  moreover have "parse_chunk_len_line (''0'' @ ext @ [CHR 0x0D] @ [NL]) = Inr 0"
    using assms(2) zero_size by (intro parse_size_line) simp_all
  ultimately show ?case
    using trailers_failure_encoded [OF assms(3)] by (simp add: encode_body_def CR_LF_def)
next
  case (Cons c chunks)
  obtain sz ext' data where c: "c = (sz, ext', data)" by (cases c)
  let ?rest = "encode_body chunks ext trailers @ rest"
  have "split_once NL ((sz @ ext' @ [CHR 0x0D]) @ NL # data @ CR_LF @ ?rest) = Some (sz @ ext' @ [CHR 0x0D], data @ CR_LF @ ?rest)"
    using Cons.prems c by (intro split_once_line) (auto simp: valid_ext_def)
  moreover have "parse_chunk_len_line (sz @ ext' @ [CHR 0x0D] @ [NL]) = Inr (of_nat (length data))"
    using Cons.prems c by (intro parse_size_line) simp_all
  moreover have "unat (of_nat (length data) :: usize) = length data" "(of_nat (length data) :: usize) \<noteq> 0"
    using Cons.prems c by (simp_all add: unat_of_nat take_bit_eq_mod flip: unat_eq_0)
  moreover have "chunked e NeedData (length data) (data @ CR_LF @ ?rest) = (data @ concat (map chunk_data chunks), short_payload)"
    using Cons.IH Cons.prems by (simp add: chunked.simps(4,5) CR_LF_def del: chunked.simps(1-3))
  ultimately have "chunked e NeedHeader 0 ((sz @ ext' @ [CHR 0x0D]) @ NL # data @ CR_LF @ ?rest) =
      (data @ concat (map chunk_data chunks), short_payload)"
    by (simp add: chunked.simps(3) del: chunked.simps(1,2,4,5))
  then show ?case
    by (simp add: c encode_body_def CR_LF_def)
qed

lemma decoder_new_payload:
  assumes "\<forall>c\<in>set chunks. valid_chunk c" "valid_ext ext" "\<forall>t\<in>set trailers. valid_trailer t"
    and "stream_bytes frames = encode_body chunks ext trailers @ rest"
  shows "dec_payload (decoder_new frames) = concat (map chunk_data chunks)" "dec_failure (decoder_new frames) = short_payload"
  using chunked_encoded [OF assms(1-3)] assms(4)
  by (simp_all add: dec_payload_def dec_failure_def dec_chunks_def decoder_new_def dec_raw_def raw_bytes_def)

text \<open>
  C33. An \<open>aws-chunked\<close> body decodes to the data of its chunks. The chunks may have any valid size
  lines and extensions, trailers may follow, and the bytes may arrive in any frames, followed by
  anything. Reads of any lengths that the data suffice for give it in order. A read past its end
  is an unexpected end of file, never foreign bytes.
\<close>
theorem aws_chunked_roundtrip:
  assumes "\<forall>c\<in>set chunks. valid_chunk c" "valid_ext ext" "\<forall>t\<in>set trailers. valid_trailer t"
    and "stream_bytes frames = encode_body chunks ext trailers @ rest"
  defines "payload \<equiv> concat (map chunk_data chunks)"
  shows "if sum_list ns \<le> length payload
    then \<exists>bs d. aws.read_pieces ns (decoder_new frames) = Inr (bs, d) \<and> concat bs = take (sum_list ns) payload \<and> map length bs = ns
    else aws.read_pieces ns (decoder_new frames) = Inl short_payload"
  using aws.read_pieces_enough [of ns "decoder_new frames"] aws.read_pieces_short [of "decoder_new frames" ns]
  unfolding payload_def decoder_new_payload [OF assms(1-4)] by auto

definition example_chunks :: "chunk list" where
  "example_chunks = [(''A'', '';chunk-signature=ad80'', ''helloworld''), (''3'', [], ''abc'')]"

theorem aws_chunked_roundtrip_witness:
  "\<exists>bs d. aws.read_pieces [4, 9] (decoder_new [Inr (encode_body example_chunks [] [''x-amz-trailer:1''])]) = Inr (bs, d) \<and>
     concat bs = ''helloworldabc'' \<and> map length bs = [4, 9]"
proof -
  have "\<forall>c\<in>set example_chunks. valid_chunk c" "valid_ext []" "\<forall>t\<in>set [''x-amz-trailer:1'']. valid_trailer t"
    by (simp_all add: example_chunks_def valid_ext_def valid_trailer_def ascii_from_utf8 parse_hex_simps)
  from aws_chunked_roundtrip [OF this, of "[Inr (encode_body example_chunks [] [''x-amz-trailer:1''])]" "[]" "[4, 9]"]
  show ?thesis
    by (simp add: example_chunks_def)
qed

text \<open>
  The check for the end of a plain body looks at the stream and not at the buffer: bytes that
  follow the announced length in the frame that completes it are not seen, and the upload of a body
  that is too long is accepted.
\<close>
theorem ensure_eof_misses_buffer:
  assumes "b \<noteq> []"
  shows "\<exists>r. plain_read_exact (length b) (plain_new [Inr (b @ extra)]) = Inr (b, r) \<and> pl_buf r = extra \<and>
    plain_ensure_eof r = Inr ()"
  using assms
  by (simp add: plain_read_exact.simps [of "length b"] plain_read_exact.simps [of 0] plain_refill_def plain_new_def
      plain_ensure_eof_def Let_def)

theorem ensure_eof_misses_buffer_witness:
  "\<exists>r. plain_read_exact 3 (plain_new [Inr ''abcd'']) = Inr (''abc'', r) \<and> pl_buf r = ''d'' \<and> plain_ensure_eof r = Inr ()"
  using ensure_eof_misses_buffer [of "''abc''" "''d''"] by (simp add: numeral_3_eq_3)

end
