(* ===== verification/Uring_Io.thy ===== *)
theory Uring_Io
  imports Rust_Std "HOL-Library.Multiset"
begin

text \<open>
  The shared I/O ring, \<open>crates/s32p-gateway/src/uring_io.rs\<close>: the completion state of a file's
  session, the I/O thread that moves operations through the ring, and the senders that submit them.
  Clients, the kernel and the thread interleave as the steps of \<open>step\<close>. A ring is what
  the \<open>io_uring\<close> documentation says of one: pushed entries wait in the submission queue, submitted
  ones are with the kernel, and a completion carries the entry's id and a result.
\<close>

section \<open>Sessions\<close>

text \<open>
  \<open>SessionInner\<close>. \<open>se_done\<close> says that the \<open>oneshot\<close> sender is still in place, \<open>se_result\<close> is what
  was sent through it.
\<close>

record session =
  se_pending :: usize
  se_closed :: bool
  se_err :: "str option"
  se_done :: bool
  se_result :: "(str + unit) option"
  se_cancel :: bool

definition session_new :: session where
  "session_new = \<lparr>se_pending = 0, se_closed = False, se_err = None, se_done = False, se_result = None,
     se_cancel = False\<rparr>"

definition set_done :: "session \<Rightarrow> session" where
  "set_done s = s\<lparr>se_done := True\<rparr>"

definition on_submit :: "session \<Rightarrow> session" where
  "on_submit s = s\<lparr>se_pending := se_pending s + 1\<rparr>"

definition try_finish :: "session \<Rightarrow> session" where
  "try_finish s =
     (if \<not> se_closed s then s
      else if se_pending s \<noteq> 0 then s
      else if \<not> se_done s then s
      else s\<lparr>se_done := False, se_err := None,
             se_result := Some (case se_err s of Some e \<Rightarrow> Inl e | None \<Rightarrow> Inr ())\<rparr>)"

definition on_complete :: "session \<Rightarrow> session" where
  "on_complete s =
     (let prev = se_pending s; s1 = s\<lparr>se_pending := prev - 1\<rparr>
      in if prev \<le> 1 then try_finish s1 else s1)"

definition session_close :: "session \<Rightarrow> session" where
  "session_close s = try_finish (s\<lparr>se_closed := True\<rparr>)"

definition set_error_once :: "str \<Rightarrow> session \<Rightarrow> session" where
  "set_error_once e s = (if se_err s = None then s\<lparr>se_err := Some e, se_cancel := True\<rparr> else s)"

text \<open>
  A session with \<open>n\<close> operations outstanding, some of whose operations failed (\<open>bad\<close>) or not: it has
  answered exactly when it is closed and nothing is outstanding, and the answer is an error
  exactly when an operation failed.
\<close>

definition sess_ok :: "nat \<Rightarrow> bool \<Rightarrow> session \<Rightarrow> bool" where
  "sess_ok n bad s \<longleftrightarrow>
     se_pending s = of_nat n \<and> n < 2 ^ 64 \<and>
     (se_done s \<longleftrightarrow> se_result s = None) \<and>
     (se_result s \<noteq> None \<longleftrightarrow> se_closed s \<and> n = 0) \<and>
     (if se_result s = None then (se_err s \<noteq> None) = bad
      else se_err s = None \<and> (se_result s \<noteq> Some (Inr ())) = bad)"

lemma word_of_nat_eq_0: "n < 2 ^ 64 \<Longrightarrow> (of_nat n :: usize) = 0 \<longleftrightarrow> n = 0"
  by (simp flip: unat_eq_0 add: unat_of_nat take_bit_eq_mod)

lemma word_wrap: "n < 2 ^ 64 \<Longrightarrow> p = (of_nat n :: usize) \<Longrightarrow> p + 1 \<noteq> 0 \<Longrightarrow> Suc n < 2 ^ 64"
proof -
  assume n: "n < 2 ^ 64" and p: "p = (of_nat n :: usize)" "p + 1 \<noteq> 0"
  have "Suc n \<noteq> 2 ^ 64"
  proof
    assume "Suc n = 2 ^ 64"
    then have "(of_nat (Suc n) :: usize) = 0"
      by (simp add: word_of_nat_eq_0_iff del: of_nat_Suc)
    moreover have "p + 1 = of_nat (Suc n)"
      by (simp add: p(1) add.commute)
    ultimately show False
      using p(2) by (simp only:)
  qed
  with n show ?thesis by simp
qed

lemma sess_ok_new: "sess_ok 0 False (set_done session_new)"
  by (simp add: sess_ok_def set_done_def session_new_def)

lemma sess_ok_submit:
  "sess_ok n bad s \<Longrightarrow> \<not> se_closed s \<Longrightarrow> Suc n < 2 ^ 64 \<Longrightarrow> sess_ok (Suc n) bad (on_submit s)"
  by (auto simp: sess_ok_def on_submit_def add.commute)

lemma sess_ok_finish:
  assumes "se_pending s = of_nat n" "n < 2 ^ 64" "se_done s" "se_result s = None" "(se_err s \<noteq> None) = bad"
    and "\<not> se_closed s \<or> n \<noteq> 0 \<Longrightarrow> s' = s" "se_closed s \<Longrightarrow> n = 0 \<Longrightarrow> s' = try_finish s"
  shows "sess_ok n bad s'"
  using assms word_of_nat_eq_0 [OF assms(2)]
  by (cases "se_closed s \<and> n = 0") (auto simp: sess_ok_def try_finish_def split: option.splits)

lemma sess_ok_complete:
  assumes "sess_ok (Suc n) bad s"
  shows "sess_ok n bad (on_complete s)"
proof (rule sess_ok_finish)
  have n: "Suc n < 2 ^ 64" "n < 2 ^ 64" and pend: "se_pending s = of_nat (Suc n)"
    using assms by (simp_all add: sess_ok_def)
  then have le: "se_pending s \<le> 1 \<longleftrightarrow> n = 0"
    by (simp add: word_le_nat_alt unat_of_nat take_bit_eq_mod del: of_nat_Suc)
  let ?s = "s\<lparr>se_pending := se_pending s - 1\<rparr>"
  show "se_pending ?s = of_nat n" "n < 2 ^ 64" "se_done ?s" "se_result ?s = None" "(se_err ?s \<noteq> None) = bad"
    using assms n by (auto simp: sess_ok_def split: if_splits)
  show "\<not> se_closed ?s \<or> n \<noteq> 0 \<Longrightarrow> on_complete s = ?s" "se_closed ?s \<Longrightarrow> n = 0 \<Longrightarrow> on_complete s = try_finish ?s"
    using le by (auto simp: on_complete_def Let_def try_finish_def)
qed

lemma sess_ok_error: "sess_ok (Suc n) bad s \<Longrightarrow> sess_ok (Suc n) True (set_error_once e s)"
  by (auto simp: sess_ok_def set_error_once_def split: if_splits)

lemma sess_ok_close:
  assumes "sess_ok n bad s"
  shows "sess_ok n bad (session_close s)"
proof (cases "se_result s = None")
  case True
  show ?thesis
    by (rule sess_ok_finish [of "s\<lparr>se_closed := True\<rparr>"])
       (use assms True word_of_nat_eq_0 [of n] in \<open>auto simp: sess_ok_def session_close_def try_finish_def\<close>)
next
  case False
  with assms show ?thesis
    by (auto simp: sess_ok_def session_close_def try_finish_def)
qed

section \<open>Operations and the state of the ring\<close>

datatype op_code = Read | Write

text \<open>
  \<open>ReadItem\<close> and \<open>WriteItem\<close>. \<open>op_buf\<close> is the pooled buffer the operation owns, \<open>op_done\<close> says
  that a read still has its completion sender.
\<close>

record op =
  op_code :: op_code
  op_sess :: nat
  op_off :: u64
  op_len :: usize
  op_buf :: nat
  op_done :: bool

text \<open>Where the I/O thread is in its loop. The numbers count completions left to reap and entries pushed.\<close>

datatype pc = Reap1 nat | Check | Fill nat | Submit nat | Reap2 nat | Decide | Failing | Ended | Gone

text \<open>
  The variables of \<open>io_thread\<close>, the channel to it, the ring, the sessions by number, and the
  operations that are between \<open>on_submit\<close> and the end of the \<open>send\<close>. Three fields are history:
  every operation submitted, every operation that ended with its outcome (for a read this is
  what its completion channel gave), and every operation dropped without one.
\<close>

record uring =
  ur_depth :: nat
  ur_slots :: "op option list"
  ur_free :: "nat list"
  ur_inflight :: nat
  ur_backlog :: "op list"
  ur_rx_closed :: bool
  ur_fatal :: "str option"
  ur_cancel :: bool
  ur_pc :: pc
  ur_chan :: "op list"
  ur_tx_alive :: bool
  ur_sq_cap :: nat
  ur_sq :: "nat list"
  ur_kernel :: "nat list"
  ur_cq :: "(nat \<times> int) list"
  ur_sessions :: "session list"
  ur_sending :: "op list"
  ur_submitted :: "op list"
  ur_ended :: "(op \<times> (str + nat)) list"
  ur_lost :: "op list"

definition uring_spawn :: "nat \<Rightarrow> nat \<Rightarrow> uring" where
  "uring_spawn depth0 sq_cap =
     (let depth = max depth0 1 in
      \<lparr>ur_depth = depth, ur_slots = replicate depth None, ur_free = [0..<depth], ur_inflight = 0,
       ur_backlog = [], ur_rx_closed = False, ur_fatal = None, ur_cancel = False, ur_pc = Reap1 0,
       ur_chan = [], ur_tx_alive = True, ur_sq_cap = sq_cap, ur_sq = [], ur_kernel = [], ur_cq = [],
       ur_sessions = [], ur_sending = [], ur_submitted = [], ur_ended = [], ur_lost = []\<rparr>)"

definition on_session :: "nat \<Rightarrow> (session \<Rightarrow> session) \<Rightarrow> uring \<Rightarrow> uring" where
  "on_session i f st = st\<lparr>ur_sessions := (ur_sessions st)[i := f (ur_sessions st ! i)]\<rparr>"

text \<open>
  The end of an operation: the error is recorded in the session, the completion sent, and the
  session told.
\<close>

definition end_op :: "op \<Rightarrow> str + nat \<Rightarrow> uring \<Rightarrow> uring" where
  "end_op w outcome st =
     on_session (op_sess w)
       (\<lambda>s. on_complete (case outcome of Inl e \<Rightarrow> set_error_once e s | Inr n \<Rightarrow> s))
       (st\<lparr>ur_ended := ur_ended st @ [(w, outcome)]\<rparr>)"

section \<open>The I/O thread\<close>

definition submit_item :: "nat \<Rightarrow> op \<Rightarrow> uring \<Rightarrow> str + uring" where
  "submit_item i w st =
     (if length (ur_sq st) < ur_sq_cap st
      then Inr (st\<lparr>ur_slots := (ur_slots st)[i := Some w], ur_sq := ur_sq st @ [i], ur_inflight := ur_inflight st + 1\<rparr>)
      else Inl ''io_uring SQ full'')"

text \<open>What \<open>reap_all\<close> does with one completion.\<close>

definition write_outcome :: "op \<Rightarrow> int \<Rightarrow> str + nat" where
  "write_outcome w res =
     (if res < 0 then Inl (''io_uring write failed at off='' @ show_nat (unat (op_off w)) @ '': errno='' @ show_nat (nat (- res)))
      else if nat res \<noteq> unat (op_len w)
      then Inl (''short io_uring write at off='' @ show_nat (unat (op_off w)) @ '': wrote '' @ show_nat (nat res) @
             '', expected '' @ show_nat (unat (op_len w)))
      else Inr (nat res))"

definition read_outcome :: "op \<Rightarrow> int \<Rightarrow> (str + nat) \<times> bool" where
  "read_outcome r res =
     (if res < 0
      then (Inl (''io_uring read failed at off='' @ show_nat (unat (op_off r)) @ '': errno='' @ show_nat (nat (- res))), False)
      else if nat res > unat (op_len r)
      then (Inl (''io_uring read returned n='' @ show_nat (nat res) @ '' > requested '' @ show_nat (unat (op_len r)) @
             '' at off='' @ show_nat (unat (op_off r))), True)
      else if op_done r then (Inr (nat res), False)
      else (Inl ''missing read completion sender'', True))"

definition reap_cqe :: "nat \<times> int \<Rightarrow> uring \<Rightarrow> uring" where
  "reap_cqe cqe st =
     (let i = fst cqe; res = snd cqe;
          item = (if i < length (ur_slots st) then ur_slots st ! i else None);
          st1 = st\<lparr>ur_slots := (ur_slots st)[i := None], ur_free := ur_free st @ [i], ur_inflight := ur_inflight st - 1\<rparr>
      in case item of
           None \<Rightarrow> st1\<lparr>ur_fatal := Some (''io_uring completion for unknown id='' @ show_nat i), ur_cancel := True\<rparr>
         | Some w \<Rightarrow>
             (case op_code w of
                Write \<Rightarrow> end_op w (write_outcome w res) st1
              | Read \<Rightarrow>
                  (let (outcome, fatal) = read_outcome w res;
                       st2 = end_op w outcome st1
                   in if fatal then st2\<lparr>ur_cancel := True\<rparr> else st2)))"

text \<open>One turn of \<open>reap_all\<close>'s loop, over the completions that were there when it began.\<close>

definition reap_step :: "(nat \<Rightarrow> pc) \<Rightarrow> pc \<Rightarrow> nat \<Rightarrow> uring \<Rightarrow> uring" where
  "reap_step again after n st =
     (case (n, ur_cq st) of
        (Suc k, c # cs) \<Rightarrow> (reap_cqe c (st\<lparr>ur_cq := cs\<rparr>))\<lparr>ur_pc := again k\<rparr>
      | _ \<Rightarrow> st\<lparr>ur_pc := after\<rparr>)"

definition restart :: "uring \<Rightarrow> uring" where
  "restart st = st\<lparr>ur_pc := Reap1 (length (ur_cq st))\<rparr>"

definition set_fatal :: "str \<Rightarrow> uring \<Rightarrow> uring" where
  "set_fatal e st = st\<lparr>ur_fatal := Some e, ur_cancel := True\<rparr>"

text \<open>The branch on cancellation: everything that is queued or in a slot fails.\<close>

definition fail_item :: "op \<Rightarrow> uring \<Rightarrow> uring" where
  "fail_item w st =
     end_op w (Inl (case ur_fatal st of Some e \<Rightarrow> e | None \<Rightarrow> ''uring io cancelled'')) st"

fun first_taken :: "op option list \<Rightarrow> (nat \<times> op) option" where
  "first_taken [] = None"
| "first_taken (Some w # xs) = Some (0, w)"
| "first_taken (None # xs) = map_option (\<lambda>(i, w). (Suc i, w)) (first_taken xs)"

definition fail_step :: "uring \<Rightarrow> uring" where
  "fail_step st =
     (case ur_backlog st of
        w # rest \<Rightarrow> fail_item w (st\<lparr>ur_backlog := rest\<rparr>)
      | [] \<Rightarrow>
          (case first_taken (ur_slots st) of
             Some (i, w) \<Rightarrow> fail_item w (st\<lparr>ur_slots := (ur_slots st)[i := None]\<rparr>)
           | None \<Rightarrow>
               (case ur_chan st of
                  w # rest \<Rightarrow> fail_item w (st\<lparr>ur_chan := rest\<rparr>)
                | [] \<Rightarrow> st\<lparr>ur_pc := Ended\<rparr>)))"

text \<open>One turn of the loop that fills the submission queue.\<close>

definition place :: "nat \<Rightarrow> op \<Rightarrow> nat \<Rightarrow> uring \<Rightarrow> uring" where
  "place i w pushed st =
     (case submit_item i w st of
        Inr st1 \<Rightarrow> st1\<lparr>ur_pc := Fill (pushed + 1)\<rparr>
      | Inl e \<Rightarrow> set_fatal e (st\<lparr>ur_backlog := w # ur_backlog st, ur_free := i # ur_free st, ur_pc := Submit pushed\<rparr>))"

definition fill_step :: "nat \<Rightarrow> uring \<Rightarrow> uring" where
  "fill_step pushed st =
     (if ur_depth st \<le> ur_inflight st then st\<lparr>ur_pc := Submit pushed\<rparr>
      else (case ur_free st of
          [] \<Rightarrow> st\<lparr>ur_pc := Submit pushed\<rparr>
        | i # free \<Rightarrow>
            (case ur_backlog st of
               w # rest \<Rightarrow> place i w pushed (st\<lparr>ur_free := free, ur_backlog := rest\<rparr>)
             | [] \<Rightarrow>
                 (case ur_chan st of
                    w # rest \<Rightarrow> place i w pushed (st\<lparr>ur_free := free, ur_chan := rest\<rparr>)
                  | [] \<Rightarrow>
                      if ur_tx_alive st then st\<lparr>ur_pc := Submit pushed\<rparr>
                      else st\<lparr>ur_rx_closed := True, ur_pc := Submit pushed\<rparr>))))"

definition ring_submit :: "uring \<Rightarrow> uring" where
  "ring_submit st = st\<lparr>ur_kernel := ur_kernel st @ ur_sq st, ur_sq := []\<rparr>"

definition submit_step :: "str option \<Rightarrow> nat \<Rightarrow> uring \<Rightarrow> uring" where
  "submit_step err pushed st =
     (if 0 < pushed then
        (case err of
           None \<Rightarrow> (let st1 = ring_submit st in st1\<lparr>ur_pc := Reap2 (length (ur_cq st1))\<rparr>)
         | Some e \<Rightarrow> restart (set_fatal (''io_uring submit failed: '' @ e) st))
      else st\<lparr>ur_pc := Reap2 (length (ur_cq st))\<rparr>)"

text \<open>
  The end of an iteration. The thread blocks in \<open>submit_and_wait\<close> until there is a completion, and
  in \<open>blocking_recv\<close> until there is a message or no sender is left; \<open>None\<close> is a blocked thread.
  \<open>err\<close> is the error of the ring's system call, if it fails.
\<close>

definition decide_step :: "str option \<Rightarrow> uring \<Rightarrow> uring option" where
  "decide_step err st =
     (if ur_fatal st \<noteq> None then Some (restart (st\<lparr>ur_cancel := True\<rparr>))
      else if ur_rx_closed st \<and> ur_inflight st = 0 \<and> ur_backlog st = [] then Some (st\<lparr>ur_pc := Ended\<rparr>)
      else if 0 < ur_inflight st then
        (case err of
           Some e \<Rightarrow> Some (restart (set_fatal (''io_uring submit_and_wait failed: '' @ e) st))
         | None \<Rightarrow>
             if ur_cq st \<noteq> [] then Some (restart (ring_submit st))
             else if ur_sq st \<noteq> [] then Some (ring_submit st)
             else None)
      else if \<not> ur_rx_closed st then
        (case ur_chan st of
           w # rest \<Rightarrow> Some (restart (st\<lparr>ur_chan := rest, ur_backlog := ur_backlog st @ [w]\<rparr>))
         | [] \<Rightarrow> if ur_tx_alive st then None else Some (restart (st\<lparr>ur_rx_closed := True\<rparr>)))
      else Some (restart st))"

definition io_step :: "str option \<Rightarrow> uring \<Rightarrow> uring option" where
  "io_step err st =
     (case ur_pc st of
        Reap1 n \<Rightarrow> Some (reap_step Reap1 Check n st)
      | Check \<Rightarrow>
          (let cancel = ur_cancel st \<or> ur_fatal st \<noteq> None
           in Some (st\<lparr>ur_cancel := cancel, ur_pc := if cancel then Failing else Fill 0\<rparr>))
      | Failing \<Rightarrow> Some (fail_step st)
      | Fill n \<Rightarrow> Some (fill_step n st)
      | Submit n \<Rightarrow> Some (submit_step err n st)
      | Reap2 n \<Rightarrow> Some (reap_step Reap2 Decide n st)
      | Decide \<Rightarrow> decide_step err st
      | Ended \<Rightarrow> Some (st\<lparr>ur_lost := ur_lost st @ ur_chan st, ur_chan := [], ur_pc := Gone\<rparr>)
      | Gone \<Rightarrow> None)"

section \<open>The senders\<close>

definition is_cancelled :: "nat \<Rightarrow> uring \<Rightarrow> bool" where
  "is_cancelled i st \<longleftrightarrow> ur_cancel st \<or> se_cancel (ur_sessions st ! i)"

definition sender :: "uring \<Rightarrow> uring" where
  "sender st = st\<lparr>ur_sessions := ur_sessions st @ [set_done session_new]\<rparr>"

text \<open>
  \<open>write\<close> and \<open>read\<close> up to the \<open>send\<close>; the \<open>send\<close> that succeeds; the one that finds the receiver
  gone. A future that is dropped while it waits in the \<open>send\<close> (\<open>select!\<close> on the cancellation)
  leaves the session as it is.
\<close>

definition begin_op :: "op \<Rightarrow> uring \<Rightarrow> str + uring" where
  "begin_op w st =
     (if is_cancelled (op_sess w) st then Inl ''uring sender cancelled''
      else Inr (on_session (op_sess w) on_submit
        (st\<lparr>ur_sending := ur_sending st @ [w], ur_submitted := ur_submitted st @ [w]\<rparr>)))"

definition send_ok :: "op \<Rightarrow> uring \<Rightarrow> uring" where
  "send_ok w st = st\<lparr>ur_sending := remove1 w (ur_sending st), ur_chan := ur_chan st @ [w]\<rparr>"

definition send_err :: "op \<Rightarrow> uring \<Rightarrow> uring" where
  "send_err w st = end_op w (Inl ''uring io thread stopped'') (st\<lparr>ur_sending := remove1 w (ur_sending st)\<rparr>)"

definition send_dropped :: "op \<Rightarrow> uring \<Rightarrow> uring" where
  "send_dropped w st = st\<lparr>ur_sending := remove1 w (ur_sending st), ur_lost := ur_lost st @ [w]\<rparr>"

definition close_sender :: "nat \<Rightarrow> uring \<Rightarrow> uring" where
  "close_sender i st = on_session i session_close st"

text \<open>
  The steps of the system. A sender submits nothing once it is closed: \<open>wait\<close> consumes it. The
  counter of a session does not wrap: each pending operation owns a buffer in memory.
\<close>

inductive step :: "uring \<Rightarrow> uring \<Rightarrow> bool" where
  new_sender: "step st (sender st)"
| begins: "op_sess w < length (ur_sessions st) \<Longrightarrow> \<not> se_closed (ur_sessions st ! op_sess w) \<Longrightarrow> ur_tx_alive st \<Longrightarrow>
    op_done w \<Longrightarrow> se_pending (ur_sessions st ! op_sess w) + 1 \<noteq> 0 \<Longrightarrow> begin_op w st = Inr st' \<Longrightarrow> step st st'"
| sends: "w \<in> set (ur_sending st) \<Longrightarrow> ur_pc st \<noteq> Gone \<Longrightarrow> length (ur_chan st) < ur_depth st \<Longrightarrow> step st (send_ok w st)"
| refused: "w \<in> set (ur_sending st) \<Longrightarrow> ur_pc st = Gone \<Longrightarrow> step st (send_err w st)"
| dropped: "w \<in> set (ur_sending st) \<Longrightarrow> is_cancelled (op_sess w) st \<Longrightarrow> step st (send_dropped w st)"
| closes: "i < length (ur_sessions st) \<Longrightarrow> step st (close_sender i st)"
| senders_gone: "ur_sending st = [] \<Longrightarrow> step st (st\<lparr>ur_tx_alive := False\<rparr>)"
| kernel: "i \<in> set (ur_kernel st) \<Longrightarrow>
    step st (st\<lparr>ur_kernel := remove1 i (ur_kernel st), ur_cq := ur_cq st @ [(i, res)]\<rparr>)"
| thread: "io_step err st = Some st' \<Longrightarrow> step st st'"

inductive_cases stepE: "step st st'"

text \<open>\<open>IoUring::new\<close> gives a submission queue of at least the entries asked for.\<close>

inductive reachable :: "uring \<Rightarrow> bool" where
  start: "max depth 1 \<le> sq_cap \<Longrightarrow> reachable (uring_spawn depth sq_cap)"
| more: "reachable st \<Longrightarrow> step st st' \<Longrightarrow> reachable st'"

text \<open>The steps as a function of what acts next, to run the system on examples.\<close>

datatype action = New_Sender | Begin op | Send op | Refuse op | Drop_Send op | Close nat | Kernel nat int | Thread "str option"

fun act :: "action \<Rightarrow> uring \<Rightarrow> uring option" where
  "act New_Sender st = Some (sender st)"
| "act (Begin w) st =
     (if op_sess w < length (ur_sessions st) \<and> \<not> se_closed (ur_sessions st ! op_sess w) \<and> ur_tx_alive st \<and> op_done w \<and>
         se_pending (ur_sessions st ! op_sess w) + 1 \<noteq> 0
      then (case begin_op w st of Inl e \<Rightarrow> None | Inr st' \<Rightarrow> Some st') else None)"
| "act (Send w) st =
     (if w \<in> set (ur_sending st) \<and> ur_pc st \<noteq> Gone \<and> length (ur_chan st) < ur_depth st then Some (send_ok w st) else None)"
| "act (Refuse w) st = (if w \<in> set (ur_sending st) \<and> ur_pc st = Gone then Some (send_err w st) else None)"
| "act (Drop_Send w) st =
     (if w \<in> set (ur_sending st) \<and> is_cancelled (op_sess w) st then Some (send_dropped w st) else None)"
| "act (Close i) st = (if i < length (ur_sessions st) then Some (close_sender i st) else None)"
| "act (Kernel i res) st =
     (if i \<in> set (ur_kernel st)
      then Some (st\<lparr>ur_kernel := remove1 i (ur_kernel st), ur_cq := ur_cq st @ [(i, res)]\<rparr>) else None)"
| "act (Thread err) st = io_step err st"

fun run :: "action list \<Rightarrow> uring \<Rightarrow> uring option" where
  "run [] st = Some st"
| "run (a # as) st = (case act a st of None \<Rightarrow> None | Some st' \<Rightarrow> run as st')"

lemma act_step: "act a st = Some st' \<Longrightarrow> step st st'"
  by (cases a) (auto intro: step.intros split: if_splits sum.splits)

lemma run_reachable: "reachable st \<Longrightarrow> run as st = Some st' \<Longrightarrow> reachable st'"
  by (induction as arbitrary: st) (auto dest: act_step intro: reachable.more split: option.splits)

lemma example_reachable: "run as (uring_spawn 1 1) = Some st \<Longrightarrow> reachable st"
  using reachable.start [of 1 1] by (simp add: run_reachable)

section \<open>Accounting\<close>

text \<open>
  Every operation submitted is outstanding (on its way, queued, in a slot, or dropped) or has
  ended, and every session counts its outstanding ones.
\<close>

definition slot_ops :: "op option list \<Rightarrow> op list" where
  "slot_ops xs = concat (map (\<lambda>x. case x of None \<Rightarrow> [] | Some w \<Rightarrow> [w]) xs)"

definition outstanding :: "uring \<Rightarrow> op multiset" where
  "outstanding st = mset (ur_sending st) + mset (ur_chan st) + mset (ur_backlog st) + mset (slot_ops (ur_slots st)) + mset (ur_lost st)"

definition of_sess :: "nat \<Rightarrow> op multiset \<Rightarrow> nat" where
  "of_sess i ws = size (filter_mset (\<lambda>w. op_sess w = i) ws)"

definition failed_op :: "nat \<Rightarrow> (op \<times> (str + nat)) list \<Rightarrow> bool" where
  "failed_op i ended \<longleftrightarrow> (\<exists>(w, r)\<in>set ended. op_sess w = i \<and> isl r)"

definition outcome_ok :: "op \<times> (str + nat) \<Rightarrow> bool" where
  "outcome_ok e \<longleftrightarrow>
     (case snd e of
        Inl m \<Rightarrow> True
      | Inr n \<Rightarrow> (case op_code (fst e) of Write \<Rightarrow> n = unat (op_len (fst e)) | Read \<Rightarrow> n \<le> unat (op_len (fst e))))"

definition accounted :: "uring \<Rightarrow> bool" where
  "accounted st \<longleftrightarrow>
     mset (ur_submitted st) = outstanding st + mset (map fst (ur_ended st)) \<and>
     (\<forall>w\<in>set (ur_submitted st). op_sess w < length (ur_sessions st)) \<and>
     (\<forall>e\<in>set (ur_ended st). outcome_ok e) \<and>
     (\<forall>i<length (ur_sessions st).
        sess_ok (of_sess i (outstanding st)) (failed_op i (ur_ended st)) (ur_sessions st ! i))"

lemma of_sess_simps [simp]:
  "of_sess i {#} = 0"
  "of_sess i (add_mset w ws) = (if op_sess w = i then Suc (of_sess i ws) else of_sess i ws)"
  "of_sess i (ws + vs) = of_sess i ws + of_sess i vs"
  by (simp_all add: of_sess_def)

lemma of_sess_0: "\<forall>w\<in>#ws. op_sess w \<noteq> i \<Longrightarrow> of_sess i ws = 0"
  by (induction ws) auto

lemma failed_op_snoc [simp]:
  "failed_op i (ended @ [(w, r)]) \<longleftrightarrow> failed_op i ended \<or> op_sess w = i \<and> isl r"
  by (auto simp: failed_op_def)

lemma slot_ops_set:
  "i < length xs \<Longrightarrow> xs ! i = None \<Longrightarrow> mset (slot_ops (xs[i := Some w])) = add_mset w (mset (slot_ops xs))"
  "i < length xs \<Longrightarrow> xs ! i = Some w \<Longrightarrow> add_mset w (mset (slot_ops (xs[i := None]))) = mset (slot_ops xs)"
proof -
  have cut: "xs[i := x] = take i xs @ x # drop (Suc i) xs" if "i < length xs" for x
    using that by (rule upd_conv_take_nth_drop)
  have same: "slot_ops xs = slot_ops (take i xs) @ slot_ops [xs ! i] @ slot_ops (drop (Suc i) xs)" if "i < length xs"
    using id_take_nth_drop [OF that] by (metis append.left_neutral append_Cons concat_append map_append slot_ops_def)
  show "i < length xs \<Longrightarrow> xs ! i = None \<Longrightarrow> mset (slot_ops (xs[i := Some w])) = add_mset w (mset (slot_ops xs))"
    using same by (simp add: cut) (simp add: slot_ops_def)
  show "i < length xs \<Longrightarrow> xs ! i = Some w \<Longrightarrow> add_mset w (mset (slot_ops (xs[i := None]))) = mset (slot_ops xs)"
    using same by (simp add: cut) (simp add: slot_ops_def)
qed

lemma slot_ops_none: "\<not> (i < length xs \<and> xs ! i \<noteq> None) \<Longrightarrow> slot_ops (xs[i := None]) = slot_ops xs"
  by (metis list_update_beyond list_update_id not_less)

text \<open>A step that only moves operations keeps the account; so does the end of one of them.\<close>

lemma accounted_move:
  assumes "accounted st" "outstanding st' = outstanding st" "ur_submitted st' = ur_submitted st"
    "ur_ended st' = ur_ended st" "ur_sessions st' = ur_sessions st"
  shows "accounted st'"
  using assms by (simp add: accounted_def)

lemma accounted_end:
  assumes acc: "accounted st" and out: "outstanding st = add_mset w (outstanding st1)"
    and same: "ur_submitted st1 = ur_submitted st" "ur_ended st1 = ur_ended st" "ur_sessions st1 = ur_sessions st"
    and ok: "outcome_ok (w, r)"
  shows "accounted (end_op w r st1)"
proof -
  let ?st = "end_op w r st1"
  let ?f = "\<lambda>s. on_complete (case r of Inl e \<Rightarrow> set_error_once e s | Inr n \<Rightarrow> s)"
  have st: "outstanding ?st = outstanding st1" "ur_submitted ?st = ur_submitted st" "ur_ended ?st = ur_ended st @ [(w, r)]"
    "ur_sessions ?st = (ur_sessions st)[op_sess w := ?f (ur_sessions st ! op_sess w)]"
    by (cases r; simp add: end_op_def on_session_def outstanding_def same)+
  have "w \<in># mset (ur_submitted st)"
    using acc out by (simp add: accounted_def)
  then have w: "op_sess w < length (ur_sessions st)"
    using acc by (auto simp: accounted_def)
  have "sess_ok (of_sess i (outstanding st1)) (failed_op i (ur_ended st @ [(w, r)])) (ur_sessions ?st ! i)"
    if i: "i < length (ur_sessions st)" for i
  proof -
    have pre: "sess_ok (of_sess i (add_mset w (outstanding st1))) (failed_op i (ur_ended st)) (ur_sessions st ! i)"
      using acc i unfolding accounted_def out by blast
    show ?thesis
    proof (cases "op_sess w = i")
      case True
      with pre show ?thesis
        unfolding st using i by (cases r) (auto intro!: sess_ok_complete sess_ok_error)
    next
      case False
      with pre i show ?thesis
        by (simp add: st)
    qed
  qed
  with acc ok w show ?thesis
    unfolding accounted_def st by (auto simp: out)
qed

lemma accounted_begin:
  assumes acc: "accounted st" and w: "op_sess w < length (ur_sessions st)" "\<not> se_closed (ur_sessions st ! op_sess w)"
    and few: "se_pending (ur_sessions st ! op_sess w) + 1 \<noteq> 0" and st': "begin_op w st = Inr st'"
  shows "accounted st'"
proof -
  have st: "outstanding st' = add_mset w (outstanding st)" "ur_submitted st' = ur_submitted st @ [w]" "ur_ended st' = ur_ended st"
    "ur_sessions st' = (ur_sessions st)[op_sess w := on_submit (ur_sessions st ! op_sess w)]"
    using st' by (auto simp: begin_op_def on_session_def outstanding_def split: if_splits)
  have "sess_ok (of_sess (op_sess w) (outstanding st)) (failed_op (op_sess w) (ur_ended st)) (ur_sessions st ! op_sess w)"
    using acc w(1) by (simp add: accounted_def)
  then have "Suc (of_sess (op_sess w) (outstanding st)) < 2 ^ 64"
    using few word_wrap unfolding sess_ok_def by blast
  with acc w show ?thesis
    unfolding accounted_def st by (auto simp: nth_list_update intro!: sess_ok_submit)
qed

lemma accounted_close: "accounted st \<Longrightarrow> i < length (ur_sessions st) \<Longrightarrow> accounted (close_sender i st)"
  by (auto simp: accounted_def close_sender_def on_session_def outstanding_def nth_list_update intro!: sess_ok_close)

lemma accounted_sender:
  assumes "accounted st"
  shows "accounted (sender st)"
proof -
  have "of_sess (length (ur_sessions st)) (outstanding st) = 0" "\<not> failed_op (length (ur_sessions st)) (ur_ended st)"
  proof -
    have "\<forall>w\<in># mset (ur_submitted st). op_sess w < length (ur_sessions st)"
      using assms unfolding accounted_def set_mset_mset by blast
    moreover have "mset (ur_submitted st) = outstanding st + mset (map fst (ur_ended st))"
      using assms by (simp add: accounted_def)
    ultimately have "\<forall>w\<in># outstanding st + mset (map fst (ur_ended st)). op_sess w < length (ur_sessions st)"
      by (simp only:)
    then have all: "w \<in># outstanding st \<Longrightarrow> op_sess w < length (ur_sessions st)"
      "(w, r) \<in> set (ur_ended st) \<Longrightarrow> op_sess w < length (ur_sessions st)" for w r
      by force+
    show "of_sess (length (ur_sessions st)) (outstanding st) = 0"
      by (rule of_sess_0) (use all(1) less_irrefl in \<open>metis\<close>)
    show "\<not> failed_op (length (ur_sessions st)) (ur_ended st)"
      using all(2) by (fastforce simp: failed_op_def)
  qed
  moreover have "outstanding (sender st) = outstanding st" "ur_submitted (sender st) = ur_submitted st"
    "ur_ended (sender st) = ur_ended st" "ur_sessions (sender st) = ur_sessions st @ [set_done session_new]"
    by (simp_all add: sender_def outstanding_def)
  ultimately show ?thesis
    using assms sess_ok_new unfolding accounted_def by (auto simp: nth_append less_Suc_eq)
qed

section \<open>The ring\<close>

text \<open>
  While the thread runs, the ids in the ring are the taken slots, each once, and the free ones are
  the rest.
\<close>

definition ring_ids :: "uring \<Rightarrow> nat list" where
  "ring_ids st = ur_sq st @ ur_kernel st @ map fst (ur_cq st)"

definition running :: "pc \<Rightarrow> bool" where
  "running p \<longleftrightarrow> p \<noteq> Failing \<and> p \<noteq> Ended \<and> p \<noteq> Gone"

definition ring_ok :: "uring \<Rightarrow> bool" where
  "ring_ok st \<longleftrightarrow>
     length (ur_slots st) = ur_depth st \<and> 0 < ur_depth st \<and> ur_depth st \<le> ur_sq_cap st \<and>
     distinct (ur_free st) \<and> set (ur_free st) = {i. i < ur_depth st \<and> ur_slots st ! i = None} \<and>
     distinct (ring_ids st) \<and> set (ring_ids st) = {i. i < ur_depth st \<and> ur_slots st ! i \<noteq> None} \<and>
     ur_inflight st = length (ring_ids st)"

text \<open>The thread fails fatally only when a system call of the ring does.\<close>

definition fatal_ok :: "str option \<Rightarrow> bool" where
  "fatal_ok f \<longleftrightarrow> (case f of None \<Rightarrow> True | Some e \<Rightarrow> starts_with ''io_uring submit'' e)"

definition uring_inv :: "uring \<Rightarrow> bool" where
  "uring_inv st \<longleftrightarrow> accounted st \<and> fatal_ok (ur_fatal st) \<and> (running (ur_pc st) \<longrightarrow> ring_ok st)"

lemma slots_none:
  assumes "length slots = n" "i < n"
  shows "{j. j < n \<and> slots[i := None] ! j = None} = insert i {j. j < n \<and> slots ! j = None}"
    "{j. j < n \<and> slots[i := None] ! j \<noteq> None} = {j. j < n \<and> slots ! j \<noteq> None} - {i}"
  using assms by (auto simp: nth_list_update)

lemma slots_some:
  assumes "length slots = n" "i < n"
  shows "{j. j < n \<and> slots[i := Some w] ! j = None} = {j. j < n \<and> slots ! j = None} - {i}"
    "{j. j < n \<and> slots[i := Some w] ! j \<noteq> None} = insert i {j. j < n \<and> slots ! j \<noteq> None}"
  using assms by (auto simp: nth_list_update)

lemma ring_okI:
  assumes "ring_ok st" "ur_slots st' = ur_slots st" "ur_depth st' = ur_depth st" "ur_sq_cap st' = ur_sq_cap st"
    "ur_free st' = ur_free st" "ur_inflight st' = ur_inflight st" "mset (ring_ids st') = mset (ring_ids st)"
  shows "ring_ok st'"
proof -
  have "distinct (ring_ids st') = distinct (ring_ids st)" "set (ring_ids st') = set (ring_ids st)"
    "length (ring_ids st') = length (ring_ids st)"
    using mset_eq_imp_distinct_iff [OF assms(7)] mset_eq_setD [OF assms(7)] mset_eq_length [OF assms(7)] by simp_all
  with assms show ?thesis
    by (simp add: ring_ok_def)
qed

lemma end_op_ring [simp]:
  "ur_slots (end_op w r st) = ur_slots st" "ur_depth (end_op w r st) = ur_depth st"
  "ur_sq_cap (end_op w r st) = ur_sq_cap st" "ur_free (end_op w r st) = ur_free st"
  "ur_inflight (end_op w r st) = ur_inflight st" "ring_ids (end_op w r st) = ring_ids st"
  "ur_pc (end_op w r st) = ur_pc st" "ur_lost (end_op w r st) = ur_lost st" "ur_sending (end_op w r st) = ur_sending st"
  "ur_cancel (end_op w r st) = ur_cancel st" "ur_kernel (end_op w r st) = ur_kernel st" "ur_fatal (end_op w r st) = ur_fatal st"
  "outstanding (end_op w r st) = outstanding st" "ur_submitted (end_op w r st) = ur_submitted st"
  "ur_ended (end_op w r st) = ur_ended st @ [(w, r)]"
  by (simp_all add: end_op_def on_session_def ring_ids_def outstanding_def)

lemma end_op_ring_ok: "ring_ok st \<Longrightarrow> ring_ok (end_op w r st)"
  by (simp add: ring_ok_def)

lemma write_outcome_ok: "op_code w = Write \<Longrightarrow> outcome_ok (w, write_outcome w res)"
  by (simp add: outcome_ok_def write_outcome_def)

lemma read_outcome_ok: "op_code w = Read \<Longrightarrow> read_outcome w res = (r, f) \<Longrightarrow> outcome_ok (w, r)"
  by (auto simp: outcome_ok_def read_outcome_def split: if_splits)

text \<open>A completion that the thread reaps is for a taken slot: its operation ends.\<close>

lemma reap_ring:
  assumes ok: "ring_ok st" and cq: "ur_cq st = c # cs"
  defines "i \<equiv> fst c"
  defines "st1 \<equiv> st\<lparr>ur_cq := cs, ur_slots := (ur_slots st)[i := None], ur_free := ur_free st @ [i], ur_inflight := ur_inflight st - 1\<rparr>"
  shows "\<exists>w. i < length (ur_slots st) \<and> ur_slots st ! i = Some w \<and> ring_ok st1 \<and> outstanding st = add_mset w (outstanding st1)"
proof -
  have "i \<in> set (ring_ids st)"
    by (simp add: ring_ids_def cq i_def)
  then obtain w where w: "i < ur_depth st" "ur_slots st ! i = Some w"
    using ok by (auto simp: ring_ok_def)
  have len: "i < length (ur_slots st)"
    using ok w by (simp add: ring_ok_def)
  have ids: "mset (ring_ids st) = mset (i # ring_ids st1)"
    by (simp add: ring_ids_def st1_def cq i_def)
  have ids1: "distinct (i # ring_ids st1)" "set (ring_ids st) = insert i (set (ring_ids st1))"
    "length (ring_ids st) = Suc (length (ring_ids st1))"
    using ok mset_eq_imp_distinct_iff [OF ids] mset_eq_setD [OF ids] mset_eq_length [OF ids] by (simp_all add: ring_ok_def)
  have st: "length (ur_slots st) = ur_depth st" "0 < ur_depth st" "ur_depth st \<le> ur_sq_cap st" "distinct (ur_free st)"
    "i \<notin> set (ur_free st)" "set (ur_free st) = {i. i < ur_depth st \<and> ur_slots st ! i = None}"
    "set (ring_ids st) = {i. i < ur_depth st \<and> ur_slots st ! i \<noteq> None}" "ur_inflight st = length (ring_ids st)"
    using ok w by (simp_all add: ring_ok_def)
  have st1: "ur_depth st1 = ur_depth st" "ur_slots st1 = (ur_slots st)[i := None]" "ur_free st1 = ur_free st @ [i]"
    "ur_inflight st1 = ur_inflight st - 1" "ur_sq_cap st1 = ur_sq_cap st"
    by (simp_all add: st1_def)
  have "set (ring_ids st1) = set (ring_ids st) - {i}"
    using ids1(1,2) by auto
  then have "ring_ok st1"
    unfolding ring_ok_def st1 slots_none [OF st(1) w(1)] using ids1 st by simp
  moreover have "outstanding st = add_mset w (outstanding st1)"
    by (simp add: outstanding_def st1_def slot_ops_set(2) [OF len w(2), symmetric])
  ultimately show ?thesis
    using w len by blast
qed

lemma reap_cqe_inv:
  assumes acc: "accounted st" and ok: "ring_ok st" and cq: "ur_cq st = c # cs"
  shows "accounted (reap_cqe c (st\<lparr>ur_cq := cs\<rparr>)) \<and> ring_ok (reap_cqe c (st\<lparr>ur_cq := cs\<rparr>)) \<and>
    ur_fatal (reap_cqe c (st\<lparr>ur_cq := cs\<rparr>)) = ur_fatal st"
proof -
  define st1 where "st1 = st\<lparr>ur_cq := cs, ur_slots := (ur_slots st)[fst c := None], ur_free := ur_free st @ [fst c],
    ur_inflight := ur_inflight st - 1\<rparr>"
  from reap_ring [OF ok cq] obtain w where
    w: "fst c < length (ur_slots st)" "ur_slots st ! fst c = Some w" and
    st1: "ring_ok st1" "outstanding st = add_mset w (outstanding st1)"
    unfolding st1_def by blast
  have same: "ur_submitted st1 = ur_submitted st" "ur_ended st1 = ur_ended st" "ur_sessions st1 = ur_sessions st"
    by (simp_all add: st1_def)
  have ended: "accounted (end_op w r st1) \<and> ring_ok (end_op w r st1) \<and> ur_fatal (end_op w r st1) = ur_fatal st" if "outcome_ok (w, r)" for r
    using accounted_end [OF acc st1(2) same that] end_op_ring_ok [OF st1(1)] by (simp add: st1_def)
  have cancel: "accounted (x\<lparr>ur_cancel := True\<rparr>) = accounted x" "ring_ok (x\<lparr>ur_cancel := True\<rparr>) = ring_ok x" for x
    by (simp_all add: accounted_def ring_ok_def ring_ids_def outstanding_def)
  show ?thesis
  proof (cases "op_code w")
    case Read
    obtain r f where rf: "read_outcome w (snd c) = (r, f)" by fastforce
    have "reap_cqe c (st\<lparr>ur_cq := cs\<rparr>) = (if f then (end_op w r st1)\<lparr>ur_cancel := True\<rparr> else end_op w r st1)"
      using w Read rf by (simp add: reap_cqe_def st1_def Let_def)
    with ended [OF read_outcome_ok [OF Read rf]] cancel show ?thesis
      by simp
  next
    case Write
    have "reap_cqe c (st\<lparr>ur_cq := cs\<rparr>) = end_op w (write_outcome w (snd c)) st1"
      using w Write by (simp add: reap_cqe_def st1_def Let_def)
    with ended [OF write_outcome_ok [OF Write]] show ?thesis
      by simp
  qed
qed

lemma first_taken_Some: "first_taken xs = Some (i, w) \<Longrightarrow> i < length xs \<and> xs ! i = Some w"
  by (induction xs arbitrary: i rule: first_taken.induct) auto

lemma accounted_pc [simp]: "accounted (st\<lparr>ur_pc := p\<rparr>) = accounted st"
  by (simp add: accounted_def outstanding_def)

lemma ring_ok_pc [simp]: "ring_ok (st\<lparr>ur_pc := p\<rparr>) = ring_ok st"
  by (simp add: ring_ok_def ring_ids_def)

lemma inv_pc: "accounted st \<Longrightarrow> ring_ok st \<Longrightarrow> fatal_ok (ur_fatal st) \<Longrightarrow> uring_inv (st\<lparr>ur_pc := p\<rparr>)"
  by (simp add: uring_inv_def)

lemma reap_step_inv:
  assumes "accounted st" "ring_ok st" "fatal_ok (ur_fatal st)"
  shows "uring_inv (reap_step again after n st)"
  using assms reap_cqe_inv [OF assms(1,2)]
  by (auto simp: reap_step_def intro: inv_pc split: nat.splits list.splits)

lemma fail_item_inv:
  assumes "accounted st" "outstanding st = add_mset w (outstanding st1)"
    "ur_submitted st1 = ur_submitted st" "ur_ended st1 = ur_ended st" "ur_sessions st1 = ur_sessions st"
  shows "accounted (fail_item w st1)"
  unfolding fail_item_def by (rule accounted_end [OF assms]) (simp add: outcome_ok_def)

lemma fail_step_inv:
  assumes acc: "accounted st" and pc: "ur_pc st = Failing" and fatal: "fatal_ok (ur_fatal st)"
  shows "uring_inv (fail_step st)"
proof -
  have "accounted (fail_step st) \<and> \<not> running (ur_pc (fail_step st)) \<and> ur_fatal (fail_step st) = ur_fatal st"
  proof (cases "ur_backlog st")
    case (Cons w rest)
    have "accounted (fail_item w (st\<lparr>ur_backlog := rest\<rparr>))"
      by (rule fail_item_inv [OF acc]) (simp_all add: outstanding_def Cons)
    then show ?thesis
      using pc by (simp add: fail_step_def Cons fail_item_def running_def)
  next
    case Nil
    show ?thesis
    proof (cases "first_taken (ur_slots st)")
      case None
      show ?thesis
      proof (cases "ur_chan st")
        case (Cons w rest)
        have "accounted (fail_item w (st\<lparr>ur_chan := rest\<rparr>))"
          by (rule fail_item_inv [OF acc]) (simp_all add: outstanding_def Cons)
        then show ?thesis
          using pc by (simp add: fail_step_def Nil None Cons fail_item_def running_def)
      next
        case chan: Nil
        then show ?thesis
          using acc by (simp add: fail_step_def Nil None running_def)
      qed
    next
      case (Some iw)
      obtain i w where iw: "iw = (i, w)" by fastforce
      with Some first_taken_Some have i: "i < length (ur_slots st)" "ur_slots st ! i = Some w"
        by blast+
      have "accounted (fail_item w (st\<lparr>ur_slots := (ur_slots st)[i := None]\<rparr>))"
        by (rule fail_item_inv [OF acc]) (simp_all add: outstanding_def slot_ops_set(2) [OF i, symmetric])
      then show ?thesis
        using pc by (simp add: fail_step_def Nil Some iw fail_item_def running_def)
    qed
  qed
  with fatal show ?thesis
    by (simp add: uring_inv_def)
qed

text \<open>Filling the submission queue: a free slot is free, and the queue has room.\<close>

lemma place_inv:
  assumes acc: "accounted st" and ok: "ring_ok st" and room: "ur_inflight st < ur_depth st" and free: "ur_free st = i # free"
    and st1: "outstanding st = add_mset w (outstanding st1)" "ur_submitted st1 = ur_submitted st" "ur_ended st1 = ur_ended st"
      "ur_sessions st1 = ur_sessions st" "ur_slots st1 = ur_slots st" "ring_ids st1 = ring_ids st" "ur_depth st1 = ur_depth st"
      "ur_sq_cap st1 = ur_sq_cap st" "ur_free st1 = free" "ur_inflight st1 = ur_inflight st" "fatal_ok (ur_fatal st1)"
  shows "uring_inv (place i w pushed st1)"
proof -
  define st2 where "st2 = st1\<lparr>ur_slots := (ur_slots st1)[i := Some w], ur_sq := ur_sq st1 @ [i], ur_inflight := ur_inflight st1 + 1\<rparr>"
  have i: "i < ur_depth st" "ur_slots st ! i = None" "i < length (ur_slots st)" "i \<notin> set free" "distinct free"
    using ok free by (auto simp: ring_ok_def)
  have "length (ur_sq st1) \<le> length (ring_ids st1)"
    by (simp add: ring_ids_def)
  then have "length (ur_sq st1) < ur_sq_cap st1"
    using ok room st1 by (simp add: ring_ok_def)
  then have place: "place i w pushed st1 = st2\<lparr>ur_pc := Fill (pushed + 1)\<rparr>"
    by (simp add: place_def submit_item_def st2_def)
  have "outstanding st2 = outstanding st"
    using slot_ops_set(1) [OF i(3,2)] st1(1) by (simp add: outstanding_def st2_def st1(5))
  then have "accounted st2"
    by (rule accounted_move [OF acc]) (simp_all add: st2_def st1)
  moreover have "ring_ok st2"
  proof -
    have ids: "mset (ring_ids st2) = mset (i # ring_ids st)"
      unfolding st1(6) [symmetric] by (simp add: st2_def ring_ids_def)
    have st: "length (ur_slots st) = ur_depth st" "0 < ur_depth st" "ur_depth st \<le> ur_sq_cap st" "i \<notin> set (ring_ids st)"
      "insert i (set free) = {i. i < ur_depth st \<and> ur_slots st ! i = None}" "distinct (ring_ids st)"
      "set (ring_ids st) = {i. i < ur_depth st \<and> ur_slots st ! i \<noteq> None}" "ur_inflight st = length (ring_ids st)"
      using ok free i by (simp_all add: ring_ok_def)
    have st2: "ur_depth st2 = ur_depth st" "ur_slots st2 = (ur_slots st)[i := Some w]" "ur_free st2 = free"
      "ur_inflight st2 = Suc (ur_inflight st)" "ur_sq_cap st2 = ur_sq_cap st"
      by (simp_all add: st2_def st1)
    have "set free = insert i (set free) - {i}"
      using i by simp
    then show ?thesis
      unfolding ring_ok_def st2 slots_some [OF st(1) i(1)]
      using st i mset_eq_imp_distinct_iff [OF ids] mset_eq_setD [OF ids] mset_eq_length [OF ids] by simp
  qed
  ultimately show ?thesis
    unfolding place using st1(11) by (intro inv_pc) (simp_all add: st2_def)
qed

lemma fill_step_inv:
  assumes acc: "accounted st" and ok: "ring_ok st" and fatal: "fatal_ok (ur_fatal st)"
  shows "uring_inv (fill_step pushed st)"
proof (cases "ur_depth st \<le> ur_inflight st \<or> ur_free st = []")
  case True
  then show ?thesis
    using inv_pc [OF acc ok fatal] by (auto simp: fill_step_def)
next
  case False
  then obtain i free where free: "ur_free st = i # free" "ur_inflight st < ur_depth st"
    by (cases "ur_free st") auto
  have "uring_inv (place i w pushed (st\<lparr>ur_free := free, ur_backlog := rest\<rparr>))" if "ur_backlog st = w # rest" for w rest
    by (rule place_inv [OF acc ok free(2,1)]) (simp_all add: outstanding_def ring_ids_def that fatal)
  moreover have "uring_inv (place i w pushed (st\<lparr>ur_free := free, ur_chan := rest\<rparr>))" if "ur_chan st = w # rest" for w rest
    by (rule place_inv [OF acc ok free(2,1)]) (simp_all add: outstanding_def ring_ids_def that fatal)
  moreover have "uring_inv (st\<lparr>ur_rx_closed := True, ur_pc := Submit pushed\<rparr>)" "uring_inv (st\<lparr>ur_pc := Submit pushed\<rparr>)"
    using acc ok fatal by (simp_all add: uring_inv_def accounted_def ring_ok_def ring_ids_def outstanding_def)
  ultimately show ?thesis
    using free by (simp add: fill_step_def split: list.splits)
qed

lemma fatal_msgs: "fatal_ok (Some (''io_uring submit failed: '' @ e))" "fatal_ok (Some (''io_uring submit_and_wait failed: '' @ e))"
  by (simp_all add: fatal_ok_def starts_with_def)

text \<open>The other steps of the thread change no operation.\<close>

lemma inv_same:
  assumes "accounted st" "ring_ok st" "ur_slots st' = ur_slots st" "ur_depth st' = ur_depth st" "ur_sq_cap st' = ur_sq_cap st"
    "ur_free st' = ur_free st" "ur_inflight st' = ur_inflight st" "mset (ring_ids st') = mset (ring_ids st)"
    "outstanding st' = outstanding st" "ur_submitted st' = ur_submitted st" "ur_ended st' = ur_ended st"
    "ur_sessions st' = ur_sessions st" "fatal_ok (ur_fatal st')"
  shows "uring_inv st'"
  using accounted_move [OF assms(1,9-12)] ring_okI [OF assms(2-8)] assms(13) by (simp add: uring_inv_def)

lemma submit_step_inv:
  assumes "accounted st" "ring_ok st" "fatal_ok (ur_fatal st)"
  shows "uring_inv (submit_step err n st)"
  by (rule inv_same [OF assms(1,2)])
     (use assms(3) fatal_msgs in \<open>auto simp: submit_step_def ring_submit_def restart_def set_fatal_def ring_ids_def outstanding_def
        Let_def split: option.splits\<close>)

lemma decide_step_inv:
  assumes "accounted st" "ring_ok st" "fatal_ok (ur_fatal st)" "decide_step err st = Some st'"
  shows "uring_inv st'"
  by (rule inv_same [OF assms(1,2)])
     (use assms(3,4) fatal_msgs in \<open>auto simp: decide_step_def ring_submit_def restart_def set_fatal_def ring_ids_def outstanding_def
        split: option.splits if_splits list.splits\<close>)

lemma io_step_inv:
  assumes inv: "uring_inv st" and io: "io_step err st = Some st'"
  shows "uring_inv st'"
proof -
  have acc: "accounted st" and fatal: "fatal_ok (ur_fatal st)" and ok: "running (ur_pc st) \<Longrightarrow> ring_ok st"
    using inv by (simp_all add: uring_inv_def)
  show ?thesis
  proof (cases "ur_pc st")
    case Check
    with io have "st' = st\<lparr>ur_cancel := ur_cancel st \<or> ur_fatal st \<noteq> None, ur_pc := ur_pc st'\<rparr>"
      by (auto simp: io_step_def Let_def)
    moreover have "ring_ok st"
      using ok Check by (simp add: running_def)
    ultimately show ?thesis
      using inv_same [OF acc, of st'] fatal
      by (metis (no_types, lifting) outstanding_def ring_ids_def uring.select_convs uring.surjective uring.update_convs(8,9))
  next
    case Ended
    with io have st': "st' = st\<lparr>ur_lost := ur_lost st @ ur_chan st, ur_chan := [], ur_pc := Gone\<rparr>"
      by (simp add: io_step_def)
    have "accounted st'"
      by (rule accounted_move [OF acc]) (simp_all add: st' outstanding_def)
    with fatal show ?thesis
      by (simp add: uring_inv_def st' running_def)
  next
    case Failing
    with io fail_step_inv [OF acc Failing fatal] show ?thesis
      by (simp add: io_step_def)
  qed (use io ok fatal acc reap_step_inv fill_step_inv submit_step_inv decide_step_inv in \<open>auto simp: io_step_def running_def\<close>)
qed

lemma accounted_send_err:
  "accounted st \<Longrightarrow> w \<in> set (ur_sending st) \<Longrightarrow> accounted (send_err w st)"
  unfolding send_err_def by (rule accounted_end) (simp_all add: outstanding_def outcome_ok_def)

lemma inv_outside:
  assumes "uring_inv st" "accounted st'" "ur_fatal st' = ur_fatal st" "ur_pc st' = ur_pc st"
    "ur_slots st' = ur_slots st" "ur_depth st' = ur_depth st" "ur_sq_cap st' = ur_sq_cap st"
    "ur_free st' = ur_free st" "ur_inflight st' = ur_inflight st" "mset (ring_ids st') = mset (ring_ids st)"
  shows "uring_inv st'"
  using assms ring_okI [OF _ assms(5-10)] by (simp add: uring_inv_def)

lemma step_inv:
  assumes "step st st'" "uring_inv st"
  shows "uring_inv st'"
proof -
  have acc: "accounted st"
    using assms(2) by (simp add: uring_inv_def)
  from assms(1) show ?thesis
  proof cases
    case new_sender
    then show ?thesis
      using inv_outside [OF assms(2) accounted_sender [OF acc]] by (simp add: sender_def ring_ids_def)
  next
    case (begins w)
    then show ?thesis
      using inv_outside [OF assms(2) accounted_begin [OF acc begins(1,2,5,6)]]
      by (auto simp: begin_op_def on_session_def ring_ids_def split: if_splits)
  next
    case (sends w)
    have "accounted st'"
      by (rule accounted_move [OF acc]) (use sends in \<open>simp_all add: send_ok_def outstanding_def\<close>)
    with inv_outside [OF assms(2)] sends(1) show ?thesis
      by (simp add: send_ok_def ring_ids_def)
  next
    case (refused w)
    then show ?thesis
      using inv_outside [OF assms(2) accounted_send_err [OF acc refused(2)]]
      by (simp add: send_err_def end_op_def on_session_def ring_ids_def)
  next
    case (dropped w)
    have "accounted st'"
      by (rule accounted_move [OF acc]) (use dropped in \<open>simp_all add: send_dropped_def outstanding_def\<close>)
    with inv_outside [OF assms(2)] dropped(1) show ?thesis
      by (simp add: send_dropped_def ring_ids_def)
  next
    case (closes i)
    then show ?thesis
      using inv_outside [OF assms(2) accounted_close [OF acc closes(2)]]
      by (simp add: close_sender_def on_session_def ring_ids_def)
  next
    case senders_gone
    have "accounted st'"
      by (rule accounted_move [OF acc]) (use senders_gone in \<open>simp_all add: outstanding_def\<close>)
    with inv_outside [OF assms(2)] senders_gone(1) show ?thesis
      by (simp add: ring_ids_def)
  next
    case (kernel i res)
    have "accounted st'"
      by (rule accounted_move [OF acc]) (use kernel in \<open>simp_all add: outstanding_def\<close>)
    with inv_outside [OF assms(2)] kernel show ?thesis
      by (simp add: ring_ids_def)
  next
    case (thread err)
    then show ?thesis
      using io_step_inv [OF assms(2)] by blast
  qed
qed

lemma spawn_inv: "max depth 1 \<le> cap \<Longrightarrow> uring_inv (uring_spawn depth cap)"
  by (auto simp: uring_inv_def accounted_def ring_ok_def uring_spawn_def Let_def ring_ids_def outstanding_def
      slot_ops_def fatal_ok_def)

lemma reachable_inv: "reachable st \<Longrightarrow> uring_inv st"
  by (induction rule: reachable.induct) (blast intro: spawn_inv step_inv)+

section \<open>What a sender can rely on\<close>

lemma reachable_session:
  assumes "reachable st" "i < length (ur_sessions st)"
  shows "sess_ok (of_sess i (outstanding st)) (failed_op i (ur_ended st)) (ur_sessions st ! i)"
  using reachable_inv [OF assms(1)] assms(2) by (simp add: uring_inv_def accounted_def)

lemma of_sess_0_iff: "of_sess i ws = 0 \<longleftrightarrow> (\<forall>w\<in>#ws. op_sess w \<noteq> i)"
  by (induction ws) auto

section \<open>Example runs\<close>

definition example_write :: "u64 \<Rightarrow> op" where
  "example_write off = \<lparr>op_code = Write, op_sess = 0, op_off = off, op_len = 3, op_buf = 0, op_done = True\<rparr>"

text \<open>One write that succeeds.\<close>

definition example_run :: "action list" where
  "example_run = [New_Sender, Begin (example_write 0), Send (example_write 0)] @ replicate 6 (Thread None) @
     [Kernel 0 3, Thread None, Thread None, Close 0]"

lemma example_run_ends:
  "case run example_run (uring_spawn 1 1) of
     None \<Rightarrow> False
   | Some st \<Rightarrow> se_result (ur_sessions st ! 0) = Some (Inr ()) \<and> length (ur_sessions st) = 1 \<and>
       ur_submitted st = [example_write 0] \<and> running (ur_pc st)"
  by code_simp

lemma example_run_state:
  obtains st where "reachable st" "se_result (ur_sessions st ! 0) = Some (Inr ())" "length (ur_sessions st) = 1"
    "ur_submitted st = [example_write 0]" "running (ur_pc st)"
  using example_run_ends example_reachable by (auto split: option.splits)

text \<open>
  A write fails, which cancels the session, while the next write of the upload still waits in the
  channel's \<open>send\<close>; its future is dropped, and the sender closed.
\<close>

definition hang_run :: "action list" where
  "hang_run = [New_Sender, Begin (example_write 0), Send (example_write 0)] @ replicate 6 (Thread None) @
     [Begin (example_write 3), Kernel 0 (- 28)] @ replicate 3 (Thread None) @ [Drop_Send (example_write 3), Close 0]"

lemma hang_run_ends:
  "case run hang_run (uring_spawn 1 1) of
     None \<Rightarrow> False
   | Some st \<Rightarrow> ur_lost st = [example_write 3] \<and> ur_sending st = [] \<and> length (ur_sessions st) = 1 \<and>
       se_closed (ur_sessions st ! 0)"
  by code_simp

text \<open>A write is with the kernel when a system call of the ring fails.\<close>

definition fatal_run :: "action list" where
  "fatal_run = [New_Sender, Begin (example_write 0), Send (example_write 0)] @ replicate 6 (Thread None) @
     [Thread (Some ''EINTR'')] @ replicate 3 (Thread None)"

lemma fatal_run_ends:
  "case run fatal_run (uring_spawn 1 1) of
     None \<Rightarrow> False
   | Some st \<Rightarrow> ur_kernel st = [0] \<and> ur_slots st = [None] \<and> map fst (ur_ended st) = [example_write 0] \<and>
       ur_submitted st = [example_write 0]"
  by code_simp

text \<open>A dropped operation stays pending for good.\<close>

lemma io_step_lost:
  assumes "io_step err st = Some st'"
  shows "set (ur_lost st) \<subseteq> set (ur_lost st') \<and> length (ur_sessions st') = length (ur_sessions st)"
proof -
  have ends: "ur_lost (end_op w r x) = ur_lost x \<and> length (ur_sessions (end_op w r x)) = length (ur_sessions x)" for w r x
    by (simp add: end_op_def on_session_def)
  have reap: "ur_lost (reap_cqe c x) = ur_lost x \<and> length (ur_sessions (reap_cqe c x)) = length (ur_sessions x)" for c x
    using ends by (simp add: reap_cqe_def Let_def split: option.splits op_code.splits prod.splits)
  show ?thesis
    using assms ends reap
    by (cases "ur_pc st")
       (auto simp: io_step_def Let_def reap_step_def fail_step_def fail_item_def fill_step_def place_def submit_item_def set_fatal_def
        submit_step_def ring_submit_def restart_def decide_step_def
        split: option.splits if_splits list.splits sum.splits nat.splits prod.splits)
qed

lemma step_lost:
  assumes "step st st'"
  shows "set (ur_lost st) \<subseteq> set (ur_lost st') \<and> length (ur_sessions st) \<le> length (ur_sessions st')"
  using assms
  by cases
     (auto dest: io_step_lost simp: sender_def begin_op_def on_session_def send_ok_def send_err_def end_op_def send_dropped_def
      close_sender_def split: if_splits)

lemma steps_lost:
  assumes "step\<^sup>*\<^sup>* st st'"
  shows "set (ur_lost st) \<subseteq> set (ur_lost st') \<and> length (ur_sessions st) \<le> length (ur_sessions st')"
  using assms by (induction rule: rtranclp_induct) (auto dest: step_lost)

lemma steps_reachable: "step\<^sup>*\<^sup>* st st' \<Longrightarrow> reachable st \<Longrightarrow> reachable st'"
  by (induction rule: rtranclp_induct) (auto intro: reachable.more)

lemma lost_no_result:
  assumes "reachable st" "w \<in> set (ur_lost st)" "op_sess w < length (ur_sessions st)"
  shows "se_result (ur_sessions st ! op_sess w) = None"
proof -
  have "of_sess (op_sess w) (outstanding st) \<noteq> 0"
    unfolding of_sess_0_iff using assms(2) by (auto simp: outstanding_def)
  with reachable_session [OF assms(1,3)] show ?thesis
    by (simp add: sess_ok_def)
qed

section \<open>What a sender can rely on\<close>

text \<open>
  What \<open>wait\<close> returns. A session answers exactly when it is closed and none of its operations
  is outstanding. The answer is \<open>Ok\<close> only if every operation it submitted has ended well, a write
  with all of its bytes written; it is an error only if one of them failed. This holds whatever
  the order in which clients, kernel and thread act, and whatever results the kernel gives.
\<close>
theorem ring_wait_sound:
  assumes "reachable st" "i < length (ur_sessions st)"
  shows "(se_result (ur_sessions st ! i) \<noteq> None \<longleftrightarrow>
      se_closed (ur_sessions st ! i) \<and> (\<forall>w\<in>#outstanding st. op_sess w \<noteq> i)) \<and>
    (se_result (ur_sessions st ! i) = Some (Inr ()) \<longrightarrow>
      (\<forall>w\<in>set (ur_submitted st). op_sess w = i \<longrightarrow>
        (\<exists>n. (w, Inr n) \<in> set (ur_ended st) \<and> n \<le> unat (op_len w) \<and> (op_code w = Write \<longrightarrow> n = unat (op_len w))))) \<and>
    (\<forall>e. se_result (ur_sessions st ! i) = Some (Inl e) \<longrightarrow>
      (\<exists>w m. w \<in> set (ur_submitted st) \<and> op_sess w = i \<and> (w, Inl m) \<in> set (ur_ended st)))"
proof -
  note ok = reachable_session [OF assms]
  have acc: "mset (ur_submitted st) = outstanding st + mset (map fst (ur_ended st))" "\<forall>e\<in>set (ur_ended st). outcome_ok e"
    using reachable_inv [OF assms(1)] by (simp_all add: uring_inv_def accounted_def)
  have sub: "w \<in> set (ur_submitted st) \<longleftrightarrow> w \<in># outstanding st \<or> w \<in> fst ` set (ur_ended st)" for w
    using arg_cong [OF acc(1), of set_mset] by auto
  have ended: "\<exists>n. (w, Inr n) \<in> set (ur_ended st) \<and> n \<le> unat (op_len w) \<and> (op_code w = Write \<longrightarrow> n = unat (op_len w))"
    if "se_result (ur_sessions st ! i) = Some (Inr ())" "w \<in> set (ur_submitted st)" "op_sess w = i" for w
  proof -
    have "w \<notin># outstanding st" "\<not> failed_op i (ur_ended st)"
      using ok that by (auto simp: sess_ok_def of_sess_0_iff)
    with sub that obtain r where r: "(w, r) \<in> set (ur_ended st)"
      by auto
    with \<open>\<not> failed_op i (ur_ended st)\<close> that(3) obtain n where "r = Inr n"
      by (cases r) (auto simp: failed_op_def)
    moreover from this r acc(2) have "outcome_ok (w, Inr n)"
      by blast
    ultimately show ?thesis
      using r by (cases "op_code w") (auto simp: outcome_ok_def)
  qed
  have "\<exists>w m. w \<in> set (ur_submitted st) \<and> op_sess w = i \<and> (w, Inl m) \<in> set (ur_ended st)"
    if "se_result (ur_sessions st ! i) = Some (Inl e)" for e
  proof -
    have "failed_op i (ur_ended st)"
      using ok that by (auto simp: sess_ok_def)
    then show ?thesis
      unfolding failed_op_def using sub by (force simp: isl_def)
  qed
  with ended ok show ?thesis
    by (auto simp: sess_ok_def of_sess_0_iff)
qed

text \<open>
  C34. The ring is never confused. While the thread runs, every entry that is queued, with the
  kernel or completed is for a slot that still holds its operation, so that its buffer and file
  are alive; no slot is used twice; at most \<open>depth\<close> are in flight, so that the submission queue is
  never full; and the thread only fails fatally when a system call of the ring does.
\<close>
theorem ring_never_confused:
  assumes "reachable st" "running (ur_pc st)"
  shows "(\<forall>i\<in>set (ring_ids st). i < length (ur_slots st) \<and> ur_slots st ! i \<noteq> None) \<and> distinct (ring_ids st) \<and>
    ur_inflight st = length (ring_ids st) \<and> ur_inflight st \<le> ur_depth st \<and>
    (\<forall>e. ur_fatal st = Some e \<longrightarrow> starts_with ''io_uring submit'' e)"
proof -
  have ok: "ring_ok st" "fatal_ok (ur_fatal st)"
    using reachable_inv [OF assms(1)] assms(2) by (simp_all add: uring_inv_def)
  have "set (ring_ids st) \<subseteq> {..<ur_depth st}"
    using ok(1) by (auto simp: ring_ok_def)
  then have "card (set (ring_ids st)) \<le> ur_depth st"
    using card_mono [of "{..<ur_depth st}"] by simp
  moreover have "distinct (ring_ids st)"
    using ok(1) by (simp add: ring_ok_def)
  ultimately have "length (ring_ids st) \<le> ur_depth st"
    by (simp only: distinct_card)
  with ok show ?thesis
    by (auto simp: ring_ok_def fatal_ok_def)
qed

theorem ring_wait_sound_witness:
  "\<exists>st n. reachable st \<and> ur_submitted st = [example_write 0] \<and> se_closed (ur_sessions st ! 0) \<and>
     (example_write 0, Inr n) \<in> set (ur_ended st) \<and> n = unat (op_len (example_write 0))"
proof -
  obtain st where st: "reachable st" "se_result (ur_sessions st ! 0) = Some (Inr ())" "length (ur_sessions st) = 1"
    "ur_submitted st = [example_write 0]"
    by (rule example_run_state)
  have "0 < length (ur_sessions st)"
    by (simp add: st(3))
  from ring_wait_sound [OF st(1) this] st show ?thesis
    by (auto simp: example_write_def)
qed

theorem ring_never_confused_witness:
  "\<exists>st. reachable st \<and> ur_submitted st = [example_write 0] \<and> ur_inflight st \<le> ur_depth st"
proof -
  obtain st where st: "reachable st" "ur_submitted st = [example_write 0]" "running (ur_pc st)"
    by (rule example_run_state)
  from ring_never_confused [OF st(1,3)] st show ?thesis
    by blast
qed

text \<open>
  C35. An upload can wait for ever. When a write of a session fails, the session is cancelled, and a
  later write whose future is still in the channel's \<open>send\<close> is dropped after it was counted and
  before it was queued. From then on the session's \<open>wait\<close> never returns, whatever happens next.
\<close>
theorem ring_wait_can_hang:
  "\<exists>st. reachable st \<and> se_closed (ur_sessions st ! 0) \<and> ur_sending st = [] \<and>
     (\<forall>st'. step\<^sup>*\<^sup>* st st' \<longrightarrow> se_result (ur_sessions st' ! 0) = None)"
proof -
  obtain st where st: "reachable st" "ur_lost st = [example_write 3]" "ur_sending st = []" "length (ur_sessions st) = 1"
    "se_closed (ur_sessions st ! 0)"
    using hang_run_ends example_reachable by (auto split: option.splits)
  have "se_result (ur_sessions st' ! 0) = None" if "step\<^sup>*\<^sup>* st st'" for st'
    using lost_no_result [OF steps_reachable [OF that st(1)], of "example_write 3"] steps_lost [OF that] st(2,4)
    by (cases "ur_sessions st'") (auto simp: example_write_def)
  with st show ?thesis
    by blast
qed

theorem ring_wait_can_hang_witness:
  "\<exists>st. reachable st \<and> se_closed (ur_sessions st ! 0) \<and> ur_sending st = [] \<and> se_result (ur_sessions st ! 0) = None"
  using ring_wait_can_hang by blast

text \<open>
  After a fatal failure of the ring the thread drops the operations in its slots, and with them
  their buffers and files, although the kernel still works on them.
\<close>
theorem ring_frees_buffers_in_flight:
  "\<exists>st i w r. reachable st \<and> i \<in> set (ur_kernel st) \<and> ur_slots st ! i = None \<and> (w, r) \<in> set (ur_ended st) \<and>
     ur_submitted st = [w]"
proof -
  obtain st where run: "run fatal_run (uring_spawn 1 1) = Some st"
    and st: "ur_kernel st = [0]" "ur_slots st = [None]" "map fst (ur_ended st) = [example_write 0]"
      "ur_submitted st = [example_write 0]"
    using fatal_run_ends by (cases "run fatal_run (uring_spawn 1 1)") simp_all
  obtain r where "(example_write 0, r) \<in> set (ur_ended st)"
    using st(3) by (cases "ur_ended st") auto
  with st example_reachable [OF run] show ?thesis
    by (metis list.set_intros(1) nth_Cons_0)
qed

end
