(* ===== verification/Range_Stream.thy ===== *)
theory Range_Stream
  imports Fs_Helpers S3_Responses
begin

text \<open>
  The read side of \<open>crates/s32p-gateway/src/streaming.rs\<close>: the frames of a response body for one
  range (\<open>emit_range\<close>, \<open>stream_segment\<close>, \<open>read_one\<close>, \<open>read_tail_bytes\<close>) and for several
  (\<open>emit_multirange\<close>). Opening the file and reading at an offset are parameters; the order in which
  the ring completes the reads does not matter, since \<open>FuturesOrdered\<close> gives them in the order of
  submission. A sink is the channel to the client, who may stop reading after some frames.
\<close>

section \<open>Frames and reads\<close>

record stream_cfg =
  cfg_chunk_size :: usize
  cfg_inflight :: usize
  cfg_direct_io :: bool

record sink =
  sk_frames :: "str list"
  sk_left :: "nat option"

definition send_frame :: "str \<Rightarrow> sink \<Rightarrow> sink option" where
  "send_frame b out =
     (case sk_left out of
        None \<Rightarrow> Some (out\<lparr>sk_frames := sk_frames out @ [b]\<rparr>)
      | Some 0 \<Rightarrow> None
      | Some (Suc k) \<Rightarrow> Some (out\<lparr>sk_frames := sk_frames out @ [b], sk_left := Some k\<rparr>))"

type_synonym file_reader = "u64 \<Rightarrow> usize \<Rightarrow> str + str"

definition chunks_needed :: "u64 \<Rightarrow> u64 \<Rightarrow> usize \<Rightarrow> usize" where
  "chunks_needed seg_start eff_end chunk_size =
     (if eff_end \<le> seg_start then 0
      else (let span = eff_end - seg_start in (span + chunk_size - 1) div chunk_size))"

definition read_one :: "file_reader \<Rightarrow> u64 \<Rightarrow> usize \<Rightarrow> u64 \<Rightarrow> u64 \<Rightarrow> str + str option" where
  "read_one reader off len want_start want_end =
     (case reader off len of
        Inl e \<Rightarrow> Inl e
      | Inr bs \<Rightarrow>
          if bs = [] then Inr None
          else (let chunk_start = max want_start off;
                    chunk_end = min want_end (off + of_nat (length bs))
                in if chunk_start \<ge> chunk_end then Inr (Some [])
                   else (let i0 = unat (chunk_start - off); i1 = unat (chunk_end - off)
                         in Inr (Some (take (i1 - i0) (drop i0 bs))))))"

text \<open>A tail longer than a pooled buffer is out of the buffer's range: the blocking task panics.\<close>

definition read_tail_bytes :: "usize \<Rightarrow> (str + file_reader) \<Rightarrow> u64 \<Rightarrow> usize \<Rightarrow> str + str" where
  "read_tail_bytes pool_chunk file off len =
     (if len = 0 then Inr []
      else rbind file (\<lambda>reader. if pool_chunk < len then Inl ''tail read join error'' else case reader off len of
          Inl e \<Rightarrow> Inl (''tail read_at failed at off='' @ show_nat (unat off) @ '': '' @ e)
        | Inr b \<Rightarrow> if b = [] then Inl (''tail unexpected EOF at off='' @ show_nat (unat off)) else Inr b))"

section \<open>One segment\<close>

text \<open>The closure \<open>submit_len\<close>: how much the read at \<open>off\<close> asks for.\<close>

definition submit_len :: "u64 \<Rightarrow> usize \<Rightarrow> bool \<Rightarrow> u64 \<Rightarrow> usize" where
  "submit_len effective_end chunk_size direct off =
     (let remain = saturating_sub effective_end off;
          len = min chunk_size remain;
          len2 = (if direct then
                    let rem = len mod ALIGN;
                        len1 = (if rem \<noteq> 0 then len + (ALIGN - rem) else len)
                    in if saturating_add off len1 > effective_end then effective_end - off else len1
                  else len)
      in max len2 1)"

text \<open>The initial fill: the reads that are submitted before the first is awaited.\<close>

fun fill_window :: "(u64 \<Rightarrow> usize) \<Rightarrow> u64 \<Rightarrow> nat \<Rightarrow> u64 \<Rightarrow> (u64 \<times> usize) list \<Rightarrow> (u64 \<times> usize) list \<times> u64" where
  "fill_window slen effective_end 0 next_off futs = (futs, next_off)"
| "fill_window slen effective_end (Suc k) next_off futs =
     (if next_off \<ge> effective_end then (futs, next_off)
      else (let len = slen next_off
            in fill_window slen effective_end k (saturating_add next_off len) (futs @ [(next_off, len)])))"

lemma submit_len_pos: "submit_len e c d off \<noteq> 0"
proof -
  have "max x 1 \<noteq> 0" for x :: usize
    by (auto simp: max_def)
  then show ?thesis
    by (simp add: submit_len_def Let_def)
qed

lemma advance_less:
  assumes "next_off < (effective_end :: u64)" "len \<noteq> 0"
  shows "unat effective_end - unat (saturating_add next_off len) < unat effective_end - unat next_off"
proof -
  have "0 < unat len" "unat next_off < unat effective_end" "unat effective_end < 18446744073709551616"
    using assms u64_bound by (simp_all add: unat_gt_0 word_less_nat_alt)
  then show ?thesis
    by (simp add: unat_saturating_add)
qed

text \<open>The loop: the oldest read is awaited and its bytes sent, then the next one is submitted.\<close>

function pump :: "file_reader \<Rightarrow> u64 \<Rightarrow> u64 \<Rightarrow> u64 \<Rightarrow> usize \<Rightarrow> bool \<Rightarrow> (u64 \<times> usize) list \<Rightarrow> u64 \<Rightarrow> sink \<Rightarrow> (str + unit) \<times> sink" where
  "pump reader want_start want_end effective_end chunk direct [] next_off out = (Inr (), out)"
| "pump reader want_start want_end effective_end chunk direct ((off, len) # futs) next_off out =
     (case read_one reader off len want_start want_end of
        Inl e \<Rightarrow> (Inl e, out)
      | Inr None \<Rightarrow> (Inr (), out)
      | Inr (Some bs) \<Rightarrow>
          (case (if bs \<noteq> [] then send_frame bs out else Some out) of
             None \<Rightarrow> (Inr (), out)
           | Some out' \<Rightarrow>
               if next_off < effective_end then
                 (let len' = submit_len effective_end chunk direct next_off
                  in pump reader want_start want_end effective_end chunk direct (futs @ [(next_off, len')])
                       (saturating_add next_off len') out')
               else pump reader want_start want_end effective_end chunk direct futs next_off out'))"
  by pat_completeness auto
termination
  by (relation "measure (\<lambda>(reader, ws, we, e, chunk, direct, futs, next_off, out). (unat e - unat next_off) + length futs)")
     (auto simp: advance_less submit_len_pos)

definition stream_segment ::
  "file_reader \<Rightarrow> u64 \<Rightarrow> u64 \<Rightarrow> u64 \<Rightarrow> u64 \<Rightarrow> u64 \<Rightarrow> usize \<Rightarrow> usize \<Rightarrow> bool \<Rightarrow> sink \<Rightarrow> (str + unit) \<times> sink" where
  "stream_segment reader file_size seg_start seg_end want_start want_end chunk_size inflight0 direct out =
     (let effective_end = (if direct then min seg_end (align_down file_size ALIGN) else seg_end)
      in if seg_start \<ge> effective_end then (Inr (), out)
         else (let chunks_total = ((effective_end - seg_start) + chunk_size - 1) div chunk_size;
                   inflight = min (max inflight0 1) (max chunks_total 1);
                   (futs, next_off) = fill_window (submit_len effective_end chunk_size direct) effective_end (unat inflight) seg_start []
               in pump reader want_start want_end effective_end chunk_size direct futs next_off out))"

section \<open>A range, and several\<close>

text \<open>The buffered tail: the bytes beyond the last aligned block.\<close>

definition emit_tail :: "usize \<Rightarrow> (str + file_reader) \<Rightarrow> u64 \<Rightarrow> u64 \<Rightarrow> sink \<Rightarrow> (str + unit) \<times> sink" where
  "emit_tail pool_chunk file tail_start tail_end out =
     (if tail_end > tail_start then
        (case read_tail_bytes pool_chunk file tail_start (tail_end - tail_start) of
           Inl e \<Rightarrow> (Inl e, out)
         | Inr b \<Rightarrow> (Inr (), if b \<noteq> [] then (case send_frame b out of None \<Rightarrow> out | Some out' \<Rightarrow> out') else out))
      else (Inr (), out))"

definition emit_range :: "(str + file_reader) \<Rightarrow> u64 \<Rightarrow> byte_range \<Rightarrow> stream_cfg \<Rightarrow> sink \<Rightarrow> (str + unit) \<times> sink" where
  "emit_range file file_size want cfg out =
     (let chunk = cfg_chunk_size cfg;
          inflight_cfg = max (cfg_inflight cfg) 1;
          direct = (cfg_direct_io cfg \<and> chunk mod ALIGN = 0);
          seg_start = (if direct then align_down (start want) ALIGN else start want);
          seg_end = (if direct then align_up (end_excl want) ALIGN else end_excl want)
      in if seg_start \<ge> seg_end then (Inr (), out)
         else (let aligned_size = align_down file_size ALIGN;
                   direct_end = (if direct then min seg_end aligned_size else seg_end);
                   needed = chunks_needed seg_start direct_end chunk;
                   allowed = min inflight_cfg needed;
                   tail_start = max (start want) direct_end;
                   tail_end = min (end_excl want) file_size
               in if direct_end > seg_start then
                    if needed = 0 then (Inr (), out)
                    else (case file of
                        Inl e \<Rightarrow> (Inl e, out)
                      | Inr reader \<Rightarrow>
                          (case stream_segment reader file_size seg_start direct_end (start want) (end_excl want)
                                  chunk allowed direct out of
                             (Inl e, out1) \<Rightarrow> (Inl e, out1)
                           | (Inr _, out1) \<Rightarrow> emit_tail chunk file tail_start tail_end out1))
                  else emit_tail chunk file tail_start tail_end out))"

fun emit_multirange ::
  "(str + file_reader) \<Rightarrow> u64 \<Rightarrow> byte_range list \<Rightarrow> str \<Rightarrow> stream_cfg \<Rightarrow> sink \<Rightarrow> (str + unit) \<times> sink" where
  "emit_multirange file file_size [] boundary cfg out =
     (Inr (), case send_frame (multirange_closing boundary) out of None \<Rightarrow> out | Some out' \<Rightarrow> out')"
| "emit_multirange file file_size (want # ranges) boundary cfg out =
     (case send_frame (multirange_part_header boundary (start want) (end_excl want - 1) file_size) out of
        None \<Rightarrow> (Inr (), out)
      | Some out1 \<Rightarrow>
          (case emit_range file file_size want cfg out1 of
             (Inl e, out2) \<Rightarrow> (Inl e, out2)
           | (Inr _, out2) \<Rightarrow>
               (case send_frame CRLF out2 of
                  None \<Rightarrow> (Inr (), out2)
                | Some out3 \<Rightarrow> emit_multirange file file_size ranges boundary cfg out3)))"

section \<open>The bytes that are sent\<close>

definition slice :: "str \<Rightarrow> nat \<Rightarrow> nat \<Rightarrow> str" where
  "slice c i j = take (j - i) (drop i c)"

text \<open>A file with the content \<open>c\<close>: a read gives the bytes at the offset, up to the end of the file.\<close>

definition reads :: "str \<Rightarrow> file_reader" where
  "reads c off len = Inr (take (unat len) (drop (unat off) c))"

definition sent :: "sink \<Rightarrow> str" where
  "sent out = concat (sk_frames out)"

lemma slice_empty [simp]: "j \<le> i \<Longrightarrow> slice c i j = []"
  by (simp add: slice_def)

lemma slice_append: "i \<le> j \<Longrightarrow> j \<le> k \<Longrightarrow> slice c i j @ slice c j k = slice c i k"
  by (simp add: slice_def) (metis Nat.add_diff_assoc2 drop_drop le_add_diff_inverse le_add_diff_inverse2 take_add)

lemma length_slice [simp]: "j \<le> length c \<Longrightarrow> length (slice c i j) = j - i"
  by (simp add: slice_def)

text \<open>\<open>slice\<close> cut to the range that is wanted.\<close>

definition part :: "str \<Rightarrow> u64 \<Rightarrow> u64 \<Rightarrow> nat \<Rightarrow> nat \<Rightarrow> str" where
  "part c ws we i j = slice c (max (unat ws) i) (min (unat we) j)"

lemma part_append: "i \<le> j \<Longrightarrow> j \<le> k \<Longrightarrow> part c ws we i j @ part c ws we j k = part c ws we i k"
proof -
  assume ij: "i \<le> j" and jk: "j \<le> k"
  consider "unat we \<le> j" | "j \<le> unat ws" | "unat ws < j" "j < unat we"
    by linarith
  then show ?thesis
  proof cases
    case 1
    with ij jk show ?thesis by (simp add: part_def min_def max_def)
  next
    case 2
    with ij have "max (unat ws) i = unat ws" "max (unat ws) j = unat ws" by simp_all
    with 2 ij jk show ?thesis by (simp add: part_def)
  next
    case 3
    with ij jk slice_append [of "max (unat ws) i" j "min (unat we) k" c] show ?thesis
      by (simp add: part_def min_def max_def)
  qed
qed

lemma read_one_part:
  assumes "unat off + unat len \<le> length c" "length c < 18446744073709551616" "len \<noteq> 0"
  shows "read_one (reads c) off len ws we = Inr (Some (part c ws we (unat off) (unat off + unat len)))"
proof -
  let ?b = "take (unat len) (drop (unat off) c)"
  have len: "length ?b = unat len" "0 < unat len"
    using assms by (simp_all add: unat_gt_0)
  then have "?b \<noteq> []"
    by auto
  have fin: "unat (off + of_nat (length ?b)) = unat off + unat len"
    unfolding len(1) using assms by (simp add: unat_word_ariths)
  define cs where "cs = max ws off"
  define ce where "ce = min we (off + of_nat (length ?b))"
  have cs: "unat cs = max (unat ws) (unat off)" and ce: "unat ce = min (unat we) (unat off + unat len)"
    unfolding cs_def ce_def fin [symmetric] by (simp_all add: max_def min_def word_le_nat_alt)
  have "off \<le> cs"
    by (simp add: cs_def)
  then have i0: "unat (cs - off) = unat cs - unat off"
    by (simp add: unat_sub)
  have "reads c off len = Inr ?b"
    by (simp add: reads_def)
  then have "read_one (reads c) off len ws we = (if cs \<ge> ce then Inr (Some [])
      else Inr (Some (take (unat (ce - off) - unat (cs - off)) (drop (unat (cs - off)) ?b))))"
    using \<open>?b \<noteq> []\<close> by (simp only: read_one_def sum.case if_False Let_def cs_def ce_def)
  also have "\<dots> = Inr (Some (part c ws we (unat off) (unat off + unat len)))"
  proof (cases "cs \<ge> ce")
    case True
    then show ?thesis
      using cs ce by (simp add: part_def word_le_nat_alt)
  next
    case False
    then have lt: "unat cs < unat ce"
      by (simp add: word_le_nat_alt)
    have "off \<le> ce"
      using False \<open>off \<le> cs\<close> by simp
    then have i1: "unat (ce - off) = unat ce - unat off"
      by (simp add: unat_sub)
    have "take (unat (ce - off) - unat (cs - off)) (drop (unat (cs - off)) ?b) = slice c (unat cs) (unat ce)"
      using lt cs ce unfolding i0 i1 slice_def by (simp add: drop_take take_take min_def)
    with False cs ce show ?thesis
      by (simp add: part_def)
  qed
  finally show ?thesis .
qed

lemma ALIGN_simps [simp]: "unat ALIGN = 4096" "0 < ALIGN" "ALIGN \<noteq> 0"
  by (simp_all add: ALIGN_def)

lemma submit_len_bounds:
  assumes "off < e" "chunk \<noteq> 0" "unat e + unat chunk < 18446744073709551616" "unat chunk < 9223372036854771712 \<or> \<not> direct"
  shows "0 < unat (submit_len e chunk direct off)" "unat off + unat (submit_len e chunk direct off) \<le> unat e"
proof -
  define len where "len = min chunk (saturating_sub e off)"
  have len: "0 < unat len" "unat off + unat len \<le> unat e" "unat len \<le> unat chunk"
    using assms(1,2) unat_saturating_sub [of e off]
    by (auto simp: len_def min_def word_less_nat_alt word_le_nat_alt unat_gt_0)
  have max1: "max x 1 = x" if "0 < unat x" for x :: u64
    using that by (intro max_absorb1) (simp add: word_le_nat_alt)
  have "0 < unat (submit_len e chunk direct off) \<and> unat off + unat (submit_len e chunk direct off) \<le> unat e"
  proof (cases direct)
    case False
    then show ?thesis
      using len max1 [of len] by (simp add: submit_len_def Let_def len_def [symmetric])
  next
    case True
    define l1 where "l1 = (if len mod ALIGN \<noteq> 0 then len + (ALIGN - len mod ALIGN) else len)"
    define l2 where "l2 = (if saturating_add off l1 > e then e - off else l1)"
    have "0 < unat l2 \<and> unat off + unat l2 \<le> unat e"
    proof (cases "saturating_add off l1 > e")
      case True
      then show ?thesis
        using assms(1) unat_sub [of off e] by (simp add: l2_def word_less_nat_alt word_le_nat_alt)
    next
      case False
      have "unat (len mod ALIGN) < 4096"
        by (simp add: unat_mod_distrib)
      then have "unat (ALIGN - len mod ALIGN) \<le> 4096"
        by (simp add: unat_sub word_le_nat_alt)
      then have "unat len + unat (ALIGN - len mod ALIGN) < 18446744073709551616"
        using len(3) assms(4) True by linarith
      then have "unat len \<le> unat l1"
        by (auto simp: l1_def unat_word_ariths)
      moreover have "unat off + unat l1 \<le> unat e"
        using False assms(2,3) by (auto simp: word_less_nat_alt unat_saturating_add unat_gt_0 [symmetric])
      ultimately show ?thesis
        using False len by (simp add: l2_def)
    qed
    moreover have "submit_len e chunk direct off = max l2 1"
      by (simp only: submit_len_def Let_def True if_True l2_def l1_def len_def)
    ultimately show ?thesis
      using max1 by simp
  qed
  then show "0 < unat (submit_len e chunk direct off)" "unat off + unat (submit_len e chunk direct off) \<le> unat e"
    by blast+
qed

text \<open>The reads in the window follow each other, from \<open>lo\<close> to \<open>hi\<close>.\<close>

fun tiled :: "nat \<Rightarrow> (u64 \<times> usize) list \<Rightarrow> nat \<Rightarrow> bool" where
  "tiled lo [] hi \<longleftrightarrow> lo = hi"
| "tiled lo ((off, len) # futs) hi \<longleftrightarrow> unat off = lo \<and> len \<noteq> 0 \<and> tiled (lo + unat len) futs hi"

lemma tiled_snoc: "tiled lo (futs @ [(off, len)]) hi \<longleftrightarrow> len \<noteq> 0 \<and> tiled lo futs (unat off) \<and> hi = unat off + unat len"
  by (induction lo futs hi rule: tiled.induct) auto

lemma tiled_le: "tiled lo futs hi \<Longrightarrow> lo \<le> hi"
  by (induction lo futs hi rule: tiled.induct) auto

text \<open>What the bounds of a segment have to be for its reads to be inside the file.\<close>

definition seg_ok :: "str \<Rightarrow> u64 \<Rightarrow> usize \<Rightarrow> bool \<Rightarrow> bool" where
  "seg_ok c e chunk direct \<longleftrightarrow>
     unat e \<le> length c \<and> chunk \<noteq> 0 \<and> length c + unat chunk < 18446744073709551616 \<and>
     (unat chunk < 9223372036854771712 \<or> \<not> direct)"

lemma seg_step:
  assumes "seg_ok c e chunk direct" "off < e"
  defines "len \<equiv> submit_len e chunk direct off"
  shows "len \<noteq> 0" "unat (saturating_add off len) = unat off + unat len" "unat off + unat len \<le> unat e"
proof -
  have "0 < unat len" "unat off + unat len \<le> unat e"
    using submit_len_bounds [of off e chunk direct] assms by (auto simp: seg_ok_def)
  then show "len \<noteq> 0" "unat (saturating_add off len) = unat off + unat len" "unat off + unat len \<le> unat e"
    using u64_bound [of e] by (auto simp: unat_saturating_add)
qed

lemma fill_window_tiled:
  assumes "seg_ok c e chunk direct" "tiled lo futs (unat off)" "off \<le> e" "fill_window (submit_len e chunk direct) e k off futs = (futs', off')"
  shows "tiled lo futs' (unat off') \<and> off' \<le> e \<and> (k \<noteq> 0 \<and> off < e \<or> futs \<noteq> [] \<longrightarrow> futs' \<noteq> [])"
  using assms(2-4)
proof (induction k arbitrary: off futs)
  case (Suc k)
  show ?case
  proof (cases "off < e")
    case True
    note st = seg_step [OF assms(1) True]
    have "\<not> e \<le> off"
      using True by (simp only: not_le)
    then have "fill_window (submit_len e chunk direct) e k (saturating_add off (submit_len e chunk direct off))
        (futs @ [(off, submit_len e chunk direct off)]) = (futs', off')"
      using Suc.prems(3) by (simp add: Let_def)
    from Suc.IH [OF _ _ this] Suc.prems(1) st show ?thesis
      by (simp add: tiled_snoc word_le_nat_alt)
  qed (use Suc.prems in auto)
qed simp

text \<open>
  The loop sends the wanted part of the segment, in frames that are not empty, or as many of them
  as the client takes.
\<close>

definition delivers :: "sink \<Rightarrow> str \<Rightarrow> (str + unit) \<times> sink \<Rightarrow> bool" where
  "delivers out b res \<longleftrightarrow>
     fst res = Inr () \<and>
     (\<exists>fs. sk_frames (snd res) = sk_frames out @ fs \<and>
        (if sk_left out = None then sk_left (snd res) = None \<and> concat fs = b
         else \<exists>rest. concat fs @ rest = b \<and> sk_left (snd res) = Some (the (sk_left out) - length fs) \<and>
                length fs \<le> the (sk_left out) \<and> (rest \<noteq> [] \<longrightarrow> sk_left (snd res) = Some 0)))"

lemma delivers_nothing: "delivers out [] (Inr (), out)"
  by (cases "sk_left out") (auto simp: delivers_def intro: exI [of _ "[]"])

lemma delivers_stop: "send_frame b out = None \<Longrightarrow> delivers out (b @ x) (Inr (), out)"
  by (auto simp: delivers_def send_frame_def split: option.splits nat.splits intro: exI [of _ "[]"])

lemma delivers_frame:
  assumes "send_frame b out = Some out'" "delivers out' x res"
  shows "delivers out (b @ x) res"
proof (cases "sk_left out")
  case None
  then have "out' = out\<lparr>sk_frames := sk_frames out @ [b]\<rparr>"
    using assms(1) by (simp add: send_frame_def)
  moreover from this None assms(2) obtain fs where
    "fst res = Inr ()" "sk_frames (snd res) = sk_frames out' @ fs" "concat fs = x" "sk_left (snd res) = None"
    by (auto simp: delivers_def)
  ultimately show ?thesis
    using None by (auto simp: delivers_def intro!: exI [of _ "b # fs"])
next
  case (Some k)
  with assms(1) obtain k' where k: "k = Suc k'" "out' = out\<lparr>sk_frames := sk_frames out @ [b], sk_left := Some k'\<rparr>"
    by (cases k) (auto simp: send_frame_def)
  from assms(2) obtain fs rest where
    "fst res = Inr ()" "sk_frames (snd res) = sk_frames out' @ fs" "concat fs @ rest = x" "sk_left (snd res) = Some (k' - length fs)"
    "length fs \<le> k'" "rest \<noteq> [] \<longrightarrow> sk_left (snd res) = Some 0"
    unfolding delivers_def k(2) by auto
  with Some k show ?thesis
    by (auto simp: delivers_def intro!: exI [of _ "b # fs"] exI [of _ rest])
qed

lemma pump_delivers:
  assumes "seg_ok c e chunk direct" "tiled lo futs (unat off)" "off \<le> e" "futs = [] \<Longrightarrow> off = e"
  shows "delivers out (part c ws we lo (unat e)) (pump (reads c) ws we e chunk direct futs off out)"
  using assms
proof (induction "reads c" ws we e chunk direct futs off out arbitrary: lo rule: pump.induct)
  case (1 ws we e chunk direct off out)
  then show ?case
    by (simp add: part_def delivers_nothing)
next
  case (2 ws we e chunk direct o1 l1 futs off out)
  let ?next = "saturating_add off (submit_len e chunk direct off)"
  let ?p = "part c ws we lo (lo + unat l1)"
  have tile: "unat o1 = lo" "l1 \<noteq> 0" "tiled (lo + unat l1) futs (unat off)"
    using "2.prems"(2) by simp_all
  have le: "lo + unat l1 \<le> unat off" "unat off \<le> unat e" "unat e \<le> length c"
    using tiled_le [OF tile(3)] "2.prems"(1,3) by (simp_all add: seg_ok_def word_le_nat_alt)
  have one: "read_one (reads c) o1 l1 ws we = Inr (Some ?p)"
    using read_one_part [of o1 l1 c] tile(1,2) le "2.prems"(1) by (simp add: seg_ok_def)
  have rest: "delivers out' (part c ws we (lo + unat l1) (unat e))
      (if off < e then pump (reads c) ws we e chunk direct (futs @ [(off, submit_len e chunk direct off)]) ?next out'
       else pump (reads c) ws we e chunk direct futs off out')"
    if sent: "(if ?p \<noteq> [] then send_frame ?p out else Some out) = Some out'" for out'
  proof (cases "off < e")
    case True
    note st = seg_step [OF "2.prems"(1) True]
    have "delivers out' (part c ws we (lo + unat l1) (unat e))
        (pump (reads c) ws we e chunk direct (futs @ [(off, submit_len e chunk direct off)]) ?next out')"
      by (rule "2.hyps"(1) [OF one refl sent True refl "2.prems"(1)])
         (use tile st in \<open>simp_all add: tiled_snoc word_le_nat_alt\<close>)
    with True show ?thesis by simp
  next
    case False
    have "delivers out' (part c ws we (lo + unat l1) (unat e)) (pump (reads c) ws we e chunk direct futs off out')"
      by (rule "2.hyps"(2) [OF one refl sent False "2.prems"(1) tile(3)])
         (use False "2.prems"(3) in auto)
    with False show ?thesis by simp
  qed
  have split: "part c ws we lo (unat e) = ?p @ part c ws we (lo + unat l1) (unat e)"
    using part_append [of lo "lo + unat l1" "unat e" c ws we] le by simp
  have step: "pump (reads c) ws we e chunk direct ((o1, l1) # futs) off out =
      (case (if ?p \<noteq> [] then send_frame ?p out else Some out) of
         None \<Rightarrow> (Inr (), out)
       | Some out' \<Rightarrow>
           if off < e then pump (reads c) ws we e chunk direct (futs @ [(off, submit_len e chunk direct off)]) ?next out'
           else pump (reads c) ws we e chunk direct futs off out')"
    by (simp only: pump.simps one sum.case option.case Let_def)
  show ?case
  proof (cases "?p = []")
    case True
    with rest [of out] show ?thesis
      unfolding step split by (simp only: True simp_thms if_False append_Nil option.case)
  next
    case False
    show ?thesis
    proof (cases "send_frame ?p out")
      case None
      with False delivers_stop [OF None] show ?thesis
        unfolding step split by (simp only: simp_thms if_True option.case)
    next
      case (Some out')
      with False delivers_frame [OF Some rest [of out']] show ?thesis
        unfolding step split by (simp only: simp_thms if_True option.case)
    qed
  qed
qed

lemma delivers_bounded:
  "sk_left out = Some k \<Longrightarrow> delivers out b res \<longleftrightarrow>
     fst res = Inr () \<and>
     (\<exists>fs rest. sk_frames (snd res) = sk_frames out @ fs \<and> concat fs @ rest = b \<and> sk_left (snd res) = Some (k - length fs) \<and>
        length fs \<le> k \<and> (rest \<noteq> [] \<longrightarrow> length fs = k))"
  by (auto simp: delivers_def)

lemma delivers_append:
  assumes "delivers out x (r, out1)" "delivers out1 y res"
  shows "delivers out (x @ y) res"
proof (cases "sk_left out")
  case None
  from assms(1) None obtain fs where fs: "sk_frames out1 = sk_frames out @ fs" "sk_left out1 = None" "concat fs = x"
    by (auto simp: delivers_def)
  with assms(2) obtain gs where "fst res = Inr ()" "sk_frames (snd res) = sk_frames out1 @ gs" "sk_left (snd res) = None" "concat gs = y"
    by (auto simp: delivers_def)
  with None fs show ?thesis
    by (auto simp: delivers_def intro!: exI [of _ "fs @ gs"])
next
  case (Some k)
  from assms(1) obtain fs u where fs: "sk_frames out1 = sk_frames out @ fs" "concat fs @ u = x"
    "sk_left out1 = Some (k - length fs)" "length fs \<le> k" "u \<noteq> [] \<longrightarrow> length fs = k"
    unfolding delivers_bounded [OF Some] by auto
  from assms(2) obtain gs v where gs: "fst res = Inr ()" "sk_frames (snd res) = sk_frames out1 @ gs" "concat gs @ v = y"
    "sk_left (snd res) = Some (k - length fs - length gs)" "length gs \<le> k - length fs" "v \<noteq> [] \<longrightarrow> length gs = k - length fs"
    unfolding delivers_bounded [OF fs(3)] by blast
  show ?thesis
  proof (cases "u = []")
    case True
    with fs gs show ?thesis
      unfolding delivers_bounded [OF Some] by (intro conjI exI [of _ "fs @ gs"] exI [of _ v]) auto
  next
    case False
    with fs gs have "gs = []" by auto
    with fs gs False show ?thesis
      unfolding delivers_bounded [OF Some] by (intro conjI exI [of _ fs] exI [of _ "u @ v"]) auto
  qed
qed

lemma delivers_send: "delivers out b (Inr (), case send_frame b out of None \<Rightarrow> out | Some out' \<Rightarrow> out')"
  using delivers_stop [of b out "[]"] delivers_frame [of b out _ "[]"] delivers_nothing
  by (cases "send_frame b out") auto

lemma stream_segment_delivers:
  assumes "seg_ok c e chunk direct" "s < e" "e = (if direct then min e0 (align_down file_size ALIGN) else e0)"
  shows "delivers out (part c ws we (unat s) (unat e)) (stream_segment (reads c) file_size s e0 ws we chunk inflight direct out)"
proof -
  define k where "k = unat (min (max inflight 1) (max (((e - s) + chunk - 1) div chunk) 1))"
  have "1 \<le> min (max inflight 1) (max (((e - s) + chunk - 1) div chunk) 1)"
    by (intro min.boundedI max.cobounded2)
  then have k: "k \<noteq> 0"
    unfolding k_def by (simp add: word_le_nat_alt)
  obtain futs off where f: "fill_window (submit_len e chunk direct) e k s [] = (futs, off)"
    by fastforce
  have tiles: "tiled (unat s) futs (unat off)" "off \<le> e" "futs \<noteq> []"
    using fill_window_tiled [OF assms(1) _ _ f, of "unat s"] assms(2) k by auto
  have "\<not> e \<le> s"
    using assms(2) by (simp only: not_le)
  then have "stream_segment (reads c) file_size s e0 ws we chunk inflight direct out =
      pump (reads c) ws we e chunk direct futs off out"
    by (simp add: stream_segment_def Let_def assms(3) [symmetric] k_def [symmetric] f)
  with pump_delivers [OF assms(1) tiles(1,2)] tiles(3) show ?thesis
    by simp
qed

lemma needed_pos:
  assumes "s < e" "chunk \<noteq> 0" "unat e + unat chunk < 18446744073709551616"
  shows "chunks_needed s e chunk \<noteq> 0"
proof -
  have "unat (e - s) = unat e - unat s" "unat s < unat e" "0 < unat chunk"
    using assms by (simp_all add: unat_sub word_less_nat_alt word_le_nat_alt unat_gt_0)
  moreover from this assms(3) have "unat (e - s + chunk) = unat e - unat s + unat chunk"
    by (simp add: unat_word_ariths)
  moreover from this calculation have "unat (e - s + chunk - 1) = unat e - unat s + unat chunk - 1"
    by (intro unat_minus_one_pos [THEN trans]) (simp_all add: word_less_nat_alt)
  ultimately have "unat chunk \<le> unat (e - s + chunk - 1)"
    by linarith
  then have "0 < unat ((e - s + chunk - 1) div chunk)"
    using \<open>0 < unat chunk\<close> by (simp add: unat_div_distrib div_greater_zero_iff)
  moreover have "\<not> e \<le> s"
    using assms(1) by (simp only: not_le)
  ultimately show ?thesis
    by (auto simp: chunks_needed_def Let_def)
qed

text \<open>The requests that the gateway makes: a range of the file, and a chunk size that is not absurd.\<close>

definition range_ok :: "str \<Rightarrow> u64 \<Rightarrow> byte_range \<Rightarrow> stream_cfg \<Rightarrow> bool" where
  "range_ok c file_size want cfg \<longleftrightarrow>
     unat file_size = length c \<and> length c < 2 ^ 63 \<and> start want < end_excl want \<and> end_excl want \<le> file_size \<and>
     0 < cfg_chunk_size cfg \<and> unat (cfg_chunk_size cfg) < 2 ^ 62"

lemma read_tail_slice:
  assumes "a < e" "unat e \<le> length c" "e - a \<le> chunk"
  shows "read_tail_bytes chunk (Inr (reads c)) a (e - a) = Inr (slice c (unat a) (unat e)) \<and> slice c (unat a) (unat e) \<noteq> []"
proof -
  have len: "unat (e - a) = unat e - unat a" "unat a < unat e"
    using assms by (simp_all add: unat_sub word_less_nat_alt word_le_nat_alt)
  then have "e - a \<noteq> 0"
    by auto
  moreover have "length (slice c (unat a) (unat e)) \<noteq> 0"
    using assms(2) len by simp
  moreover have "reads c a (e - a) = Inr (slice c (unat a) (unat e))"
    by (simp add: reads_def slice_def len)
  ultimately show ?thesis
    using assms(3) by (auto simp: read_tail_bytes_def)
qed


lemma unat_align_ALIGN:
  assumes "length c < 2 ^ 63" "unat e \<le> length c"
  shows "e \<le> align_up e ALIGN" "unat (align_up e ALIGN) < unat e + 4096"
  using align_up_bounds [of ALIGN e] assms by simp_all

lemma part_inside: "i \<le> unat ws \<Longrightarrow> part c ws we i j = slice c (unat ws) (min (unat we) j)"
  by (simp add: part_def max_absorb1)

lemma emit_tail_delivers:
  assumes "unat e \<le> length c" "ts < e \<Longrightarrow> e - ts \<le> chunk"
  shows "delivers out (slice c (unat ts) (unat e)) (emit_tail chunk (Inr (reads c)) ts e out)"
proof (cases "ts < e")
  case True
  from read_tail_slice [OF True assms(1) assms(2) [OF True]] True delivers_send show ?thesis
    by (simp add: emit_tail_def)
next
  case False
  then show ?thesis
    using delivers_nothing by (simp add: emit_tail_def word_less_nat_alt)
qed

lemma range_okD:
  assumes "range_ok c file_size want cfg"
  shows "unat file_size = length c" "length c < 2 ^ 63" "start want < end_excl want" "end_excl want \<le> file_size"
    "cfg_chunk_size cfg \<noteq> 0" "unat (start want) < unat (end_excl want)" "unat (end_excl want) \<le> length c"
    "unat e \<le> length c \<Longrightarrow> seg_ok c e (cfg_chunk_size cfg) direct"
    "s < e \<Longrightarrow> unat e \<le> length c \<Longrightarrow> chunks_needed s e (cfg_chunk_size cfg) \<noteq> 0"
proof -
  show "s < e \<Longrightarrow> unat e \<le> length c \<Longrightarrow> chunks_needed s e (cfg_chunk_size cfg) \<noteq> 0"
    using assms by (intro needed_pos) (auto simp: range_ok_def)
qed (use assms in \<open>auto simp: range_ok_def seg_ok_def word_less_nat_alt word_le_nat_alt\<close>)

definition uses_direct :: "stream_cfg \<Rightarrow> bool" where
  "uses_direct cfg \<longleftrightarrow> cfg_direct_io cfg \<and> cfg_chunk_size cfg mod ALIGN = 0"

lemma emit_range_buffered:
  assumes "range_ok c file_size want cfg" "\<not> uses_direct cfg"
  shows "delivers out (slice c (unat (start want)) (unat (end_excl want))) (emit_range (Inr (reads c)) file_size want cfg out)"
proof -
  note r = range_okD [OF assms(1)]
  let ?s = "start want" and ?e = "end_excl want"
  let ?seg = "stream_segment (reads c) file_size ?s ?e ?s ?e (cfg_chunk_size cfg)
      (min (max (cfg_inflight cfg) 1) (chunks_needed ?s ?e (cfg_chunk_size cfg))) False out"
  have "\<not> ?e \<le> ?s" "\<not> max ?s ?e < ?e" "min ?e file_size = ?e"
    using r(3,4) by (simp_all only: not_le not_less max_absorb2 min_absorb1 order_less_imp_le order_refl)
  then have "emit_range (Inr (reads c)) file_size want cfg out = ?seg"
    using assms(2) r(3) r(9) [OF r(3,7)]
    by (auto simp: emit_range_def emit_tail_def uses_direct_def [symmetric] Let_def split: prod.splits sum.splits)
  moreover have "delivers out (part c ?s ?e (unat ?s) (unat ?e)) ?seg"
    by (rule stream_segment_delivers [OF r(8) r(3)]) (simp_all add: r(7))
  ultimately show ?thesis
    by (simp add: part_def)
qed

lemma direct_chunk:
  assumes "uses_direct cfg" "cfg_chunk_size cfg \<noteq> 0"
  shows "4096 \<le> unat (cfg_chunk_size cfg)"
proof -
  have "unat (cfg_chunk_size cfg) mod 4096 = unat (cfg_chunk_size cfg mod ALIGN)"
    by (simp add: unat_mod_distrib)
  also have "\<dots> = 0"
    using assms(1) by (simp add: uses_direct_def)
  finally have "unat (cfg_chunk_size cfg) mod 4096 = 0" .
  moreover have "0 < unat (cfg_chunk_size cfg)"
    using assms(2) by (simp add: unat_gt_0)
  ultimately show ?thesis
    by (metis mod_less not_le less_not_refl)
qed

text \<open>With direct I/O: the aligned part ends at \<open>de\<close>, and the rest of the range is less than a block.\<close>

lemma direct_bounds:
  assumes "range_ok c file_size want cfg"
  defines "s0 \<equiv> align_down (start want) ALIGN" and "e0 \<equiv> align_up (end_excl want) ALIGN"
  defines "de \<equiv> min e0 (align_down file_size ALIGN)"
  shows "unat s0 \<le> unat (start want)" "end_excl want \<le> e0" "unat de \<le> length c"
    "unat (end_excl want) < unat de + 4096" "\<not> e0 \<le> s0"
proof -
  note r = range_okD [OF assms(1)]
  show s0: "unat s0 \<le> unat (start want)" and e0: "end_excl want \<le> e0"
    using align_down_bounds [of ALIGN "start want"] unat_align_ALIGN [OF r(2,7)] by (simp_all add: s0_def e0_def word_le_nat_alt)
  have a: "unat (align_down file_size ALIGN) \<le> length c" "length c < unat (align_down file_size ALIGN) + 4096"
    using align_down_bounds [of ALIGN file_size] r(1) by (simp_all add: word_le_nat_alt)
  have "unat de = min (unat e0) (unat (align_down file_size ALIGN))"
    by (simp add: de_def min_def word_le_nat_alt)
  with a e0 r(7) show "unat de \<le> length c" "unat (end_excl want) < unat de + 4096"
    by (simp_all add: word_le_nat_alt)
  show "\<not> e0 \<le> s0"
    using s0 e0 r(6) by (simp add: word_le_nat_alt)
qed

lemma emit_range_direct:
  assumes "range_ok c file_size want cfg" "uses_direct cfg"
  shows "delivers out (slice c (unat (start want)) (unat (end_excl want))) (emit_range (Inr (reads c)) file_size want cfg out)"
proof -
  note r = range_okD [OF assms(1)]
  let ?s = "start want" and ?e = "end_excl want" and ?chunk = "cfg_chunk_size cfg"
  define s0 where "s0 = align_down ?s ALIGN"
  define de where "de = min (align_up ?e ALIGN) (align_down file_size ALIGN)"
  note b = direct_bounds [OF assms(1), folded s0_def de_def]
  define ts where "ts = max ?s de"
  have ts: "unat ts = max (unat ?s) (unat de)"
    by (simp add: ts_def max_def word_le_nat_alt)
  have tail: "delivers out' (slice c (unat ts) (unat ?e)) (emit_tail ?chunk (Inr (reads c)) ts ?e out')" for out'
    by (rule emit_tail_delivers [OF r(7)])
       (use direct_chunk [OF assms(2) r(5)] ts b(4) in \<open>simp add: word_le_nat_alt unat_sub word_less_nat_alt\<close>)
  have "min ?e file_size = ?e"
    using r(4) by (simp add: min_absorb1)
  note unfold = emit_range_def uses_direct_def [symmetric] assms(2) Let_def if_True b(5) if_False this
    s0_def [symmetric] de_def [symmetric] ts_def [symmetric]
  show ?thesis
  proof (cases "s0 < de")
    case True
    let ?seg = "stream_segment (reads c) file_size s0 de ?s ?e ?chunk (min (max (cfg_inflight cfg) 1) (chunks_needed s0 de ?chunk)) True out"
    have seg: "delivers out (part c ?s ?e (unat s0) (unat de)) ?seg"
      by (rule stream_segment_delivers [OF r(8) [OF b(3)] True]) (simp add: de_def)
    then obtain out1 where out1: "?seg = (Inr (), out1)"
      by (cases ?seg) (auto simp: delivers_def)
    have "emit_range (Inr (reads c)) file_size want cfg out = emit_tail ?chunk (Inr (reads c)) ts ?e out1"
      by (simp only: unfold True r(9) [OF True b(3)] sum.case out1 prod.case)
    moreover have "part c ?s ?e (unat s0) (unat de) @ slice c (unat ts) (unat ?e) = slice c (unat ?s) (unat ?e)"
      using slice_append [of "unat ?s" "unat de" "unat ?e" c] r(6) ts
      by (cases "unat de \<le> unat ?s"; cases "unat ?e \<le> unat de") (simp_all add: part_inside [OF b(1)] max_def min_def)
    ultimately show ?thesis
      using delivers_append [OF seg [unfolded out1] tail [of out1]] by simp
  next
    case False
    then have "unat ts = unat ?s"
      using ts b(1) by (simp add: word_less_nat_alt)
    moreover have "emit_range (Inr (reads c)) file_size want cfg out = emit_tail ?chunk (Inr (reads c)) ts ?e out"
      by (simp only: unfold False)
    ultimately show ?thesis
      using tail [of out] by simp
  qed
qed

lemma emit_range_sends:
  assumes "range_ok c file_size want cfg"
  shows "delivers out (slice c (unat (start want)) (unat (end_excl want))) (emit_range (Inr (reads c)) file_size want cfg out)"
  using emit_range_buffered [OF assms] emit_range_direct [OF assms] by blast

section \<open>The body and its length\<close>

definition multirange_part :: "str \<Rightarrow> u64 \<Rightarrow> str \<Rightarrow> byte_range \<Rightarrow> str" where
  "multirange_part c file_size boundary r =
     multirange_part_header boundary (start r) (end_excl r - 1) file_size @ slice c (unat (start r)) (unat (end_excl r)) @ CRLF"

definition multirange_body :: "str \<Rightarrow> u64 \<Rightarrow> byte_range list \<Rightarrow> str \<Rightarrow> str" where
  "multirange_body c file_size ranges boundary =
     concat (map (multirange_part c file_size boundary) ranges) @ multirange_closing boundary"

lemma emit_multirange_sends:
  "\<forall>r\<in>set ranges. range_ok c file_size r cfg \<Longrightarrow>
     delivers out (multirange_body c file_size ranges boundary) (emit_multirange (Inr (reads c)) file_size ranges boundary cfg out)"
proof (induction ranges arbitrary: out)
  case Nil
  show ?case
    using delivers_send [of out "multirange_closing boundary"] by (simp add: multirange_body_def)
next
  case (Cons r ranges)
  let ?h = "multirange_part_header boundary (start r) (end_excl r - 1) file_size"
  let ?d = "slice c (unat (start r)) (unat (end_excl r))"
  let ?rest = "multirange_body c file_size ranges boundary"
  have body: "multirange_body c file_size (r # ranges) boundary = ?h @ ?d @ CRLF @ ?rest"
    by (simp add: multirange_body_def multirange_part_def)
  show ?case
  proof (cases "send_frame ?h out")
    case None
    with delivers_stop [OF None] body show ?thesis by simp
  next
    case (Some out1)
    have range: "delivers out1 ?d (emit_range (Inr (reads c)) file_size r cfg out1)"
      using Cons.prems by (intro emit_range_sends) simp
    then obtain out2 where out2: "emit_range (Inr (reads c)) file_size r cfg out1 = (Inr (), out2)"
      by (cases "emit_range (Inr (reads c)) file_size r cfg out1") (auto simp: delivers_def)
    have "delivers out2 (CRLF @ ?rest) (case send_frame CRLF out2 of None \<Rightarrow> (Inr (), out2)
        | Some out3 \<Rightarrow> emit_multirange (Inr (reads c)) file_size ranges boundary cfg out3)"
      using delivers_stop [of CRLF out2] delivers_frame [of CRLF out2] Cons.IH Cons.prems
      by (cases "send_frame CRLF out2") auto
    from delivers_frame [OF Some delivers_append [OF range [unfolded out2] this]] Some out2 show ?thesis
      by (simp add: body)
  qed
qed

lemma multirange_sum_length:
  assumes "\<forall>r\<in>set ranges. range_ok c file_size r cfg"
  shows "multirange_sum boundary file_size ranges len =
    len + of_nat (length (concat (map (multirange_part c file_size boundary) ranges)))"
  using assms
proof (induction ranges arbitrary: len)
  case (Cons r ranges)
  then have r: "range_ok c file_size r cfg"
    by simp
  note bounds = range_okD(3,6,7) [OF r]
  have "of_nat (unat (end_excl r) - unat (start r)) = end_excl r - start r"
    using bounds(2) by (simp add: of_nat_diff)
  moreover have "saturating_sub (end_excl r) 1 = end_excl r - 1"
    using bounds(2) by (auto simp: saturating_sub_def)
  moreover have "length CRLF = 2"
    by (simp add: CRLF_def bytes_def)
  ultimately have "of_nat (length (multirange_part c file_size boundary r)) = multirange_part_len boundary file_size r"
    using bounds(3) by (simp add: multirange_part_def multirange_part_len_def)
  with Cons show ?case
    by simp
qed simp


definition example_cfg :: stream_cfg where
  "example_cfg = \<lparr>cfg_chunk_size = 4096, cfg_inflight = 2, cfg_direct_io = True\<rparr>"

definition example_file :: str where
  "example_file = replicate 4096 CHR ''a'' @ ''hello world''"

definition example_range :: byte_range where
  "example_range = \<lparr>start = 4094, end_excl = 4101\<rparr>"

lemma example_range_ok: "range_ok example_file 4107 example_range example_cfg"
  by (simp add: range_ok_def example_file_def example_range_def example_cfg_def)


text \<open>
  A response with several ranges sends, for each range in the order asked for, its header, its
  bytes and a line end, and then the closing delimiter. The length announced for the body is the
  number of bytes sent.
\<close>
theorem emit_multirange_delivers:
  assumes "\<forall>r\<in>set ranges. range_ok c file_size r cfg"
  shows "delivers out (multirange_body c file_size ranges boundary)
      (emit_multirange (Inr (reads c)) file_size ranges boundary cfg out) \<and>
    multirange_content_length boundary ranges file_size = of_nat (length (multirange_body c file_size ranges boundary))"
  using emit_multirange_sends [OF assms] multirange_sum_length [OF assms]
  by (simp add: multirange_content_length_def multirange_body_def)

theorem emit_multirange_delivers_witness:
  "multirange_content_length ''B'' [example_range, example_range] 4107 =
     of_nat (length (multirange_body example_file 4107 [example_range, example_range] ''B''))"
  using emit_multirange_delivers [of "[example_range, example_range]" example_file 4107 example_cfg
      "\<lparr>sk_frames = [], sk_left = None\<rparr>" "''B''"] example_range_ok by simp

end
