(* ===== verification/Object_Write.thy ===== *)
theory Object_Write
  imports Payload_Readers Range_Stream Uring_Io "HOL-Library.Multiset"
begin

text \<open>
  The write side of \<open>crates/s32p-gateway/src/streaming.rs\<close>: \<open>write_object_body\<close> stores a request body
  in a new file or in a part of an open one, \<open>copy_file_to_file\<close> copies an object. What the file
  system and the ring answer is in a record of the environment. The ring performs the writes it
  has accepted in any order.
\<close>

section \<open>Files\<close>

definition write_at :: "nat \<Rightarrow> str \<Rightarrow> str \<Rightarrow> str" where
  "write_at off d c =
     (if d = [] then c else take off c @ replicate (off - length c) CHR 0x00 @ d @ drop (off + length d) c)"

fun apply_writes :: "(u64 \<times> str) list \<Rightarrow> str \<Rightarrow> str" where
  "apply_writes [] c = c"
| "apply_writes ((off, d) # ws) c = apply_writes ws (write_at (unat off) d c)"

definition byte_at :: "str \<Rightarrow> nat \<Rightarrow> char" where
  "byte_at c i = (if i < length c then c ! i else CHR 0x00)"

lemma str_eqI: "length a = length b \<Longrightarrow> (\<And>i. byte_at a i = byte_at b i) \<Longrightarrow> a = b"
  unfolding byte_at_def by (metis nth_equalityI)

lemma length_write_at: "length (write_at off d c) = (if d = [] then length c else max (length c) (off + length d))"
  by (auto simp: write_at_def)

lemma byte_at_write: "byte_at (write_at off d c) i = (if off \<le> i \<and> i < off + length d then d ! (i - off) else byte_at c i)"
proof (cases "d = []")
  case False
  have "byte_at (take off c @ replicate (off - length c) CHR 0x00 @ d @ drop (off + length d) c) i =
      (if off \<le> i \<and> i < off + length d then d ! (i - off) else byte_at c i)"
    by (auto simp: byte_at_def nth_append min_def)
  with False show ?thesis
    by (simp add: write_at_def)
qed (auto simp: write_at_def)

text \<open>Writes that follow each other from \<open>start\<close>.\<close>

fun laid_out :: "nat \<Rightarrow> (u64 \<times> str) list \<Rightarrow> str \<Rightarrow> bool" where
  "laid_out s [] b \<longleftrightarrow> b = []"
| "laid_out s ((off, d) # ws) b \<longleftrightarrow> unat off = s \<and> d \<noteq> [] \<and> (\<exists>b'. b = d @ b' \<and> laid_out (s + length d) ws b')"

definition covers :: "u64 \<times> str \<Rightarrow> nat \<Rightarrow> bool" where
  "covers w i \<longleftrightarrow> unat (fst w) \<le> i \<and> i < unat (fst w) + length (snd w)"

lemma byte_at_apply:
  "\<forall>w\<in>set ws. covers w i \<longrightarrow> snd w ! (i - unat (fst w)) = x \<Longrightarrow>
   byte_at (apply_writes ws c) i = (if \<exists>w\<in>set ws. covers w i then x else byte_at c i)"
proof (induction ws arbitrary: c)
  case (Cons w ws)
  obtain off d where w: "w = (off, d)" by fastforce
  from Cons.IH [of "write_at (unat off) d c"] Cons.prems w show ?case
    by (auto simp: byte_at_write covers_def)
qed simp

lemma length_apply_le:
  "length (apply_writes ws c) \<le> n \<longleftrightarrow> length c \<le> n \<and> (\<forall>w\<in>set ws. snd w \<noteq> [] \<longrightarrow> unat (fst w) + length (snd w) \<le> n)"
proof (induction ws arbitrary: c)
  case (Cons w ws)
  obtain off d where w: "w = (off, d)" by fastforce
  from Cons.IH [of "write_at (unat off) d c"] w show ?case
    by (auto simp: length_write_at)
qed simp

lemma laid_out_covers:
  assumes "laid_out s ws b"
  shows "(\<exists>w\<in>set ws. covers w i) \<longleftrightarrow> s \<le> i \<and> i < s + length b"
    "w \<in> set ws \<Longrightarrow> covers w i \<Longrightarrow> snd w ! (i - unat (fst w)) = b ! (i - s)"
proof -
  have "((\<exists>w\<in>set ws. covers w i) \<longleftrightarrow> s \<le> i \<and> i < s + length b) \<and>
    (\<forall>w\<in>set ws. covers w i \<longrightarrow> s \<le> i \<and> snd w ! (i - unat (fst w)) = b ! (i - s))"
    using assms
  proof (induction s ws b rule: laid_out.induct)
    case (2 s off d ws b)
    then obtain b' where b': "unat off = s" "d \<noteq> []" "b = d @ b'" "laid_out (s + length d) ws b'"
      by auto
    from "2.IH" [OF b'(4)] b' show ?case
      by (fastforce simp: covers_def nth_append)
  qed simp
  then show "(\<exists>w\<in>set ws. covers w i) \<longleftrightarrow> s \<le> i \<and> i < s + length b"
    "w \<in> set ws \<Longrightarrow> covers w i \<Longrightarrow> snd w ! (i - unat (fst w)) = b ! (i - s)"
    by blast+
qed

lemma laid_out_ends:
  "laid_out s ws b \<Longrightarrow> b \<noteq> [] \<Longrightarrow> (\<forall>w\<in>set ws. snd w \<noteq> [] \<longrightarrow> unat (fst w) + length (snd w) \<le> n) \<longleftrightarrow> s + length b \<le> n"
proof (induction s ws b rule: laid_out.induct)
  case (2 s off d ws b)
  then obtain b' where b': "unat off = s" "d \<noteq> []" "b = d @ b'" "laid_out (s + length d) ws b'"
    by auto
  show ?case
  proof (cases "b' = []")
    case True
    then have "ws = []"
      using b'(4) by (cases ws) auto
    with b' True show ?thesis by simp
  next
    case False
    from "2.IH" [OF b'(4) False] b' show ?thesis
      by auto
  qed
qed simp

text \<open>Writes that follow each other give the same file in whatever order they are performed.\<close>

lemma apply_any_order:
  assumes "laid_out s ws b" "mset vs = mset ws"
  shows "apply_writes vs c = write_at s b c"
proof (cases "b = []")
  case True
  with assms have "ws = []"
    by (cases ws) auto
  with assms True show ?thesis
    by (simp add: write_at_def)
next
  case False
  have set: "set vs = set ws"
    using assms(2) by (rule mset_eq_setD)
  show ?thesis
  proof (rule str_eqI)
    have "length (apply_writes vs c) \<le> n \<longleftrightarrow> length (write_at s b c) \<le> n" for n
      unfolding length_apply_le set laid_out_ends [OF assms(1) False] length_write_at using False by simp
    then show "length (apply_writes vs c) = length (write_at s b c)"
      by (meson order_antisym order_refl)
    show "byte_at (apply_writes vs c) i = byte_at (write_at s b c) i" for i
      using byte_at_apply [of vs i "b ! (i - s)" c] laid_out_covers [OF assms(1)] unfolding set byte_at_write by auto
  qed
qed

lemma laid_out_snoc:
  "laid_out s ws b \<Longrightarrow> unat off = s + length b \<Longrightarrow> d \<noteq> [] \<Longrightarrow> laid_out s (ws @ [(off, d)]) (b @ d)"
  by (induction s ws b rule: laid_out.induct) auto

section \<open>Uploads\<close>

text \<open>
  What happens to a write: the ring takes it, \<open>sender.write\<close> returns an error, or the branch of
  \<open>select!\<close> on the cancellation wins.
\<close>

datatype upload_answer = Accepted | Refused | Cancelled

text \<open>
  The environment of an upload: \<open>create_dir_all\<close> and opening the file, \<open>fallocate\<close>, the
  cancellation of the ring as seen before the \<open>k\<close>-th write, the outcome of the \<open>k\<close>-th write, the
  order in which the accepted writes are performed, and what \<open>wait\<close> returns.
\<close>

record write_env =
  we_mkdirs :: "str + unit"
  we_open :: "str + unit"
  we_fallocate :: "u64 \<Rightarrow> u64 \<Rightarrow> int option"
  we_cancelled :: "nat \<Rightarrow> bool"
  we_write :: "nat \<Rightarrow> upload_answer"
  we_order :: "(u64 \<times> str) list \<Rightarrow> (u64 \<times> str) list"
  we_wait :: "str + unit"

text \<open>\<open>WriteObjectDest\<close>: a new file, or a place in an open file (with its content).\<close>

datatype write_dest = Path | File str u64

datatype src = Plain plain_reader | Aws decoder

definition src_read_exact :: "nat \<Rightarrow> src \<Rightarrow> read_error + str \<times> src" where
  "src_read_exact n s =
     (case s of
        Plain p \<Rightarrow> (case plain_read_exact n p of Inl e \<Rightarrow> Inl e | Inr (b, p') \<Rightarrow> Inr (b, Plain p'))
      | Aws d \<Rightarrow> (case dec_read_exact n d of Inl e \<Rightarrow> Inl e | Inr (b, d') \<Rightarrow> Inr (b, Aws d')))"

definition src_finish :: "src \<Rightarrow> read_error + unit" where
  "src_finish s = (case s of Plain p \<Rightarrow> plain_ensure_eof p | Aws d \<Rightarrow> drain_to_eof d)"

fun io_message :: "read_error \<Rightarrow> str" where
  "io_message (UnexpectedEof m) = m"
| "io_message (InvalidData m) = m"
| "io_message (Broken m) = m"

definition direct_io_ok_for_aligned_range :: "u64 \<Rightarrow> u64 \<Rightarrow> stream_cfg \<Rightarrow> bool" where
  "direct_io_ok_for_aligned_range start_off len cfg =
     (if \<not> cfg_direct_io cfg then False
      else if cfg_chunk_size cfg mod ALIGN \<noteq> 0 then False
      else if len < cfg_chunk_size cfg then False
      else if start_off mod ALIGN \<noteq> 0 then False
      else if len mod ALIGN \<noteq> 0 then False
      else True)"

lemma chunk_advance:
  assumes "off < (len :: u64)" "chunk \<noteq> 0"
  shows "unat len - unat (saturating_add off (min chunk (len - off))) < unat len - unat off"
proof (rule advance_less [OF assms(1)])
  show "min chunk (len - off) \<noteq> 0"
    using assms by (auto simp: min_def)
qed

text \<open>
  The loop over the chunks of the object. \<open>ws\<close> are the writes the ring has accepted, \<open>k\<close> counts
  the chunks. A chunk size of 0 never gets here.
\<close>

function upload_loop ::
  "write_env \<Rightarrow> bool \<Rightarrow> bool \<Rightarrow> u64 \<Rightarrow> usize \<Rightarrow> u64 \<Rightarrow> src \<Rightarrow> u64 \<Rightarrow> nat \<Rightarrow> bool \<Rightarrow> (u64 \<times> str) list \<Rightarrow> str + src \<times> (u64 \<times> str) list" where
  "upload_loop env direct truncates start_off chunk logical_len s off_in_obj k tx_dead ws =
     (if \<not> (off_in_obj < logical_len) \<or> chunk = 0 then Inr (s, ws)
      else (let remaining = logical_len - off_in_obj;
                real_len = min chunk remaining;
                write_len = (if direct \<and> truncates then (if real_len = chunk then chunk else align_up real_len ALIGN) else real_len);
                off' = saturating_add off_in_obj real_len
            in if direct \<and> \<not> truncates \<and> real_len mod ALIGN \<noteq> 0
               then Inl (''direct_io requires aligned write length; got len='' @ show_nat (unat real_len) @ '' at off='' @
                      show_nat (unat (start_off + off_in_obj)))
               else (case src_read_exact (unat real_len) s of
                   Inl e \<Rightarrow> Inl (''read payload failed at off='' @ show_nat (unat (start_off + off_in_obj)) @ '': '' @ io_message e)
                 | Inr (b, s') \<Rightarrow>
                     if tx_dead \<or> we_cancelled env k
                     then upload_loop env direct truncates start_off chunk logical_len s' off' (Suc k) tx_dead ws
                     else if unat start_off + unat off_in_obj \<ge> 2 ^ 64
                     then Inl (''write offset overflow: start_off='' @ show_nat (unat start_off) @ '' off='' @ show_nat (unat off_in_obj))
                     else (let w = (start_off + off_in_obj, b @ replicate (unat write_len - unat real_len) CHR 0x00)
                           in case we_write env k of
                                Accepted \<Rightarrow> upload_loop env direct truncates start_off chunk logical_len s' off' (Suc k) False (ws @ [w])
                              | _ \<Rightarrow> upload_loop env direct truncates start_off chunk logical_len s' off' (Suc k) True ws))))"
  by pat_completeness auto

termination
  by (relation "measure (\<lambda>(env, direct, truncates, start_off, chunk, len, s, off, k, tx, ws). unat len - unat off)")
     (use chunk_advance in \<open>auto simp: Let_def\<close>)

declare upload_loop.simps [simp del]

definition new_src :: "bool \<Rightarrow> frames \<Rightarrow> src" where
  "new_src aws body = (if aws then Aws (decoder_new body) else Plain (plain_new body))"

definition write_object_body ::
  "write_env \<Rightarrow> frames \<Rightarrow> write_dest \<Rightarrow> u64 \<Rightarrow> bool \<Rightarrow> stream_cfg \<Rightarrow> str + str" where
  "write_object_body env body dest logical_len is_aws_chunked cfg =
     (let chunk = cfg_chunk_size cfg;
          direct0 = (case dest of
              Path \<Rightarrow> cfg_direct_io cfg \<and> logical_len > chunk
            | File c start_off \<Rightarrow> direct_io_ok_for_aligned_range start_off logical_len cfg);
          direct = (direct0 \<and> chunk mod ALIGN = 0)
      in rbind (case dest of
             Path \<Rightarrow>
               rbind (we_mkdirs env) (\<lambda>_. rbind (we_open env) (\<lambda>_.
               rbind (try_preallocate_range (we_fallocate env) 0 (if direct then align_up logical_len ALIGN else logical_len) [])
                 (\<lambda>c. Inr (c, 0, True))))
           | File c start_off \<Rightarrow> Inr (c, start_off, False))
         (\<lambda>(c, start_off, truncates).
            if logical_len = 0 then Inr (if truncates then ftruncate_file c 0 else c)
            else if chunk = 0 then Inl ''attempt to divide by zero''
            else rbind (upload_loop env direct truncates start_off chunk logical_len
                     (new_src is_aws_chunked body) 0 0 False [])
              (\<lambda>(s, ws).
                 (case src_finish s of
                    Inl e \<Rightarrow> Inl (io_message e)
                  | Inr _ \<Rightarrow>
                      rbind (we_wait env) (\<lambda>_.
                        let c' = apply_writes (we_order env ws) c
                        in Inr (if truncates then ftruncate_file c' (unat logical_len) else c'))))))"

section \<open>The source of an upload\<close>

definition src_payload :: "src \<Rightarrow> str" where
  "src_payload s = (case s of Plain p \<Rightarrow> plain_payload p | Aws d \<Rightarrow> dec_payload d)"

definition src_failure :: "src \<Rightarrow> read_error" where
  "src_failure s = (case s of Plain p \<Rightarrow> plain_failure p | Aws d \<Rightarrow> dec_failure d)"

interpretation source: payload_reader src_read_exact src_payload src_failure
proof
  show "n \<le> length (src_payload s) \<Longrightarrow>
      \<exists>s'. src_read_exact n s = Inr (take n (src_payload s), s') \<and> src_payload s' = drop n (src_payload s) \<and> src_failure s' = src_failure s"
    for n s
  proof (cases s)
    case (Plain p)
    moreover assume "n \<le> length (src_payload s)"
    ultimately show ?thesis
      using plain.read_enough [of n p] by (auto simp: src_read_exact_def src_payload_def src_failure_def)
  next
    case (Aws d)
    moreover assume "n \<le> length (src_payload s)"
    ultimately show ?thesis
      using aws.read_enough [of n d] by (auto simp: src_read_exact_def src_payload_def src_failure_def)
  qed
  show "length (src_payload s) < n \<Longrightarrow> src_read_exact n s = Inl (src_failure s)" for n s
    using plain.read_short aws.read_short by (cases s) (auto simp: src_read_exact_def src_payload_def src_failure_def)
qed

text \<open>
  A source is clean when its stream has no error to come, and a stream that has ended has nothing
  to come. Reading keeps it so.
\<close>

definition no_errors :: "frames \<Rightarrow> bool" where
  "no_errors fs \<longleftrightarrow> list_all (\<lambda>f. \<not> isl f) fs"

definition clean :: "frames \<Rightarrow> bool \<Rightarrow> bool" where
  "clean fs eof \<longleftrightarrow> no_errors fs \<and> (eof \<longrightarrow> fs = [])"

lemma refill_clean: "refill_loop fs buf eof = Inr (fs', buf', eof') \<Longrightarrow> clean fs eof \<Longrightarrow> clean fs' eof'"
  by (induction fs buf eof rule: refill_loop.induct) (auto simp: clean_def no_errors_def split: if_splits sum.splits)

abbreviation clean_dec :: "decoder \<Rightarrow> bool" where
  "clean_dec d \<equiv> clean (dc_stream d) (dc_eof d)"

abbreviation clean_plain :: "plain_reader \<Rightarrow> bool" where
  "clean_plain r \<equiv> clean (pl_stream r) (pl_done r)"

lemma plain_refill_clean: "plain_refill r = Inr r' \<Longrightarrow> clean_plain r \<Longrightarrow> clean_plain r'"
  by (auto simp: plain_refill_def dest: refill_clean split: if_splits sum.splits)

lemma plain_read_clean: "plain_read_exact n r = Inr (b, r') \<Longrightarrow> clean_plain r \<Longrightarrow> clean_plain r'"
proof (induction n r arbitrary: b rule: plain_read_exact.induct)
  case (1 n r)
  show ?case
    using "1.prems" plain_refill_clean [of r]
    by (subst (asm) plain_read_exact.simps) (auto simp: Let_def split: if_splits sum.splits prod.splits intro: "1.IH" [OF _ _ _ refl])
qed

lemma dec_refill_clean: "dec_refill d = Inr d' \<Longrightarrow> clean_dec d \<Longrightarrow> clean_dec d'"
  by (auto simp: dec_refill_def dest: refill_clean split: sum.splits)

lemma read_line_clean: "read_line_loop sc d = Inr (l, d') \<Longrightarrow> clean_dec d \<Longrightarrow> clean_dec d'"
proof (induction sc d rule: read_line_loop.induct)
  case (1 sc d)
  show ?case
    using "1.prems" dec_refill_clean [of "d\<lparr>dc_buf := []\<rparr>"]
    by (subst (asm) read_line_loop.simps) (auto split: if_splits sum.splits option.splits intro: "1.IH")
qed

lemma consume_clean: "consume_exact need d = Inr d' \<Longrightarrow> clean_dec d \<Longrightarrow> clean_dec d'"
proof (induction need d rule: consume_exact.induct)
  case (1 need d)
  show ?case
    using "1.prems" dec_refill_clean [of d]
    by (subst (asm) consume_exact.simps) (auto simp: Let_def split: if_splits sum.splits intro: "1.IH" [OF _ _ _ refl])
qed

lemma trailers_clean: "read_trailers_until_blank d = Inr d' \<Longrightarrow> clean_dec d \<Longrightarrow> clean_dec d'"
proof (induction d rule: read_trailers_until_blank.induct)
  case (1 d)
  show ?case
    using "1.prems" read_line_clean [of "[]" d]
    by (subst (asm) read_trailers_until_blank.simps) (auto simp: read_line_def split: if_splits sum.splits intro: "1.IH" [unfolded read_line_def])
qed

lemma next_clean: "next_payload_raw d = Inr (b, d') \<Longrightarrow> clean_dec d \<Longrightarrow> clean_dec d'"
proof (induction d rule: next_payload_raw.induct)
  case (1 d)
  note unfold = "1.prems"(1) [unfolded next_payload_raw.simps [of d]]
  show ?case
  proof (cases "dc_state d")
    case NeedHeader
    with unfold obtain l d1 n where l: "read_line d = Inr (l, d1)" "parse_chunk_len_line l = Inr n"
      and rec: "(if n = 0 then next_payload_raw (d1\<lparr>dc_state := NeedTrailers\<rparr>)
        else next_payload_raw (d1\<lparr>dc_remaining := n, dc_state := NeedData\<rparr>)) = Inr (b, d')"
      by (auto split: sum.splits)
    have "clean_dec d1"
      using read_line_clean l(1) "1.prems"(2) unfolding read_line_def by blast
    then show ?thesis
      using rec "1.IH"(1) [OF NeedHeader l(1) refl l(2)] "1.IH"(2) [OF NeedHeader l(1) refl l(2)] by (cases "n = 0") simp_all
  next
    case NeedData
    then show ?thesis
      using unfold "1.prems"(2) dec_refill_clean [of d]
      by (auto simp: Let_def split: if_splits sum.splits intro: "1.IH"(3) "1.IH"(4) [OF _ _ _ _ refl refl refl])
  next
    case NeedCrlf
    then show ?thesis
      using unfold "1.prems"(2) consume_clean [of _ d]
      by (auto split: sum.splits intro: "1.IH"(5))
  next
    case NeedTrailers
    then show ?thesis
      using unfold "1.prems"(2) trailers_clean [of d] by (auto split: sum.splits)
  next
    case Done
    then show ?thesis
      using unfold "1.prems"(2) by simp
  qed
qed

lemma dec_read_clean: "dec_read_exact n d = Inr (b, d') \<Longrightarrow> clean_dec d \<Longrightarrow> clean_dec d'"
proof (induction n d arbitrary: b rule: dec_read_exact.induct)
  case (1 n d)
  note unfold = "1.prems"(1) [unfolded dec_read_exact.simps [of n d]]
  show ?case
  proof (cases "n = 0 \<or> dc_pending d \<noteq> []")
    case True
    then show ?thesis
      using unfold "1.prems"(2)
      by (auto simp: Let_def split: if_splits sum.splits intro: "1.IH"(1) [OF _ _ refl])
  next
    case False
    then obtain c d1 where c: "next_payload_raw d = Inr (Some c, d1)" "c \<noteq> []"
      using unfold next_payload_raw_nonempty [of d]
      by (auto simp: Let_def split: if_splits sum.splits option.splits)
    let ?k = "min n (length c)"
    let ?d2 = "if ?k < length c then d1\<lparr>dc_pending := drop ?k c\<rparr> else d1"
    from unfold c False obtain bs where "dec_read_exact (n - ?k) ?d2 = Inr (bs, d')"
      by (auto simp: Let_def split: sum.splits if_splits)
    from "1.IH"(3) [OF _ _ c(1) refl refl c(2) refl refl this] next_clean [OF c(1)] "1.prems"(2) False show ?thesis
      by auto
  qed
qed

definition src_clean :: "src \<Rightarrow> bool" where
  "src_clean s = (case s of Plain p \<Rightarrow> clean_plain p | Aws d \<Rightarrow> clean_dec d)"

lemma src_read_clean: "src_read_exact n s = Inr (b, s') \<Longrightarrow> src_clean s \<Longrightarrow> src_clean s' \<and> (\<forall>p. s = Plain p \<longrightarrow> (\<exists>p'. s' = Plain p'))"
  by (cases s) (auto simp: src_read_exact_def src_clean_def dest: plain_read_clean dec_read_clean split: sum.splits)

lemma frames_empty_clean: "no_errors fs \<Longrightarrow> stream_bytes fs = [] \<Longrightarrow> frames_empty fs = Inr ()"
  by (induction fs rule: frames_empty.induct) (auto simp: no_errors_def)

lemma drain_clean: "no_errors fs \<Longrightarrow> drain_frames fs = Inr ()"
  by (induction fs rule: drain_frames.induct) (auto simp: no_errors_def)

text \<open>At the end of a clean source whose payload was read, the body is accepted.\<close>

lemma src_finish_clean:
  assumes "src_clean s" "(\<exists>p. s = Plain p) \<longrightarrow> src_payload s = []"
  shows "src_finish s = Inr ()"
proof (cases s)
  case (Plain p)
  with assms have "no_errors (pl_stream p)" "pl_done p \<longrightarrow> pl_stream p = []" "plain_payload p = []"
    by (simp_all add: src_clean_def clean_def src_payload_def)
  then have "no_errors (pl_stream p)" "stream_bytes (pl_stream p) = []"
    by (auto simp: plain_payload_def raw_bytes_def split: if_splits)
  with Plain show ?thesis
    by (simp add: src_finish_def plain_ensure_eof_def frames_empty_clean)
next
  case (Aws d)
  with assms show ?thesis
    by (simp add: src_finish_def drain_to_eof_def drain_clean src_clean_def clean_def)
qed

section \<open>What an upload stores\<close>

text \<open>The ring is not cancelled and takes every write.\<close>

definition smooth :: "write_env \<Rightarrow> bool" where
  "smooth env \<longleftrightarrow> (\<forall>k. \<not> we_cancelled env k \<and> we_write env k = Accepted)"

text \<open>The length of a chunk, and where the next one begins.\<close>

lemma chunk_nat:
  assumes "off < (len :: u64)" "chunk \<noteq> 0"
  defines "r \<equiv> min chunk (len - off)"
  shows "unat r = min (unat chunk) (unat len - unat off)" "0 < unat r" "unat (saturating_add off r) = unat off + unat r"
    "unat off + unat r \<le> unat len"
proof -
  have lt: "unat off < unat len"
    using assms(1) by (simp add: word_less_nat_alt)
  have "unat (len - off) = unat len - unat off"
    using assms(1) by (simp add: unat_sub)
  then show r: "unat r = min (unat chunk) (unat len - unat off)"
    by (simp add: r_def min_def word_le_nat_alt)
  show "0 < unat r"
    using r lt assms(2) by (simp add: unat_gt_0)
  show le: "unat off + unat r \<le> unat len"
    using r lt by simp
  then show "unat (saturating_add off r) = unat off + unat r"
    using u64_bound [of len] by (simp add: unat_saturating_add)
qed

definition padding :: "bool \<Rightarrow> usize \<Rightarrow> usize \<Rightarrow> nat" where
  "padding pads chunk r = (if pads then unat (if r = chunk then chunk else align_up r ALIGN) - unat r else 0)"

text \<open>One turn of the loop.\<close>

lemma upload_loop_step:
  assumes "smooth env" "off < len" "chunk \<noteq> 0" "unat start_off + unat len < 2 ^ 64"
    and "src_read_exact (unat (min chunk (len - off))) s = Inr (d, s')"
    and "direct \<and> \<not> truncates \<longrightarrow> min chunk (len - off) mod ALIGN = 0"
  shows "upload_loop env direct truncates start_off chunk len s off k False ws =
    upload_loop env direct truncates start_off chunk len s' (saturating_add off (min chunk (len - off))) (Suc k) False
      (ws @ [(start_off + off, d @ replicate (padding (direct \<and> truncates) chunk (min chunk (len - off))) CHR 0x00)])"
proof -
  have "\<not> (unat start_off + unat off \<ge> 2 ^ 64)" "\<not> we_cancelled env k" "we_write env k = Accepted"
    using assms(1,2,4) by (simp_all add: smooth_def word_less_nat_alt)
  with assms show ?thesis
    by (subst upload_loop.simps) (auto simp: Let_def padding_def)
qed

lemma mod_ALIGN_iff: "r mod ALIGN = 0 \<longleftrightarrow> unat r mod 4096 = 0"
proof -
  have "unat (r mod ALIGN) = unat r mod 4096"
    by (simp add: unat_mod_distrib)
  then show ?thesis
    by (metis unat_eq_0)
qed

lemma upload_loop_done: "\<not> off < len \<Longrightarrow> upload_loop env direct truncates start_off chunk len s off k tx ws = Inr (s, ws)"
  by (simp add: upload_loop.simps)

lemma upload_loop_smooth:
  assumes env: "smooth env" and chunk: "chunk \<noteq> 0" and fits: "unat start_off + unat len < 2 ^ 64"
    and aligned: "direct \<and> \<not> truncates \<longrightarrow> unat chunk mod 4096 = 0 \<and> unat len mod 4096 = 0"
  shows "off \<le> len \<Longrightarrow> (direct \<and> \<not> truncates \<longrightarrow> unat off mod 4096 = 0) \<Longrightarrow> unat len - unat off \<le> length (src_payload s) \<Longrightarrow>
    laid_out (unat start_off) ws b \<Longrightarrow> length b = unat off \<Longrightarrow> src_clean s \<Longrightarrow>
    \<exists>s' ws' pad. upload_loop env direct truncates start_off chunk len s off k False ws = Inr (s', ws') \<and>
      laid_out (unat start_off) ws' (b @ take (unat len - unat off) (src_payload s) @ replicate pad CHR 0x00) \<and>
      (pad \<noteq> 0 \<longrightarrow> direct \<and> truncates) \<and> src_payload s' = drop (unat len - unat off) (src_payload s) \<and> src_clean s' \<and>
      ((\<exists>p. s' = Plain p) \<longrightarrow> (\<exists>p. s = Plain p))"
proof (induction "unat len - unat off" arbitrary: off s k ws b rule: less_induct)
  case less
  show ?case
  proof (cases "off < len")
    case False
    with less.prems(1) have "off = len" by simp
    with less.prems show ?thesis
      by (auto simp: upload_loop_done intro!: exI [of _ 0])
  next
    case True
    define r where "r = min chunk (len - off)"
    define off' where "off' = saturating_add off r"
    define pd where "pd = padding (direct \<and> truncates) chunk r"
    note r = chunk_nat [OF True chunk, folded r_def, folded off'_def]
    have "unat r \<le> length (src_payload s)"
      using r(1) less.prems(3) by linarith
    from source.read_enough [OF this] obtain s1 where
      s1: "src_read_exact (unat r) s = Inr (take (unat r) (src_payload s), s1)" "src_payload s1 = drop (unat r) (src_payload s)"
      by blast
    have clean: "src_clean s1" "(\<exists>p. s1 = Plain p) \<longrightarrow> (\<exists>p. s = Plain p)"
      using src_read_clean [OF s1(1) less.prems(6)] s1(1) by (auto simp: src_read_exact_def split: src.splits sum.splits)
    have al: "direct \<and> \<not> truncates \<longrightarrow> unat r mod 4096 = 0"
      using aligned less.prems(2) r(1) by (auto simp: min_def mod_diff_eq dvd_diff_nat mod_eq_0_iff_dvd)
    then have "direct \<and> \<not> truncates \<longrightarrow> r mod ALIGN = 0"
      by (simp add: mod_ALIGN_iff)
    note step = upload_loop_step [OF env True chunk fits s1(1) [unfolded r_def] this [unfolded r_def], folded r_def, folded off'_def pd_def]
    define d where "d = take (unat r) (src_payload s)"
    have len_d: "length d = unat r"
      using r(1) less.prems(3) by (simp add: d_def)
    have so: "unat (start_off + off) = unat start_off + unat off"
      using fits True by (simp add: unat_word_ariths word_less_nat_alt)
    have lay: "laid_out (unat start_off) (ws @ [(start_off + off, d @ replicate pd CHR 0x00)]) (b @ d @ replicate pd CHR 0x00)"
      using laid_out_snoc [OF less.prems(4), of "start_off + off" "d @ replicate pd CHR 0x00"] so less.prems(5) len_d r(2) by fastforce
    have split: "take (unat len - unat off) (src_payload s) = d @ take (unat len - unat off') (src_payload s1)"
      "drop (unat len - unat off) (src_payload s) = drop (unat len - unat off') (src_payload s1)"
      using r(3,4) by (simp_all add: d_def s1(2) take_add [symmetric])
    show ?thesis
    proof (cases "off' < len")
      case more: True
      then have "pd = 0"
        using r by (auto simp: pd_def padding_def word_less_nat_alt min_def word_unat_eq_iff split: if_splits)
      have "\<exists>s' ws' pad. upload_loop env direct truncates start_off chunk len s1 off' (Suc k) False (ws @ [(start_off + off, d)]) = Inr (s', ws') \<and>
          laid_out (unat start_off) ws' ((b @ d) @ take (unat len - unat off') (src_payload s1) @ replicate pad CHR 0x00) \<and>
          (pad \<noteq> 0 \<longrightarrow> direct \<and> truncates) \<and> src_payload s' = drop (unat len - unat off') (src_payload s1) \<and> src_clean s' \<and>
          ((\<exists>p. s' = Plain p) \<longrightarrow> (\<exists>p. s1 = Plain p))"
      proof (rule less.hyps)
        show "unat len - unat off' < unat len - unat off" "off' \<le> len" "unat len - unat off' \<le> length (src_payload s1)"
          "length (b @ d) = unat off'"
          using r more less.prems(3,5) len_d s1(2) by (simp_all add: word_order_nat)
        show "direct \<and> \<not> truncates \<longrightarrow> unat off' mod 4096 = 0"
          using al less.prems(2) r(3) by (simp add: mod_add_eq [symmetric])
        show "laid_out (unat start_off) (ws @ [(start_off + off, d)]) (b @ d)" "src_clean s1"
          using lay \<open>pd = 0\<close> clean by simp_all
      qed
      then show ?thesis
        using step \<open>pd = 0\<close> clean(2) unfolding split d_def [symmetric] by auto
    next
      case False
      then have "unat len - unat off' = 0"
        by (simp add: word_less_nat_alt)
      then show ?thesis
        using step lay clean s1(2) unfolding split d_def [symmetric]
        by (auto simp: upload_loop_done [OF False] intro!: exI [of _ pd]) (simp_all add: pd_def padding_def split: if_splits)
    qed
  qed
qed

definition body_payload :: "bool \<Rightarrow> frames \<Rightarrow> str" where
  "body_payload aws body = (if aws then dec_payload (decoder_new body) else stream_bytes body)"

lemma new_src_payload: "src_payload (new_src aws body) = body_payload aws body"
  by (simp add: src_payload_def new_src_def body_payload_def plain_payload_def plain_new_def raw_bytes_def)

lemma new_src_clean: "no_errors body \<Longrightarrow> src_clean (new_src aws body)"
  by (simp add: src_clean_def new_src_def clean_def plain_new_def decoder_new_def)

text \<open>The file system grants what it is asked for, and the ring performs every write it accepted.\<close>

definition env_ok :: "write_env \<Rightarrow> bool" where
  "env_ok env \<longleftrightarrow>
     we_mkdirs env = Inr () \<and> we_open env = Inr () \<and> (\<forall>n. we_fallocate env 0 n = None) \<and>
     (\<forall>ws. mset (we_order env ws) = mset ws) \<and> we_wait env = Inr ()"

text \<open>A whole body: no error in the stream, and, if it is plain, no more bytes than announced.\<close>

definition body_ok :: "bool \<Rightarrow> frames \<Rightarrow> u64 \<Rightarrow> bool" where
  "body_ok aws body len \<longleftrightarrow>
     no_errors body \<and> unat len \<le> length (body_payload aws body) \<and> (\<not> aws \<longrightarrow> length (stream_bytes body) = unat len)"

lemma upload_loop_stores:
  assumes "smooth env" "body_ok aws body len" "chunk \<noteq> 0" "unat start_off + unat len < 2 ^ 64"
    and "direct \<and> \<not> truncates \<longrightarrow> unat chunk mod 4096 = 0 \<and> unat len mod 4096 = 0"
  shows "\<exists>s ws pad. upload_loop env direct truncates start_off chunk len (new_src aws body) 0 0 False [] = Inr (s, ws) \<and>
    laid_out (unat start_off) ws (take (unat len) (body_payload aws body) @ replicate pad CHR 0x00) \<and>
    (pad \<noteq> 0 \<longrightarrow> direct \<and> truncates) \<and> src_finish s = Inr ()"
proof -
  have body: "no_errors body" "unat len \<le> length (body_payload aws body)" "\<not> aws \<longrightarrow> length (stream_bytes body) = unat len"
    using assms(2) by (simp_all add: body_ok_def)
  from upload_loop_smooth [OF assms(1,3-5), of 0 "new_src aws body" "[]" "[]" 0]
  obtain s ws pad where loop: "upload_loop env direct truncates start_off chunk len (new_src aws body) 0 0 False [] = Inr (s, ws)"
    "laid_out (unat start_off) ws (take (unat len) (body_payload aws body) @ replicate pad CHR 0x00)"
    "pad \<noteq> 0 \<longrightarrow> direct \<and> truncates" "src_payload s = drop (unat len) (body_payload aws body)" "src_clean s"
    "(\<exists>p. s = Plain p) \<longrightarrow> (\<exists>p. new_src aws body = Plain p)"
    using body new_src_clean [of body aws] by (auto simp: new_src_payload)
  have "src_finish s = Inr ()"
    using loop(4-6) body(3) by (intro src_finish_clean) (auto simp: new_src_def body_payload_def split: if_splits)
  with loop show ?thesis
    by blast
qed

lemma ftruncate_write: "length p = n \<Longrightarrow> p \<noteq> [] \<Longrightarrow> ftruncate_file (write_at 0 (p @ q) c) n = p"
  by (simp add: ftruncate_file_def write_at_def)

lemma prealloc_ok:
  assumes "\<forall>n. fa 0 n = None"
  shows "\<exists>c. try_preallocate_range fa 0 n [] = Inr c"
  using assms u64_bound [of n] by (simp add: try_preallocate_range_def)

lemma env_okD:
  assumes "env_ok env"
  shows "we_mkdirs env = Inr ()" "we_open env = Inr ()" "\<forall>n. we_fallocate env 0 n = None"
    "mset (we_order env ws) = mset ws" "we_wait env = Inr ()"
  using assms by (simp_all add: env_ok_def)

lemma upload_path:
  assumes "smooth env" "env_ok env" "body_ok aws body len" "cfg_chunk_size cfg \<noteq> 0"
  shows "write_object_body env body Path len aws cfg = Inr (take (unat len) (body_payload aws body))"
proof -
  note env = env_okD [OF assms(2)]
  let ?p = "take (unat len) (body_payload aws body)"
  have len_p: "length ?p = unat len"
    using assms(3) by (simp add: body_ok_def)
  define dp where "dp = (cfg_direct_io cfg \<and> len > cfg_chunk_size cfg \<and> cfg_chunk_size cfg mod ALIGN = 0)"
  obtain c0 where c0: "try_preallocate_range (we_fallocate env) 0 (if dp then align_up len ALIGN else len) [] = Inr c0"
    using prealloc_ok [of "we_fallocate env"] env(3) by blast
  show ?thesis
  proof (cases "len = 0")
    case True
    then show ?thesis
      using c0 by (simp add: write_object_body_def dp_def env ftruncate_file_def)
  next
    case False
    have "unat (0 :: u64) + unat len < 2 ^ 64"
      using u64_bound [of len] by simp
    from upload_loop_stores [OF assms(1,3,4) this, of dp True] obtain s ws pad where
      loop: "upload_loop env dp True 0 (cfg_chunk_size cfg) len (new_src aws body) 0 0 False [] = Inr (s, ws)"
      "laid_out (unat (0 :: u64)) ws (?p @ replicate pad CHR 0x00)" "src_finish s = Inr ()"
      by auto
    have "apply_writes (we_order env ws) c0 = write_at 0 (?p @ replicate pad CHR 0x00) c0"
      using apply_any_order [OF loop(2) env(4)] by simp
    moreover have "?p \<noteq> []"
      using len_p False by (auto simp flip: unat_eq_0)
    ultimately show ?thesis
      using False assms(4) loop(1,3) c0 ftruncate_write [OF len_p]
      by (simp add: write_object_body_def dp_def [symmetric] conj_assoc env Let_def)
  qed
qed

lemma upload_file:
  assumes "smooth env" "env_ok env" "body_ok aws body len" "cfg_chunk_size cfg \<noteq> 0" "unat start_off + unat len < 2 ^ 64"
  shows "write_object_body env body (File c start_off) len aws cfg =
      Inr (write_at (unat start_off) (take (unat len) (body_payload aws body)) c)"
proof (cases "len = 0")
  case True
  then show ?thesis
    by (simp add: write_object_body_def write_at_def)
next
  case False
  note env = env_okD [OF assms(2)]
  define df where "df = (direct_io_ok_for_aligned_range start_off len cfg \<and> cfg_chunk_size cfg mod ALIGN = 0)"
  have "df \<and> \<not> False \<longrightarrow> unat (cfg_chunk_size cfg) mod 4096 = 0 \<and> unat len mod 4096 = 0"
    using mod_ALIGN_iff by (auto simp: df_def direct_io_ok_for_aligned_range_def split: if_splits)
  from upload_loop_stores [OF assms(1,3,4,5) this] obtain s ws where
    loop: "upload_loop env df False start_off (cfg_chunk_size cfg) len (new_src aws body) 0 0 False [] = Inr (s, ws)"
    "laid_out (unat start_off) ws (take (unat len) (body_payload aws body))" "src_finish s = Inr ()"
    by auto
  then show ?thesis
    using False assms(4) apply_any_order [OF loop(2) env(4)]
    by (simp add: write_object_body_def df_def [symmetric] env Let_def)
qed

text \<open>Whatever the ring does, the loop reads the whole payload.\<close>

lemma upload_loop_inv:
  assumes "upload_loop env direct truncates start_off chunk len s off k tx ws = Inr r" "off < len" "chunk \<noteq> 0"
  obtains b s' tx' ws' where "src_read_exact (unat (min chunk (len - off))) s = Inr (b, s')"
    "upload_loop env direct truncates start_off chunk len s' (saturating_add off (min chunk (len - off))) (Suc k) tx' ws' = Inr r"
  using assms
  by (subst (asm) upload_loop.simps) (auto simp: Let_def split: if_splits sum.splits upload_answer.splits)

lemma upload_loop_enough:
  "upload_loop env direct truncates start_off chunk len s off k tx ws = Inr r \<Longrightarrow> chunk \<noteq> 0 \<Longrightarrow>
   unat len - unat off \<le> length (src_payload s)"
proof (induction "unat len - unat off" arbitrary: off s k tx ws rule: less_induct)
  case less
  show ?case
  proof (cases "off < len")
    case True
    define n where "n = min chunk (len - off)"
    note nat = chunk_nat [OF True less.prems(2), folded n_def]
    from upload_loop_inv [OF less.prems(1) True less.prems(2), folded n_def] obtain b s' tx' ws' where
      b: "src_read_exact (unat n) s = Inr (b, s')"
      "upload_loop env direct truncates start_off chunk len s' (saturating_add off n) (Suc k) tx' ws' = Inr r"
      by blast
    have enough: "unat n \<le> length (src_payload s)"
      using b(1) source.read_short [of s "unat n"] by (cases "length (src_payload s) < unat n") auto
    have "unat len - unat (saturating_add off n) \<le> length (src_payload s')"
      using less.hyps [OF _ b(2) less.prems(2)] nat by linarith
    moreover have "src_payload s' = drop (unat n) (src_payload s)"
      using source.read_enough [OF enough] b(1) by auto
    ultimately have "unat len - unat (saturating_add off n) \<le> length (src_payload s) - unat n"
      by simp
    then show ?thesis
      unfolding nat(3) using nat(4) enough by linarith
  qed (simp add: word_less_nat_alt)
qed

lemma upload_payload:
  assumes "write_object_body env body dest len aws cfg = Inr c"
  shows "unat len \<le> length (body_payload aws body)"
proof (cases "len = 0")
  case False
  have "cfg_chunk_size cfg \<noteq> 0"
    using assms False by (auto simp: write_object_body_def Let_def rbind_Inr_iff split: prod.splits)
  moreover have "\<exists>direct truncates start_off r. upload_loop env direct truncates start_off (cfg_chunk_size cfg) len
      (new_src aws body) 0 0 False [] = Inr r"
    using assms False by (simp add: write_object_body_def Let_def rbind_Inr_iff split: prod.splits if_splits) blast+
  ultimately obtain direct truncates start_off r where
    "cfg_chunk_size cfg \<noteq> 0" "upload_loop env direct truncates start_off (cfg_chunk_size cfg) len (new_src aws body) 0 0 False [] = Inr r"
    by blast
  from upload_loop_enough [OF this(2,1)] show ?thesis
    by (simp add: new_src_payload)
qed simp

text \<open>A cancelled ring: every chunk is read and dropped.\<close>

lemma upload_loop_cancelled:
  assumes env: "\<And>k. we_cancelled env k" and chunk: "chunk \<noteq> 0"
  shows "off \<le> len \<Longrightarrow> unat len - unat off \<le> length (src_payload s) \<Longrightarrow> src_clean s \<Longrightarrow>
    \<exists>s'. upload_loop env direct True start_off chunk len s off k tx ws = Inr (s', ws) \<and>
      src_payload s' = drop (unat len - unat off) (src_payload s) \<and> src_clean s' \<and> ((\<exists>p. s' = Plain p) \<longrightarrow> (\<exists>p. s = Plain p))"
proof (induction "unat len - unat off" arbitrary: off s k rule: less_induct)
  case less
  show ?case
  proof (cases "off < len")
    case False
    with less.prems(1) have "off = len" by simp
    with less.prems show ?thesis
      by (auto simp: upload_loop_done)
  next
    case True
    define r where "r = min chunk (len - off)"
    define off' where "off' = saturating_add off r"
    note r = chunk_nat [OF True chunk, folded r_def, folded off'_def]
    have "unat r \<le> length (src_payload s)"
      using r(1) less.prems(2) by linarith
    from source.read_enough [OF this] obtain s1 where
      s1: "src_read_exact (unat r) s = Inr (take (unat r) (src_payload s), s1)" "src_payload s1 = drop (unat r) (src_payload s)"
      by blast
    have clean: "src_clean s1" "(\<exists>p. s1 = Plain p) \<longrightarrow> (\<exists>p. s = Plain p)"
      using src_read_clean [OF s1(1) less.prems(3)] s1(1) by (auto simp: src_read_exact_def split: src.splits sum.splits)
    have step: "upload_loop env direct True start_off chunk len s off k tx ws =
        upload_loop env direct True start_off chunk len s1 off' (Suc k) tx ws"
      using True chunk s1(1) env by (subst upload_loop.simps) (simp add: Let_def r_def off'_def)
    have "\<exists>s'. upload_loop env direct True start_off chunk len s1 off' (Suc k) tx ws = Inr (s', ws) \<and>
        src_payload s' = drop (unat len - unat off') (src_payload s1) \<and> src_clean s' \<and> ((\<exists>p. s' = Plain p) \<longrightarrow> (\<exists>p. s1 = Plain p))"
      by (rule less.hyps) (use r(2-4) less.prems(2) s1(2) clean(1) in \<open>simp_all add: word_order_nat\<close>)
    with step clean(2) show ?thesis
      using r(3,4) s1(2) by auto
  qed
qed

lemma upload_cancelled:
  assumes "env_ok env" "\<And>k. we_cancelled env k" "body_ok aws body len" "cfg_chunk_size cfg \<noteq> 0"
  shows "write_object_body env body Path len aws cfg = Inr (replicate (unat len) CHR 0x00)"
proof -
  note env = env_okD [OF assms(1)]
  have body: "no_errors body" "unat len \<le> length (body_payload aws body)" "\<not> aws \<longrightarrow> length (stream_bytes body) = unat len"
    using assms(3) by (simp_all add: body_ok_def)
  define dp where "dp = (cfg_direct_io cfg \<and> len > cfg_chunk_size cfg \<and> cfg_chunk_size cfg mod ALIGN = 0)"
  let ?n = "if dp then align_up len ALIGN else len"
  have "\<exists>m. try_preallocate_range (we_fallocate env) 0 ?n [] = Inr (replicate m CHR 0x00)"
    using env(3) u64_bound [of ?n] by (auto simp: try_preallocate_range_def ftruncate_file_def intro: exI [of _ 0])
  then obtain m where c0: "try_preallocate_range (we_fallocate env) 0 ?n [] = Inr (replicate m CHR 0x00)"
    by blast
  have "we_order env [] = []"
    using env(4) [of "[]"] by simp
  moreover have "ftruncate_file (replicate m CHR 0x00) n = replicate n CHR 0x00" for n
    by (simp add: ftruncate_file_def replicate_add [symmetric])
  moreover obtain s where "upload_loop env dp True 0 (cfg_chunk_size cfg) len (new_src aws body) 0 0 False [] = Inr (s, [])" "src_finish s = Inr ()"
  proof -
    from upload_loop_cancelled [OF assms(2,4), where off = 0 and s = "new_src aws body" and k = 0 and tx = False and ws = "[]"
        and len = len and start_off = 0 and direct = dp] body new_src_clean [of body aws]
    obtain s where s: "upload_loop env dp True 0 (cfg_chunk_size cfg) len (new_src aws body) 0 0 False [] = Inr (s, [])"
      "src_payload s = drop (unat len) (body_payload aws body)" "src_clean s" "(\<exists>p. s = Plain p) \<longrightarrow> (\<exists>p. new_src aws body = Plain p)"
      by (auto simp: new_src_payload)
    have "src_finish s = Inr ()"
      using s(2-4) body(3) by (intro src_finish_clean) (auto simp: new_src_def body_payload_def split: if_splits)
    with s(1) that show thesis by blast
  qed
  ultimately show ?thesis
    using assms(4) c0 by (simp add: write_object_body_def dp_def [symmetric] conj_assoc env Let_def)
qed

text \<open>How the ring gets there: a system call of the I/O thread fails once, by a signal.\<close>

definition dead_run :: "action list" where
  "dead_run = [New_Sender, Begin (example_write 0), Send (example_write 0)] @ replicate 6 (Thread None) @
     [Thread (Some ''EINTR''), New_Sender, Close 1]"

lemma dead_run_ends:
  "case run dead_run (uring_spawn 1 1) of
     None \<Rightarrow> False
   | Some st \<Rightarrow> ur_cancel st \<and> length (ur_sessions st) = 2 \<and> se_result (ur_sessions st ! 1) = Some (Inr ())"
  by code_simp



definition example_write_env :: write_env where
  "example_write_env = \<lparr>we_mkdirs = Inr (), we_open = Inr (), we_fallocate = \<lambda>_ _. None, we_cancelled = \<lambda>_. False,
     we_write = \<lambda>_. Accepted, we_order = rev, we_wait = Inr ()\<rparr>"

definition example_body :: frames where
  "example_body = [Inr ''hel'', Inr [], Inr ''lo'']"

lemma example_env_ok: "env_ok example_write_env" "smooth example_write_env" "env_ok (example_write_env\<lparr>we_cancelled := \<lambda>_. True\<rparr>)"
  by (simp_all add: env_ok_def smooth_def example_write_env_def)

lemma example_body_ok: "body_ok False example_body 5" "body_payload False example_body = ''hello''"
  by (simp_all add: body_ok_def body_payload_def example_body_def no_errors_def)


text \<open>
  A body that is shorter than announced is never stored: whatever the file system and the ring
  do, an upload that succeeds has read all of its announced bytes.
\<close>
theorem short_body_rejected:
  assumes "length (body_payload aws body) < unat len"
  shows "\<exists>e. write_object_body env body dest len aws cfg = Inl e"
  using assms upload_payload [of env body dest len aws cfg] by (cases "write_object_body env body dest len aws cfg") auto

theorem short_body_rejected_witness:
  "\<exists>e. write_object_body example_write_env example_body Path 6 False \<lparr>cfg_chunk_size = 2, cfg_inflight = 4, cfg_direct_io = False\<rparr> = Inl e"
  by (rule short_body_rejected) (simp add: example_body_ok(2))

text \<open>
  C30. After a fatal failure of the ring an upload that stores nothing reports success. A signal that
  interrupts a system call of the I/O thread cancels the ring for good. From then on a sender
  refuses every write without recording an error, and its \<open>wait\<close> answers \<open>Ok\<close>. \<open>write_object_body\<close>
  then drops every chunk and returns \<open>Ok\<close>; the object has the announced length and holds zeros.
\<close>
theorem cancelled_ring_upload_lost:
  assumes "env_ok env" "\<And>k. we_cancelled env k" "body_ok aws body len" "cfg_chunk_size cfg \<noteq> 0"
  shows "(\<exists>st. reachable st \<and> se_result (ur_sessions st ! 1) = Some (Inr ()) \<and>
      (\<forall>w. op_sess w = 1 \<longrightarrow> begin_op w st = Inl ''uring sender cancelled'')) \<and>
    write_object_body env body Path len aws cfg = Inr (replicate (unat len) CHR 0x00)"
proof
  obtain st where "run dead_run (uring_spawn 1 1) = Some st" "ur_cancel st" "se_result (ur_sessions st ! 1) = Some (Inr ())"
    using dead_run_ends by (cases "run dead_run (uring_spawn 1 1)") simp_all
  then show "\<exists>st. reachable st \<and> se_result (ur_sessions st ! 1) = Some (Inr ()) \<and>
      (\<forall>w. op_sess w = 1 \<longrightarrow> begin_op w st = Inl ''uring sender cancelled'')"
    using example_reachable by (auto simp: begin_op_def is_cancelled_def)
  show "write_object_body env body Path len aws cfg = Inr (replicate (unat len) CHR 0x00)"
    by (rule upload_cancelled [OF assms])
qed

theorem cancelled_ring_upload_lost_witness:
  "write_object_body (example_write_env\<lparr>we_cancelled := \<lambda>_. True\<rparr>) example_body Path 5 False
     \<lparr>cfg_chunk_size = 2, cfg_inflight = 4, cfg_direct_io = False\<rparr> = Inr (replicate 5 CHR 0x00)"
  using cancelled_ring_upload_lost [OF example_env_ok(3) _ example_body_ok(1),
      of "\<lparr>cfg_chunk_size = 2, cfg_inflight = 4, cfg_direct_io = False\<rparr>"] by simp

end
