(* ===== verification/Object_Copy.thy ===== *)
theory Object_Copy
  imports Object_Write
begin

text \<open>
  Copies of files through the ring: \<open>copy_file_to_file\<close> of
  \<open>crates/s32p-gateway/src/streaming.rs\<close>, which copies a whole object, and \<open>copy_range_to_range\<close> of
  \<open>crates/s32p-gateway/src/multipart.rs\<close>, which copies a range into an open file.
\<close>

section \<open>Whole objects\<close>

text \<open>
  The environment of a copy: directories, the two files, preallocation; the cancellation as seen
  before the \<open>k\<close>-th write and the answer to it; the order in which the ring performs the writes;
  and what \<open>wait\<close> returns.
\<close>

record copy_env =
  ce_mkdirs :: "str + unit"
  ce_src :: "str + file_reader"
  ce_dst :: "str + unit"
  ce_fallocate :: "u64 \<Rightarrow> u64 \<Rightarrow> int option"
  ce_cancelled :: "nat \<Rightarrow> bool"
  ce_write :: "nat \<Rightarrow> str + unit"
  ce_order :: "(u64 \<times> str) list \<Rightarrow> (u64 \<times> str) list"
  ce_wait :: "str + unit"

definition read_for_copy :: "file_reader \<Rightarrow> u64 \<Rightarrow> usize \<Rightarrow> usize \<Rightarrow> usize \<Rightarrow> str + u64 \<times> str" where
  "read_for_copy reader off read_len min_data_len write_len =
     (case reader off read_len of
        Inl e \<Rightarrow> Inl e
      | Inr b \<Rightarrow>
          if length b < unat min_data_len
          then Inl (''unexpected EOF while copying at off='' @ show_nat (unat off) @ '': read '' @ show_nat (length b) @
                 '', need '' @ show_nat (unat min_data_len))
          else Inr (off, take (unat write_len) (b @ replicate (unat write_len - length b) CHR 0x00)))"

definition plan :: "u64 \<Rightarrow> u64 \<Rightarrow> usize \<Rightarrow> bool \<Rightarrow> usize \<times> usize" where
  "plan off end_off chunk direct =
     (let real_len = min chunk (end_off - off)
      in (real_len, if direct then (if real_len = chunk then chunk else align_up real_len ALIGN) else real_len))"

fun copy_fill :: "u64 \<Rightarrow> usize \<Rightarrow> bool \<Rightarrow> nat \<Rightarrow> u64 \<Rightarrow> (u64 \<times> usize \<times> usize) list \<Rightarrow> (u64 \<times> usize \<times> usize) list \<times> u64" where
  "copy_fill scheduled chunk direct 0 next_off futs = (futs, next_off)"
| "copy_fill scheduled chunk direct (Suc k) next_off futs =
     (if next_off \<ge> scheduled then (futs, next_off)
      else copy_fill scheduled chunk direct k (next_off + fst (plan next_off scheduled chunk direct))
        (futs @ [(next_off, plan next_off scheduled chunk direct)]))"

text \<open>The loop: the oldest read is awaited and written, then the next is submitted. The first error ends it.\<close>

lemma plan_real: "fst (plan off e chunk direct) = min chunk (e - off)"
  by (simp add: plan_def Let_def)

lemma copy_advance:
  assumes "off < (e :: u64)" "chunk \<noteq> 0"
  shows "unat (off + min chunk (e - off)) = unat off + unat (min chunk (e - off))"
  using chunk_nat [OF assms] u64_bound [of e] by (simp add: unat_word_ariths)

lemma copy_less:
  assumes "off < (e :: u64)" "chunk \<noteq> 0"
  shows "unat e - unat (off + min chunk (e - off)) < unat e - unat off"
  using chunk_nat(2,4) [OF assms] unfolding copy_advance [OF assms] by linarith

function copy_pump ::
  "copy_env \<Rightarrow> file_reader \<Rightarrow> u64 \<Rightarrow> usize \<Rightarrow> bool \<Rightarrow> (u64 \<times> usize \<times> usize) list \<Rightarrow> u64 \<Rightarrow> nat \<Rightarrow> (u64 \<times> str) list \<Rightarrow>
   str option \<times> nat \<times> (u64 \<times> str) list" where
  "copy_pump env reader scheduled chunk direct [] next_off k ws = (None, k, ws)"
| "copy_pump env reader scheduled chunk direct ((off, real_len, write_len) # futs) next_off k ws =
     (case read_for_copy reader off write_len real_len write_len of
        Inl e \<Rightarrow> (Some e, k, ws)
      | Inr w \<Rightarrow>
          if ce_cancelled env k then (Some ''copy cancelled'', k, ws)
          else (case ce_write env k of
              Inl e \<Rightarrow> (Some e, k, ws)
            | Inr _ \<Rightarrow>
                if next_off < scheduled \<and> chunk \<noteq> 0 then
                  copy_pump env reader scheduled chunk direct (futs @ [(next_off, plan next_off scheduled chunk direct)])
                    (next_off + fst (plan next_off scheduled chunk direct)) (Suc k) (ws @ [w])
                else copy_pump env reader scheduled chunk direct futs next_off (Suc k) (ws @ [w])))"
  by pat_completeness auto
termination
  by (relation "measure (\<lambda>(env, reader, e, chunk, direct, futs, off, k, ws). (unat e - unat off) + length futs)")
     (auto simp: plan_real copy_less)

text \<open>The tail of a file whose size is not aligned: one padded write. \<open>copy_from_slice\<close> panics on a short tail.\<close>

definition copy_tail :: "copy_env \<Rightarrow> usize \<Rightarrow> u64 \<Rightarrow> u64 \<Rightarrow> nat \<Rightarrow> str + (str option \<times> (u64 \<times> str) list)" where
  "copy_tail env chunk tail_off file_size k =
     (let tail_len = file_size - tail_off in
      (case read_tail_bytes chunk (ce_src env) tail_off tail_len of
         Inl e \<Rightarrow> Inl e
       | Inr tail \<Rightarrow>
           if length tail \<noteq> unat tail_len then Inl ''copy_from_slice: source slice length does not match destination slice length''
           else (case ce_write env k of
               Inl e \<Rightarrow> Inr (Some e, [])
             | Inr _ \<Rightarrow> Inr (None, [(tail_off, tail @ replicate (unat (align_up tail_len ALIGN) - unat tail_len) CHR 0x00)]))))"

text \<open>The aligned prefix through the ring; then the end, which waits for the ring and cuts the file to its size.\<close>

definition copy_prefix :: "copy_env \<Rightarrow> file_reader \<Rightarrow> u64 \<Rightarrow> usize \<Rightarrow> bool \<Rightarrow> usize \<Rightarrow> str option \<times> nat \<times> (u64 \<times> str) list" where
  "copy_prefix env reader scheduled chunk direct inflight_cfg =
     (let needed = (if scheduled = 0 then 0 else (scheduled + chunk - 1) div chunk);
          allowed = min inflight_cfg (max needed 1)
      in if scheduled > 0 then
           (let (futs, next_off) = copy_fill scheduled chunk direct (unat allowed) 0 []
            in copy_pump env reader scheduled chunk direct futs next_off 0 [])
         else (None, 0, []))"

definition copy_end :: "copy_env \<Rightarrow> str \<Rightarrow> u64 \<Rightarrow> str option \<Rightarrow> (u64 \<times> str) list \<Rightarrow> str + str" where
  "copy_end env c file_size had_err ws =
     (case had_err of
        Some e \<Rightarrow> Inl e
      | None \<Rightarrow> rbind (ce_wait env) (\<lambda>_. Inr (ftruncate_file (apply_writes (ce_order env ws) c) (unat file_size))))"

definition copy_body :: "copy_env \<Rightarrow> file_reader \<Rightarrow> str \<Rightarrow> u64 \<Rightarrow> u64 \<Rightarrow> usize \<Rightarrow> bool \<Rightarrow> usize \<Rightarrow> str + str" where
  "copy_body env reader c file_size aligned_size chunk direct inflight_cfg =
     (let (had_err, k, ws) = copy_prefix env reader aligned_size chunk direct inflight_cfg
      in rbind (if had_err = None \<and> direct \<and> aligned_size < file_size then copy_tail env chunk aligned_size file_size k
                else Inr (had_err, []))
           (\<lambda>(had_err', ws'). copy_end env c file_size had_err' (ws @ ws')))"

definition copy_file_to_file :: "copy_env \<Rightarrow> u64 \<Rightarrow> stream_cfg \<Rightarrow> str + str" where
  "copy_file_to_file env file_size cfg =
     (let chunk = cfg_chunk_size cfg;
          direct = (cfg_direct_io cfg \<and> file_size > chunk \<and> chunk mod ALIGN = 0);
          aligned_size = (if direct then align_down file_size ALIGN else file_size)
      in rbind (ce_mkdirs env) (\<lambda>_. rbind (ce_src env) (\<lambda>reader. rbind (ce_dst env) (\<lambda>_.
         rbind (try_preallocate_range (ce_fallocate env) 0 (if direct then align_up file_size ALIGN else file_size) []) (\<lambda>c.
           if file_size = 0 then Inr (ftruncate_file c 0)
           else if aligned_size \<noteq> 0 \<and> chunk = 0 then Inl ''attempt to divide by zero''
           else copy_body env reader c file_size aligned_size chunk direct (max (cfg_inflight cfg) 1))))))"

text \<open>The reads in the window follow each other, and ask for what they need.\<close>

fun copy_tiled :: "nat \<Rightarrow> (u64 \<times> usize \<times> usize) list \<Rightarrow> nat \<Rightarrow> bool" where
  "copy_tiled lo [] hi \<longleftrightarrow> lo = hi"
| "copy_tiled lo ((off, real_len, write_len) # futs) hi \<longleftrightarrow>
     unat off = lo \<and> real_len \<noteq> 0 \<and> write_len = real_len \<and> copy_tiled (lo + unat real_len) futs hi"

lemma copy_tiled_snoc:
  "copy_tiled lo (futs @ [(off, r, w)]) hi \<longleftrightarrow> r \<noteq> 0 \<and> w = r \<and> copy_tiled lo futs (unat off) \<and> hi = unat off + unat r"
  by (induction lo futs hi rule: copy_tiled.induct) auto

lemma copy_tiled_le: "copy_tiled lo futs hi \<Longrightarrow> lo \<le> hi"
  by (induction lo futs hi rule: copy_tiled.induct) auto

definition copy_ok :: "u64 \<Rightarrow> usize \<Rightarrow> bool \<Rightarrow> u64 \<Rightarrow> bool" where
  "copy_ok e chunk direct off \<longleftrightarrow>
     chunk \<noteq> 0 \<and> off \<le> e \<and> (direct \<longrightarrow> unat chunk mod 4096 = 0 \<and> unat e mod 4096 = 0 \<and> unat off mod 4096 = 0)"

lemma align_up_aligned:
  assumes "unat x mod 4096 = 0"
  shows "align_up x ALIGN = x"
proof -
  obtain q where q: "unat x = 4096 * q"
    using assms by (metis mod_0_imp_dvd dvdE)
  then have "4096 * q < 4096 * 4503599627370496"
    using u64_bound [of x] by simp
  then have "q \<le> 4503599627370495"
    by simp
  then have fits: "unat x + (unat ALIGN - 1) < 18446744073709551616"
    using q by simp
  have "unat (align_up x ALIGN) = unat x"
    unfolding unat_align_up [OF ALIGN_simps(2) fits] using q by simp
  then show ?thesis
    by (simp only: word_unat_eq_iff)
qed

lemma plan_exact:
  assumes "copy_ok e chunk direct off" "off < e"
  defines "r \<equiv> min chunk (e - off)"
  shows "plan off e chunk direct = (r, r)" "r \<noteq> 0" "unat (off + r) = unat off + unat r" "copy_ok e chunk direct (off + r)"
proof -
  have chunk: "chunk \<noteq> 0"
    using assms(1) by (simp add: copy_ok_def)
  note n = chunk_nat [OF assms(2) chunk, folded r_def] and adv = copy_advance [OF assms(2) chunk, folded r_def]
  have al: "direct \<longrightarrow> unat r mod 4096 = 0"
    using assms(1) n(1) by (auto simp: copy_ok_def min_def mod_eq_0_iff_dvd dvd_diff_nat)
  then show "plan off e chunk direct = (r, r)"
    by (simp add: plan_def Let_def r_def [symmetric] align_up_aligned)
  show "r \<noteq> 0" "unat (off + r) = unat off + unat r"
    using n(2) adv by auto
  show "copy_ok e chunk direct (off + r)"
    using assms(1) al n(4) adv by (auto simp: copy_ok_def word_le_nat_alt mod_add_eq [symmetric])
qed

lemma copy_fill_tiled:
  assumes "copy_ok e chunk direct off" "copy_tiled lo futs (unat off)" "copy_fill e chunk direct k off futs = (futs', off')"
  shows "copy_tiled lo futs' (unat off') \<and> copy_ok e chunk direct off' \<and> (k \<noteq> 0 \<and> off < e \<or> futs \<noteq> [] \<longrightarrow> futs' \<noteq> [])"
  using assms
proof (induction k arbitrary: off futs)
  case (Suc k)
  show ?case
  proof (cases "off < e")
    case True
    then have "\<not> e \<le> off" by (simp only: not_le)
    moreover note pl = plan_exact [OF Suc.prems(1) True]
    ultimately have "copy_fill e chunk direct k (off + min chunk (e - off)) (futs @ [(off, min chunk (e - off), min chunk (e - off))]) = (futs', off')"
      using Suc.prems(3) by simp
    from Suc.IH [OF pl(4) _ this] Suc.prems(2) pl show ?thesis
      by (simp add: copy_tiled_snoc)
  next
    case False
    then have "e \<le> off" by (simp only: not_less)
    with Suc.prems show ?thesis by auto
  qed
qed simp

lemma read_for_copy_slice:
  assumes "unat off + unat r \<le> length src"
  shows "read_for_copy (reads src) off r r r = Inr (off, slice src (unat off) (unat off + unat r))"
  using assms by (simp add: read_for_copy_def reads_def slice_def)

text \<open>If the loop ends without an error, the writes accepted are the whole of what was scheduled.\<close>

lemma copy_pump_sound:
  assumes "copy_ok e chunk direct off" "copy_tiled lo futs (unat off)" "futs = [] \<Longrightarrow> off = e" "unat e \<le> length src"
    "laid_out 0 ws (take lo src)"
  shows "case copy_pump env (reads src) e chunk direct futs off k ws of
      (Some err, k', ws') \<Rightarrow> \<exists>j. ce_cancelled env j \<or> isl (ce_write env j)
    | (None, k', ws') \<Rightarrow> laid_out 0 ws' (take (unat e) src)"
  using assms
proof (induction env "reads src" e chunk direct futs off k ws arbitrary: lo rule: copy_pump.induct)
  case (2 env e chunk direct o1 r1 w1 futs off k ws)
  have tile: "unat o1 = lo" "r1 \<noteq> 0" "w1 = r1" "copy_tiled (lo + unat r1) futs (unat off)"
    using "2.prems"(2) by simp_all
  have le: "lo + unat r1 \<le> unat off" "unat off \<le> unat e"
    using copy_tiled_le [OF tile(4)] "2.prems"(1) by (simp_all add: copy_ok_def word_le_nat_alt)
  have r1: "0 < unat r1"
    using tile(2) by (simp add: unat_gt_0)
  let ?w = "(o1, slice src lo (lo + unat r1))"
  have read: "read_for_copy (reads src) o1 w1 r1 w1 = Inr ?w"
    using read_for_copy_slice [of o1 r1 src] tile le "2.prems"(4) by simp
  have d: "slice src lo (lo + unat r1) = take (unat r1) (drop lo src)"
    by (simp add: slice_def)
  then have "slice src lo (lo + unat r1) \<noteq> []" "take (lo + unat r1) src = take lo src @ slice src lo (lo + unat r1)"
    using r1 le "2.prems"(4) by (auto simp: take_add)
  then have lay: "laid_out 0 (ws @ [?w]) (take (lo + unat r1) src)"
    using laid_out_snoc [OF "2.prems"(5), of o1 "slice src lo (lo + unat r1)"] tile(1) le "2.prems"(4) by simp
  show ?case
  proof (cases "ce_cancelled env k \<or> isl (ce_write env k)")
    case True
    then show ?thesis
      using read by (cases "ce_write env k") (auto intro: exI [of _ k])
  next
    case False
    then obtain u where ok: "\<not> ce_cancelled env k" "ce_write env k = Inr u"
      by (cases "ce_write env k") auto
    show ?thesis
    proof (cases "off < e \<and> chunk \<noteq> 0")
      case True
      then have lt: "off < e" by simp
      note pl = plan_exact [OF "2.prems"(1) lt]
      have "copy_pump env (reads src) e chunk direct ((o1, r1, w1) # futs) off k ws =
          copy_pump env (reads src) e chunk direct (futs @ [(off, plan off e chunk direct)]) (off + fst (plan off e chunk direct)) (Suc k) (ws @ [?w])"
        using read ok True by simp
      moreover have "case copy_pump env (reads src) e chunk direct (futs @ [(off, plan off e chunk direct)])
            (off + fst (plan off e chunk direct)) (Suc k) (ws @ [?w]) of
          (Some err, k', ws') \<Rightarrow> \<exists>j. ce_cancelled env j \<or> isl (ce_write env j)
        | (None, k', ws') \<Rightarrow> laid_out 0 ws' (take (unat e) src)"
        by (rule "2.hyps"(1) [OF read ok True, where lo = "lo + unat r1"])
           (use pl tile lay "2.prems"(4) in \<open>simp_all add: copy_tiled_snoc\<close>)
      ultimately show ?thesis by simp
    next
      case no: False
      then have "off = e"
        using "2.prems"(1) by (auto simp: copy_ok_def)
      have "copy_pump env (reads src) e chunk direct ((o1, r1, w1) # futs) off k ws =
          copy_pump env (reads src) e chunk direct futs off (Suc k) (ws @ [?w])"
        by (simp only: copy_pump.simps read sum.case ok no if_False)
      moreover have "case copy_pump env (reads src) e chunk direct futs off (Suc k) (ws @ [?w]) of
          (Some err, k', ws') \<Rightarrow> \<exists>j. ce_cancelled env j \<or> isl (ce_write env j)
        | (None, k', ws') \<Rightarrow> laid_out 0 ws' (take (unat e) src)"
        by (rule "2.hyps"(2) [OF read ok no "2.prems"(1) tile(4) _ "2.prems"(4) lay]) (simp add: \<open>off = e\<close>)
      ultimately show ?thesis by simp
    qed
  qed
qed simp

lemma copy_aligned_part:
  assumes "copy_ok e chunk direct 0" "0 < e" "unat e \<le> length src" "1 \<le> allowed"
    and "copy_fill e chunk direct (unat allowed) 0 [] = (futs, off)"
  shows "case copy_pump env (reads src) e chunk direct futs off 0 [] of
      (Some err, k', ws') \<Rightarrow> \<exists>j. ce_cancelled env j \<or> isl (ce_write env j)
    | (None, k', ws') \<Rightarrow> laid_out 0 ws' (take (unat e) src)"
proof -
  have "unat allowed \<noteq> 0"
    using assms(4) by (simp add: word_le_nat_alt)
  with copy_fill_tiled [OF assms(1) _ assms(5), of 0] assms(2)
  have "copy_tiled 0 futs (unat off)" "copy_ok e chunk direct off" "futs \<noteq> []"
    by auto
  with assms(3) show ?thesis
    by (intro copy_pump_sound [where lo = 0]) simp_all
qed

lemma copy_tail_sound:
  assumes "ce_src env = Inr (reads src)" "unat file_size = length src" "tail_off < file_size" "file_size - tail_off \<le> chunk"
    and "laid_out 0 ws (take (unat tail_off) src)"
  shows "case copy_tail env chunk tail_off file_size k of
      Inl e \<Rightarrow> False
    | Inr (Some e, ws') \<Rightarrow> isl (ce_write env k)
    | Inr (None, ws') \<Rightarrow> \<exists>pad. laid_out 0 (ws @ ws') (src @ replicate pad CHR 0x00)"
proof -
  have tail: "read_tail_bytes chunk (ce_src env) tail_off (file_size - tail_off) = Inr (slice src (unat tail_off) (length src))"
    "slice src (unat tail_off) (length src) \<noteq> []"
    using read_tail_slice [of tail_off file_size src chunk] assms by simp_all
  have len: "unat (file_size - tail_off) = length src - unat tail_off" "unat tail_off < length src"
    using assms(2,3) by (simp_all add: unat_sub word_less_nat_alt word_le_nat_alt)
  have src: "take (unat tail_off) src @ slice src (unat tail_off) (length src) = src"
    by (simp add: slice_def)
  show ?thesis
  proof (cases "ce_write env k")
    case (Inl e)
    with tail len show ?thesis
      by (simp add: copy_tail_def Let_def)
  next
    case (Inr u)
    let ?pad = "unat (align_up (file_size - tail_off) ALIGN) - unat (file_size - tail_off)"
    have split: "src @ replicate ?pad CHR 0x00 = take (unat tail_off) src @ slice src (unat tail_off) (length src) @ replicate ?pad CHR 0x00"
      by (simp only: append_assoc [symmetric] src)
    have "laid_out 0 (ws @ [(tail_off, slice src (unat tail_off) (length src) @ replicate ?pad CHR 0x00)]) (src @ replicate ?pad CHR 0x00)"
      unfolding split by (rule laid_out_snoc [OF assms(5)]) (use tail(2) len(2) in simp_all)
    with Inr tail len show ?thesis
      by (auto simp: copy_tail_def Let_def)
  qed
qed

text \<open>The ring takes every write, and the file system does as it is asked.\<close>

definition copy_smooth :: "copy_env \<Rightarrow> bool" where
  "copy_smooth env \<longleftrightarrow>
     ce_mkdirs env = Inr () \<and> ce_dst env = Inr () \<and> (\<forall>n. ce_fallocate env 0 n = None) \<and>
     (\<forall>k. \<not> ce_cancelled env k \<and> \<not> isl (ce_write env k)) \<and> ce_wait env = Inr ()"

text \<open>The result of a copy: if it is not an error it is the source, and it is no error if all goes well.\<close>

definition copies :: "copy_env \<Rightarrow> str \<Rightarrow> str + str \<Rightarrow> bool" where
  "copies env src res \<longleftrightarrow> (\<forall>c. res = Inr c \<longrightarrow> c = src) \<and> (copy_smooth env \<longrightarrow> res = Inr src)"

lemma copies_error: "\<not> copy_smooth env \<Longrightarrow> copies env src (Inl e)"
  by (simp add: copies_def)

lemma copies_rbind:
  assumes "copy_smooth env \<Longrightarrow> \<exists>x. r = Inr x" "\<And>x. r = Inr x \<Longrightarrow> copies env src (f x)"
  shows "copies env src (rbind r f)"
proof (cases r)
  case (Inl e)
  with assms(1) have "\<not> copy_smooth env" by auto
  with Inl show ?thesis by (simp add: copies_error)
next
  case (Inr x)
  with assms(2) show ?thesis by simp
qed

lemma copies_end:
  assumes "laid_out 0 ws (src @ replicate pad CHR 0x00)" "mset (ce_order env ws) = mset ws" "src \<noteq> []" "unat file_size = length src"
  shows "copies env src (copy_end env c file_size None ws)"
  unfolding copy_end_def option.case
proof (rule copies_rbind)
  show "copy_smooth env \<Longrightarrow> \<exists>x. ce_wait env = Inr x"
    by (simp add: copy_smooth_def)
  have "ftruncate_file (apply_writes (ce_order env ws) c) (unat file_size) = src"
    using apply_any_order [OF assms(1,2)] assms(3,4) by (simp add: ftruncate_write)
  then show "copies env src (Inr (ftruncate_file (apply_writes (ce_order env ws) c) (unat file_size)))"
    by (simp add: copies_def)
qed

lemma copy_blocks_ok:
  fixes cfg :: stream_cfg
  assumes "unat file_size = length src" "cfg_chunk_size cfg \<noteq> 0"
  defines "direct \<equiv> cfg_direct_io cfg \<and> file_size > cfg_chunk_size cfg \<and> cfg_chunk_size cfg mod ALIGN = 0"
  defines "e \<equiv> if direct then align_down file_size ALIGN else file_size"
  shows "copy_ok e (cfg_chunk_size cfg) direct 0" "unat e \<le> length src" "\<not> direct \<Longrightarrow> e = file_size"
    "direct \<Longrightarrow> file_size - e \<le> cfg_chunk_size cfg"
proof -
  have down: "align_down file_size ALIGN \<le> file_size" "unat file_size < unat (align_down file_size ALIGN) + 4096"
    "unat (align_down file_size ALIGN) mod 4096 = 0"
    using align_down_bounds [of ALIGN file_size] by simp_all
  show "copy_ok e (cfg_chunk_size cfg) direct 0" "unat e \<le> length src" "\<not> direct \<Longrightarrow> e = file_size"
    using assms(1,2) down by (auto simp: copy_ok_def e_def direct_def mod_ALIGN_iff word_le_nat_alt)
  assume direct
  then have "4096 \<le> unat (cfg_chunk_size cfg)"
    using direct_chunk [of cfg] assms(2) by (simp add: direct_def uses_direct_def)
  then show "file_size - e \<le> cfg_chunk_size cfg"
    using down(1,2) \<open>direct\<close> by (simp add: e_def word_le_nat_alt unat_sub)
qed

lemma copy_prefix_sound:
  assumes "copy_ok e chunk direct 0" "unat e \<le> length src" "1 \<le> inflight_cfg" "copy_prefix env (reads src) e chunk direct inflight_cfg = (had_err, k, ws)"
  shows "case had_err of Some err \<Rightarrow> \<not> copy_smooth env | None \<Rightarrow> laid_out 0 ws (take (unat e) src)"
proof (cases "e > 0")
  case True
  define allowed where "allowed = min inflight_cfg (max (if e = 0 then 0 else (e + chunk - 1) div chunk) 1)"
  have allowed: "1 \<le> allowed"
    unfolding allowed_def using assms(3) by (intro min.boundedI max.cobounded2)
  obtain futs off where f: "copy_fill e chunk direct (unat allowed) 0 [] = (futs, off)" by fastforce
  have "copy_prefix env (reads src) e chunk direct inflight_cfg = copy_pump env (reads src) e chunk direct futs off 0 []"
    using True f by (simp only: copy_prefix_def Let_def allowed_def [symmetric] if_True prod.case)
  with copy_aligned_part [OF assms(1) True assms(2) allowed f, of env] assms(4) show ?thesis
    by (auto simp: copy_smooth_def split: option.splits)
next
  case False
  then have "e = 0" by (simp add: word_greater_zero_iff)
  with assms(4) show ?thesis
    by (auto simp: copy_prefix_def Let_def)
qed

lemma copy_body_sound:
  assumes src: "ce_src env = Inr (reads src)" "unat file_size = length src" "src \<noteq> []"
    and order: "\<And>ws. mset (ce_order env ws) = mset ws" and inflight: "1 \<le> inflight_cfg"
    and blocks: "copy_ok e chunk direct 0" "unat e \<le> length src" "\<not> direct \<Longrightarrow> e = file_size" "direct \<Longrightarrow> file_size - e \<le> chunk"
  shows "copies env src (copy_body env (reads src) c file_size e chunk direct inflight_cfg)"
proof -
  obtain had_err k ws where p: "copy_prefix env (reads src) e chunk direct inflight_cfg = (had_err, k, ws)"
    by (cases "copy_prefix env (reads src) e chunk direct inflight_cfg")
  note part = copy_prefix_sound [OF blocks(1,2) inflight p]
  consider (err) x where "had_err = Some x" | (tail) "had_err = None" "direct" "e < file_size" | (whole) "had_err = None" "e = file_size"
    using blocks(2,3) src(2) by (cases had_err; cases direct; cases "e < file_size") (auto simp: word_le_nat_alt not_less word_unat_eq_iff)
  then show ?thesis
  proof cases
    case err
    with part show ?thesis
      by (simp add: copy_body_def p copy_end_def copies_error)
  next
    case tail
    then have l: "laid_out 0 ws (take (unat e) src)"
      using part by simp
    have b: "copy_body env (reads src) c file_size e chunk direct inflight_cfg
        = rbind (copy_tail env chunk e file_size k) (\<lambda>(h, ws'). copy_end env c file_size h (ws @ ws'))"
      using tail by (simp add: copy_body_def p [unfolded eqTrueI [OF tail(2)]])
    note t = copy_tail_sound [OF src(1,2) tail(3) blocks(4) [OF tail(2)] l, of k]
    show ?thesis
    proof (cases "copy_tail env chunk e file_size k")
      case (Inl x)
      with t show ?thesis by simp
    next
      case (Inr r)
      obtain h ws' where "r = (h, ws')" by fastforce
      with t Inr copies_end [OF _ order src(3,2)] show ?thesis
        unfolding b by (cases h) (auto simp: copy_end_def copy_smooth_def intro!: copies_error)
    qed
  next
    case whole
    then have "laid_out 0 ws (src @ replicate 0 CHR 0x00)"
      using part src(2) by simp
    from copies_end [OF this order src(3,2)] whole show ?thesis
      by (simp add: copy_body_def p [unfolded whole(2)])
  qed
qed

lemma copy_sound:
  assumes src: "ce_src env = Inr (reads src)" "unat file_size = length src" and chunk: "cfg_chunk_size cfg \<noteq> 0"
    and order: "\<And>ws. mset (ce_order env ws) = mset ws"
  shows "copies env src (copy_file_to_file env file_size cfg)"
proof -
  note blocks = copy_blocks_ok [OF src(2) chunk]
  have zero: "file_size = 0 \<longleftrightarrow> src = []"
    using src(2) by (auto simp flip: unat_eq_0)
  have one: "1 \<le> max (cfg_inflight cfg) 1"
    by (rule max.cobounded2)
  note body = copy_body_sound [OF src _ order one blocks]
  have rest: "copies env src (if file_size = 0 then Inr (ftruncate_file c 0)
      else if e \<noteq> 0 \<and> cfg_chunk_size cfg = 0 then Inl x
      else copy_body env (reads src) c file_size e (cfg_chunk_size cfg) direct (max (cfg_inflight cfg) 1))"
    if "file_size \<noteq> 0 \<Longrightarrow> copies env src (copy_body env (reads src) c file_size e (cfg_chunk_size cfg) direct (max (cfg_inflight cfg) 1))" for c e direct x
    using that zero chunk by (simp add: copies_def ftruncate_file_def)
  show ?thesis
    unfolding copy_file_to_file_def Let_def src(1) rbind_simps
    apply (rule copies_rbind, simp add: copy_smooth_def)
    apply (rule copies_rbind, simp add: copy_smooth_def)
    apply (rule copies_rbind, rule prealloc_ok, simp add: copy_smooth_def)
    apply (rule rest)
    apply (rule body)
      apply (simp add: zero)
     apply assumption
    apply assumption
    done
qed

section \<open>Ranges\<close>

text \<open>One block after the other: a read of the source, which must not be short, and a write to the open file.\<close>

function copy_range_loop ::
  "copy_env \<Rightarrow> file_reader \<Rightarrow> u64 \<Rightarrow> u64 \<Rightarrow> u64 \<Rightarrow> usize \<Rightarrow> u64 \<Rightarrow> nat \<Rightarrow> (u64 \<times> str) list \<Rightarrow> str + (u64 \<times> str) list" where
  "copy_range_loop env reader src_off0 dst_off0 len chunk pos k ws =
     (if pos < len \<and> chunk \<noteq> 0 then
        (let want = min chunk (len - pos) in
         case reader (src_off0 + pos) want of
           Inl e \<Rightarrow> Inl e
         | Inr b \<Rightarrow>
             if length b \<noteq> unat want
             then Inl (''short read while copying: got '' @ show_nat (length b) @ '', want '' @ show_nat (unat want) @
                    '' at src_off='' @ show_nat (unat (src_off0 + pos)))
             else (case ce_write env k of
                 Inl e \<Rightarrow> Inl e
               | Inr _ \<Rightarrow> copy_range_loop env reader src_off0 dst_off0 len chunk (pos + want) (Suc k) (ws @ [(dst_off0 + pos, b)])))
      else Inr ws)"
  by pat_completeness auto
termination
  by (relation "measure (\<lambda>(env, reader, s, d, len, chunk, pos, k, ws). unat len - unat pos)") (auto simp: copy_less)

declare copy_range_loop.simps [simp del]

definition copy_range_to_range :: "copy_env \<Rightarrow> file_reader \<Rightarrow> u64 \<Rightarrow> str \<Rightarrow> u64 \<Rightarrow> u64 \<Rightarrow> stream_cfg \<Rightarrow> str + str" where
  "copy_range_to_range env reader src_off0 dst dst_off0 len cfg =
     (if len = 0 then Inr dst
      else if cfg_chunk_size cfg = 0 then Inl ''attempt to divide by zero''
      else rbind (copy_range_loop env reader src_off0 dst_off0 len (cfg_chunk_size cfg) 0 0 []) (\<lambda>ws.
             rbind (ce_wait env) (\<lambda>_. Inr (apply_writes (ce_order env ws) dst))))"

lemma copy_range_loop_sound:
  fixes src :: str
  assumes bounds: "unat src_off0 + unat len < 2 ^ 64" "unat dst_off0 + unat len < 2 ^ 64" and chunk: "chunk \<noteq> 0"
  defines "data \<equiv> \<lambda>n. take n (drop (unat src_off0) src)"
  shows "pos \<le> len \<Longrightarrow> laid_out (unat dst_off0) ws (data (unat pos)) \<Longrightarrow> length (data (unat pos)) = unat pos \<Longrightarrow>
    (case copy_range_loop env (reads src) src_off0 dst_off0 len chunk pos k ws of
       Inl e \<Rightarrow> length src < unat src_off0 + unat len \<or> (\<exists>j. isl (ce_write env j))
     | Inr ws' \<Rightarrow> laid_out (unat dst_off0) ws' (data (unat len)) \<and> length (data (unat len)) = unat len)"
proof (induction "unat len - unat pos" arbitrary: pos k ws rule: less_induct)
  case less
  show ?case
  proof (cases "pos < len")
    case False
    with less.prems have "pos = len" by simp
    with less.prems show ?thesis
      by (simp add: copy_range_loop.simps [of _ _ _ _ len])
  next
    case True
    define w where "w = min chunk (len - pos)"
    note nat = chunk_nat(2,4) [OF True chunk, folded w_def]
    have adv: "unat (pos + w) = unat pos + unat w"
      using copy_advance [OF True chunk] by (simp add: w_def)
    have offs: "unat (src_off0 + pos) = unat src_off0 + unat pos" "unat (dst_off0 + pos) = unat dst_off0 + unat pos"
      using bounds less.prems(1) by (simp_all add: unat_word_ariths word_le_nat_alt)
    define b where "b = take (unat w) (drop (unat src_off0 + unat pos) src)"
    have step: "copy_range_loop env (reads src) src_off0 dst_off0 len chunk pos k ws =
        (if length b \<noteq> unat w then Inl (''short read while copying: got '' @ show_nat (length b) @ '', want '' @ show_nat (unat w) @
            '' at src_off='' @ show_nat (unat (src_off0 + pos)))
         else case ce_write env k of Inl e \<Rightarrow> Inl e
           | Inr _ \<Rightarrow> copy_range_loop env (reads src) src_off0 dst_off0 len chunk (pos + w) (Suc k) (ws @ [(dst_off0 + pos, b)]))"
      using True chunk
      by (subst copy_range_loop.simps)
         (simp only: Let_def reads_def offs b_def [symmetric] w_def [symmetric] sum.case simp_thms not_False_eq_True if_True)
    have split: "data (unat pos + unat w) = data (unat pos) @ b"
      by (simp add: data_def b_def take_add add.commute)
    show ?thesis
    proof (cases "length b = unat w \<and> \<not> isl (ce_write env k)")
      case False
      then have "isl (ce_write env k) \<or> length src < unat src_off0 + unat len"
        using nat by (auto simp: b_def)
      with False step show ?thesis
        by (cases "ce_write env k") (auto intro: exI [of _ k])
    next
      case ok: True
      then have "laid_out (unat dst_off0) (ws @ [(dst_off0 + pos, b)]) (data (unat (pos + w)))"
        using laid_out_snoc [OF less.prems(2), of "dst_off0 + pos" b] less.prems(3) nat(1)
        by (cases "b = []") (auto simp: adv split offs)
      then have "case copy_range_loop env (reads src) src_off0 dst_off0 len chunk (pos + w) (Suc k) (ws @ [(dst_off0 + pos, b)]) of
          Inl e \<Rightarrow> length src < unat src_off0 + unat len \<or> (\<exists>j. isl (ce_write env j))
        | Inr ws' \<Rightarrow> laid_out (unat dst_off0) ws' (data (unat len)) \<and> length (data (unat len)) = unat len"
        by (rule less.hyps [rotated 2]) (use nat ok less.prems(3) in \<open>simp_all add: adv split word_le_nat_alt\<close>)
      with ok show ?thesis
        unfolding step by (cases "ce_write env k") simp_all
    qed
  qed
qed

section \<open>Properties\<close>

text \<open>
  C31. A copy of an object that is reported as done is the object, whatever the ring, the cancellation
  and the file system did on the way, in whatever order the ring performed the writes, with or
  without direct I/O; and it is done when each of them does as it is asked.
\<close>
theorem copy_file_to_file_copies:
  assumes "ce_src env = Inr (reads src)" "unat file_size = length src" "cfg_chunk_size cfg \<noteq> 0"
    and "\<And>ws. mset (ce_order env ws) = mset ws"
  shows "(\<forall>c. copy_file_to_file env file_size cfg = Inr c \<longrightarrow> c = src) \<and>
    (copy_smooth env \<longrightarrow> copy_file_to_file env file_size cfg = Inr src)"
  using copy_sound [OF assms] unfolding copies_def .

definition example_copy_env :: copy_env where
  "example_copy_env = \<lparr>ce_mkdirs = Inr (), ce_src = Inr (reads ''hello''), ce_dst = Inr (), ce_fallocate = (\<lambda>_ _. None),
     ce_cancelled = (\<lambda>_. False), ce_write = (\<lambda>_. Inr ()), ce_order = rev, ce_wait = Inr ()\<rparr>"

definition example_copy_cfg :: stream_cfg where
  "example_copy_cfg = \<lparr>cfg_chunk_size = 2, cfg_inflight = 2, cfg_direct_io = False\<rparr>"

theorem copy_file_to_file_copies_witness:
  "ce_src example_copy_env = Inr (reads ''hello'') \<and> copy_file_to_file example_copy_env 5 example_copy_cfg = Inr ''hello''"
  using copy_file_to_file_copies [of example_copy_env "''hello''" 5 example_copy_cfg]
  by (simp add: example_copy_env_def example_copy_cfg_def copy_smooth_def)

text \<open>
  A copy of a range into an open file that is reported as done has put the bytes of the source at
  the offset given and left every other byte of the file alone; and it fails only on a short source
  or an error of the ring, never silently with fewer bytes.
\<close>
theorem copy_range_to_range_copies:
  assumes "unat src_off0 + unat len < 2 ^ 64" "unat dst_off0 + unat len < 2 ^ 64" "cfg_chunk_size cfg \<noteq> 0"
    and order: "\<And>ws. mset (ce_order env ws) = mset ws"
  shows "case copy_range_to_range env (reads src) src_off0 dst dst_off0 len cfg of
      Inl e \<Rightarrow> length src < unat src_off0 + unat len \<or> (\<exists>j. isl (ce_write env j)) \<or> isl (ce_wait env)
    | Inr c \<Rightarrow> c = write_at (unat dst_off0) (take (unat len) (drop (unat src_off0) src)) dst \<and>
        length (take (unat len) (drop (unat src_off0) src)) = unat len"
proof (cases "len = 0")
  case True
  then show ?thesis
    by (simp add: copy_range_to_range_def write_at_def)
next
  case False
  note loop = copy_range_loop_sound [OF assms(1-3), of 0 "[]" src env 0]
  show ?thesis
  proof (cases "copy_range_loop env (reads src) src_off0 dst_off0 len (cfg_chunk_size cfg) 0 0 []")
    case (Inl e)
    with loop False assms(3) show ?thesis
      by (simp add: copy_range_to_range_def) blast
  next
    case (Inr ws)
    with loop have ws: "laid_out (unat dst_off0) ws (take (unat len) (drop (unat src_off0) src))"
      "length (take (unat len) (drop (unat src_off0) src)) = unat len"
      by simp_all
    show ?thesis
      using Inr False assms(3) ws(2) apply_any_order [OF ws(1) order, of dst]
      by (cases "ce_wait env") (simp_all add: copy_range_to_range_def)
  qed
qed

theorem copy_range_to_range_copies_witness:
  "unat (1 :: u64) + unat (3 :: u64) < 2 ^ 64 \<and> copy_range_to_range example_copy_env (reads ''hello'') 1 ''abcdefg'' 2 3 example_copy_cfg = Inr ''abellfg''"
  using copy_range_to_range_copies [of 1 3 2 example_copy_cfg example_copy_env "''hello''" "''abcdefg''"]
  by (cases "copy_range_to_range example_copy_env (reads ''hello'') 1 ''abcdefg'' 2 3 example_copy_cfg")
     (auto simp: example_copy_env_def example_copy_cfg_def write_at_def)

end
