(* ===== verification/Posix_Fs.thy ===== *)
theory Posix_Fs
  imports Fs_Helpers
begin

text \<open>
  The file system the gateway works on: a tree of directories and regular files, with what the
  system calls behind \<open>std::fs\<close> and \<open>crates/s32p-gateway/src/fs_helpers.rs\<close> return on it. Links are
  resolved: the node of a name is what it leads to, marked as reached by a link, and a link that
  leads nowhere is a node of its own. What links lead to is not shared with other names. A node may
  refuse access to the process. Extended attributes are an association list.
\<close>

section \<open>Nodes\<close>

record attrs =
  at_dev :: u64
  at_ino :: u64
  at_mtime :: system_time
  at_uid :: u32
  at_mode :: u32
  at_access :: bool
  at_link :: bool
  at_xattrs :: "(str \<times> str) list"

datatype node =
    Reg attrs str
  | Dir attrs u64 "(str \<times> node) list"
  | Dangling attrs u64

fun node_attrs :: "node \<Rightarrow> attrs" where
  "node_attrs (Reg a c) = a"
| "node_attrs (Dir a sz es) = a"
| "node_attrs (Dangling a sz) = a"

fun node_len :: "node \<Rightarrow> u64" where
  "node_len (Reg a c) = word_of_nat (length c)"
| "node_len (Dir a sz es) = sz"
| "node_len (Dangling a sz) = sz"

fun is_dir :: "node \<Rightarrow> bool" where
  "is_dir (Dir a sz es) = True"
| "is_dir n = False"

text \<open>The kinds of \<open>io::Error\<close> that the handlers tell apart.\<close>

datatype io_kind =
    NotFound
  | PermissionDenied
  | NotADirectory
  | DirectoryNotEmpty
  | IsADirectory
  | EntryExists
  | CrossesDevices
  | InvalidPath
  | NulInPath
  | OtherIo

fun io_text :: "io_kind \<Rightarrow> str" where
  "io_text NotFound = ''No such file or directory (os error 2)''"
| "io_text PermissionDenied = ''Permission denied (os error 13)''"
| "io_text NotADirectory = ''Not a directory (os error 20)''"
| "io_text DirectoryNotEmpty = ''Directory not empty (os error 39)''"
| "io_text IsADirectory = ''Is a directory (os error 21)''"
| "io_text EntryExists = ''File exists (os error 17)''"
| "io_text CrossesDevices = ''Invalid cross-device link (os error 18)''"
| "io_text InvalidPath = ''Invalid argument (os error 22)''"
| "io_text NulInPath = ''file name contained an unexpected NUL byte''"
| "io_text OtherIo = ''Input/output error (os error 5)''"

section \<open>Looking up\<close>

fun node_at :: "node \<Rightarrow> str list \<Rightarrow> io_kind + node" where
  "node_at n [] = Inr n"
| "node_at n (s # ss) =
     (case n of
        Dir a sz es \<Rightarrow> (case map_of es s of None \<Rightarrow> Inl NotFound | Some m \<Rightarrow> node_at m ss)
      | Reg a c \<Rightarrow> Inl NotADirectory
      | Dangling a sz \<Rightarrow> Inl NotFound)"

definition components :: "str \<Rightarrow> str list" where
  "components p = walk [] (split_on CHR ''/'' p)"

definition symlink_metadata :: "node \<Rightarrow> str \<Rightarrow> io_kind + node" where
  "symlink_metadata fs p = node_at fs (components p)"

definition metadata :: "node \<Rightarrow> str \<Rightarrow> io_kind + node" where
  "metadata fs p =
     (case node_at fs (components p) of
        Inr (Dangling a sz) \<Rightarrow> Inl NotFound
      | r \<Rightarrow> r)"

definition is_dir_path :: "node \<Rightarrow> str \<Rightarrow> bool" where
  "is_dir_path fs p = (case metadata fs p of Inr n \<Rightarrow> is_dir n | Inl e \<Rightarrow> False)"

definition read_dir :: "node \<Rightarrow> str \<Rightarrow> io_kind + (str \<times> node) list" where
  "read_dir fs p =
     (case metadata fs p of
        Inl e \<Rightarrow> Inl e
      | Inr (Dir a sz es) \<Rightarrow> if at_access a then Inr es else Inl PermissionDenied
      | Inr n \<Rightarrow> Inl NotADirectory)"

text \<open>\<open>statx\<close>, following a last link or not.\<close>

definition do_statx :: "node \<Rightarrow> bool \<Rightarrow> str \<Rightarrow> statx option" where
  "do_statx fs follow p =
     (case (if follow then metadata fs p else symlink_metadata fs p) of
        Inl e \<Rightarrow> None
      | Inr n \<Rightarrow> Some \<lparr>stx_ino = at_ino (node_attrs n), stx_size = node_len n, stx_uid = at_uid (node_attrs n),
          stx_mtime_sec = at_mtime (node_attrs n) div nanos,
          stx_mtime_nsec = word_of_int (at_mtime (node_attrs n) mod nanos)\<rparr>)"

text \<open>\<open>bucket_exists_dir\<close> of \<open>fs_helpers.rs\<close>.\<close>

definition bucket_exists_dir :: "node \<Rightarrow> str \<Rightarrow> str \<Rightarrow> str + bool" where
  "bucket_exists_dir fs root bucket =
     (case bucket_root_path root bucket of
        Inl e \<Rightarrow> Inl e
      | Inr p \<Rightarrow> Inr (is_dir_path fs p))"

section \<open>Well-formed trees\<close>

definition valid_name :: "str \<Rightarrow> bool" where
  "valid_name s \<longleftrightarrow> safe_segment s \<and> CHR 0x00 \<notin> set s"

fun wf_node :: "node \<Rightarrow> bool" where
  "wf_node (Dir a sz es) \<longleftrightarrow> distinct (map fst es) \<and> (\<forall>(s, n)\<in>set es. valid_name s \<and> wf_node n)"
| "wf_node (Reg a c) \<longleftrightarrow> True"
| "wf_node (Dangling a sz) \<longleftrightarrow> True"

lemma node_at_append: "node_at n (p @ q) = (case node_at n p of Inl e \<Rightarrow> Inl e | Inr m \<Rightarrow> node_at m q)"
  by (induction n p rule: node_at.induct) (auto split: node.splits option.splits)

lemma wf_node_at: "wf_node n \<Longrightarrow> node_at n p = Inr m \<Longrightarrow> wf_node m"
proof (induction n p rule: node_at.induct)
  case (2 n s ss)
  then show ?case
    by (cases n) (auto split: option.splits dest!: map_of_SomeD)
qed simp

lemma valid_nameD:
  assumes "valid_name s"
  shows "s \<noteq> []" "s \<noteq> ''.''" "s \<noteq> ''..''" "CHR ''/'' \<notin> set s" "CHR 0x00 \<notin> set s"
  using assms by (auto simp: valid_name_def safe_segment_def)

lemma components_join:
  assumes "proper_root root" "join_object_path root bucket key = Inr p"
  shows "components p = components root @ bucket # key_segments key"
proof -
  have ok: "safe_segment bucket" "\<forall>q\<in>set (key_segments key). safe_segment q"
    "p = root @ concat (map (\<lambda>q. CHR ''/'' # q) (bucket # key_segments key))"
    using assms join_object_path_ok by blast+
  have "\<forall>q\<in>set (bucket # key_segments key). CHR ''/'' \<notin> set q"
    using ok(1,2) by (auto simp: safe_segment_def)
  from split_on_segments [OF this, of root] show ?thesis
    unfolding components_def ok(3) walk_append
    by (simp only: walk_append) (rule walk_safe, use ok in auto)
qed

end
