(* ===== verification/Object_Etag.thy ===== *)
theory Object_Etag
  imports Posix_Fs
begin

text \<open>
  The entity tags of \<open>crates/s32p-gateway/src/main.rs\<close>, made from the inode, the modification time
  and the size of a file.
\<close>

unbundle bit_operations_syntax

definition etag_mix :: "u64 \<Rightarrow> u64" where
  "etag_mix z =
     (let z1 = (z XOR drop_bit 30 z) * 0xbf58476d1ce4e5b9;
          z2 = (z1 XOR drop_bit 27 z1) * 0x94d049bb133111eb
      in z2 XOR drop_bit 31 z2)"

definition hex_char :: "nat \<Rightarrow> char" where
  "hex_char n = (if n < 10 then char_of (48 + n) else char_of (87 + n))"

text \<open>The format \<open>{:016x}\<close> of a 64-bit number.\<close>

definition hex16 :: "u64 \<Rightarrow> str" where
  "hex16 w = map (\<lambda>i. hex_char (unat (drop_bit (4 * i) w AND 15))) (rev [0..<16])"

definition mtime_ns :: "system_time \<Rightarrow> u64" where
  "mtime_ns mtime = (if mtime \<ge> 0 then word_of_int mtime else - word_of_int (- mtime))"

definition format_object_etag_unquoted :: "u64 \<Rightarrow> system_time \<Rightarrow> u64 \<Rightarrow> str" where
  "format_object_etag_unquoted ino mtime sz =
     hex16 ino @ hex16 (etag_mix (mtime_ns mtime XOR etag_mix sz)) @ ''-1''"

definition format_object_etag :: "u64 \<Rightarrow> system_time \<Rightarrow> u64 \<Rightarrow> str" where
  "format_object_etag ino mtime sz = dquote @ format_object_etag_unquoted ino mtime sz @ dquote"

definition meta_etag_unquoted :: "node \<Rightarrow> str" where
  "meta_etag_unquoted m = format_object_etag_unquoted (at_ino (node_attrs m)) (at_mtime (node_attrs m)) (node_len m)"

definition meta_etag :: "node \<Rightarrow> str" where
  "meta_etag m = format_object_etag (at_ino (node_attrs m)) (at_mtime (node_attrs m)) (node_len m)"

text \<open>\<open>etag_matches\<close> of \<open>main.rs\<close>, which a rename uses: equal up to blanks and one pair of quotes.\<close>

definition unquote :: "str \<Rightarrow> str" where
  "unquote s = (case strip_prefix dquote s of
      None \<Rightarrow> s
    | Some t \<Rightarrow> (case strip_suffix dquote t of None \<Rightarrow> s | Some u \<Rightarrow> u))"

definition rename_etag_matches :: "str \<Rightarrow> str \<Rightarrow> bool" where
  "rename_etag_matches have_tag want = (unquote (trim have_tag) = unquote (trim want))"

section \<open>The mix loses nothing\<close>

lemma xor_eq_zero: "a XOR b = (0 :: u64) \<Longrightarrow> a = b"
proof -
  assume "a XOR b = 0"
  then have "a XOR (a XOR b) = a" by simp
  moreover have "a XOR (a XOR b) = b"
    by (simp only: xor.assoc [symmetric] xor_self_eq xor.left_neutral)
  ultimately show "a = b" by simp
qed

lemma xor_shift_inj:
  fixes x y :: u64
  assumes "0 < n" "x XOR drop_bit n x = y XOR drop_bit n y"
  shows "x = y"
proof -
  define d where "d = x XOR y"
  have "d XOR drop_bit n d = (x XOR drop_bit n x) XOR (y XOR drop_bit n y)"
    by (simp add: d_def drop_bit_xor ac_simps)
  also have "\<dots> = 0"
    using assms(2) by simp
  finally have "d = drop_bit n d"
    by (rule xor_eq_zero)
  then have "unat d = drop_bit n (unat d)"
    by (simp flip: unat_drop_bit_eq)
  then have "unat d div 2 ^ n = unat d"
    by (simp add: drop_bit_eq_div)
  then have "unat d = 0"
    using assms(1) div_less_dividend [of "2 ^ n" "unat d"] one_less_power [of "2 :: nat" n] by (cases "unat d") auto
  then have "d = 0" by (simp add: unsigned_eq_0_iff)
  then show ?thesis
    unfolding d_def by (rule xor_eq_zero)
qed

lemma mult_inj:
  fixes x y c i :: u64
  assumes "i * c = 1" "x * c = y * c"
  shows "x = y"
proof -
  have "x = x * (i * c)" using assms(1) by simp
  also have "\<dots> = i * (x * c)" by (simp only: ac_simps)
  also have "\<dots> = y * (i * c)" unfolding assms(2) by (simp only: ac_simps)
  finally show ?thesis using assms(1) by simp
qed

lemma etag_mix_inj [simp]: "etag_mix x = etag_mix y \<longleftrightarrow> x = y"
proof
  assume eq: "etag_mix x = etag_mix y"
  define f where "f z = (z XOR drop_bit 30 z) * 0xbf58476d1ce4e5b9" for z :: u64
  define g where "g z = (z XOR drop_bit 27 z) * 0x94d049bb133111eb" for z :: u64
  have "g (f x) = g (f y)"
    by (rule xor_shift_inj [of 31]) (use eq in \<open>simp_all add: etag_mix_def Let_def f_def g_def\<close>)
  then have "f x XOR drop_bit 27 (f x) = f y XOR drop_bit 27 (f y)"
    unfolding g_def by (rule mult_inj [rotated, of _ _ _ 3573116690164977347]) simp
  then have "f x = f y"
    by (rule xor_shift_inj [rotated]) simp
  then have "x XOR drop_bit 30 x = y XOR drop_bit 30 y"
    unfolding f_def by (rule mult_inj [rotated, of _ _ _ 10871156337175269513]) simp
  then show "x = y"
    by (rule xor_shift_inj [rotated]) simp
qed simp

lemma length_hex16 [simp]: "length (hex16 w) = 16"
  by (simp add: hex16_def)

lemma hex_char_inj:
  assumes "m < 16" "n < 16" "hex_char m = hex_char n"
  shows "m = n"
proof -
  have code: "of_char (hex_char k) = (if k < 10 then 48 + k else 87 + k)" if "k < 16" for k :: nat
    using that by (simp add: hex_char_def of_char_of)
  have "(if m < 10 then 48 + m else 87 + m) = (if n < 10 then 48 + n else 87 + n)"
    using code [OF assms(1)] code [OF assms(2)] unfolding assms(3) by (rule trans [OF sym])
  then show ?thesis
    by (simp split: if_split_asm)
qed

lemma nibble_less: "unat (w AND 15 :: u64) < 16"
proof -
  have "w AND 15 \<le> 15" by (rule word_and_le1)
  then show ?thesis by (simp add: word_le_nat_alt)
qed

lemma hex16_inj [simp]: "hex16 v = hex16 w \<longleftrightarrow> v = w"
proof
  assume eq: "hex16 v = hex16 w"
  have nib: "drop_bit (4 * i) v AND 15 = drop_bit (4 * i) w AND 15" if "i < 16" for i
  proof -
    have "hex_char (unat (drop_bit (4 * i) v AND 15)) = hex_char (unat (drop_bit (4 * i) w AND 15))"
      using eq that by (auto simp: hex16_def)
    then show ?thesis
      using hex_char_inj [OF nibble_less nibble_less] by (simp add: word_unat_eq_iff)
  qed
  show "v = w"
  proof (rule bit_eqI)
    fix n
    assume "possible_bit TYPE(u64) n"
    then have "n div 4 < 16" by simp
    from nib [OF this] have "bit (drop_bit (4 * (n div 4)) v AND 15) (n mod 4) = bit (drop_bit (4 * (n div 4)) w AND 15) (n mod 4)"
      by simp
    moreover have "(15 :: u64) = mask 4"
      by (simp add: mask_eq_exp_minus_1)
    moreover have "n mod 4 < 64"
      using mod_less_divisor [of 4 n] by simp
    ultimately show "bit v n \<longleftrightarrow> bit w n"
      by (simp only: bit_and_iff bit_drop_bit_eq bit_mask_iff o_apply mult_div_mod_eq) simp
  qed
qed simp

lemma mtime_ns_word: "mtime_ns t = word_of_int t"
  by (simp add: mtime_ns_def flip: wi_hom_neg)

lemma xor_cancel: "(a XOR b = c XOR b) = (a = c)" "(b XOR a = b XOR c) = (a = c)" for a b c :: u64
proof -
  have "a = c" if "a XOR b = c XOR b" for a b c :: u64
    using arg_cong [OF that, of "\<lambda>x. x XOR b"] by (simp only: xor.assoc xor_self_eq xor.right_neutral)
  then show "(a XOR b = c XOR b) = (a = c)" "(b XOR a = b XOR c) = (a = c)"
    by (auto simp: xor.commute [of b])
qed

text \<open>
  C37. Entity tags tell versions apart. A tag has the shape of a multipart tag, thirty-two digits
  and \<open>-1\<close>. Files with different inodes never share one; and for one file the tag changes whenever
  the size changes and the modification time does not, or the time changes (by anything that is not
  a multiple of \<open>2 ^ 64\<close> nanoseconds) and the size does not. The tag on the wire without its
  quotes is the one the preconditions compare.
\<close>
theorem etag_tells_versions_apart:
  "length (format_object_etag_unquoted ino mtime sz) = 34 \<and>
   (format_object_etag_unquoted ino mtime sz = format_object_etag_unquoted ino' mtime sz' \<longleftrightarrow> ino = ino' \<and> sz = sz') \<and>
   (format_object_etag_unquoted ino mtime sz = format_object_etag_unquoted ino' mtime' sz \<longleftrightarrow>
      ino = ino' \<and> (mtime - mtime') mod 2 ^ 64 = 0) \<and>
   unquote (format_object_etag ino mtime sz) = format_object_etag_unquoted ino mtime sz"
proof -
  have time: "(word_of_int mtime :: u64) = word_of_int mtime' \<longleftrightarrow> (mtime - mtime') mod 2 ^ 64 = 0"
    by (simp add: word_of_int_eq_iff take_bit_eq_mod mod_eq_dvd_iff dvd_eq_mod_eq_0)
  have "unquote (format_object_etag ino mtime sz) = format_object_etag_unquoted ino mtime sz"
    by (simp add: unquote_def format_object_etag_def strip_suffix_def dquote_def strip_prefix_def starts_with_def)
  with time show ?thesis
    by (simp add: format_object_etag_unquoted_def mtime_ns_word xor_cancel)
qed

end
