(* ===== verification/Gateway_Config.thy ===== *)
theory Gateway_Config
  imports Posix_Fs
begin

text \<open>
  The configuration of a worker, \<open>load_cfg\<close> and what it reads of the environment, in
  \<open>crates/s32p-gateway/src/main.rs\<close>. The feature \<open>lustre\<close> is off. The environment is a map from
  names to values.
\<close>

datatype acl_level = ReadOnly | ReadWrite

record gw_cfg =
  gc_bind_addr :: str
  gc_bind_uds :: "str option"
  gc_root :: str
  gc_access_key :: str
  gc_secret_key :: str
  gc_public_scheme :: str
  gc_region :: str
  gc_chunk_size :: usize
  gc_inflight :: usize
  gc_pool_size :: usize
  gc_direct_io :: bool
  gc_copy_max_size :: u64
  gc_mpu :: str
  gc_suffixes :: "str list"
  gc_worker_token :: str
  gc_bucket_acl :: "(str \<times> acl_level) list"

type_synonym environ = "str \<rightharpoonup> str"

definition env_bool :: "environ \<Rightarrow> str \<Rightarrow> bool \<Rightarrow> bool" where
  "env_bool env k dflt =
     (case env k of
        Some v \<Rightarrow>
          if v \<in> {''1'', ''true'', ''TRUE'', ''yes'', ''YES''} then True
          else if v \<in> {''0'', ''false'', ''FALSE'', ''no'', ''NO''} then False
          else dflt
      | None \<Rightarrow> dflt)"

definition env_usize :: "environ \<Rightarrow> str \<Rightarrow> usize \<Rightarrow> usize" where
  "env_usize env k dflt =
     (case env k of
        Some v \<Rightarrow> (case parse_u64_std v of Some n \<Rightarrow> n | None \<Rightarrow> dflt)
      | None \<Rightarrow> dflt)"

definition is_s3_bucket_name_charset :: "str \<Rightarrow> bool" where
  "is_s3_bucket_name_charset name \<longleftrightarrow>
     name \<noteq> [] \<and> list_all (\<lambda>b. is_ascii_lower b \<or> is_ascii_digit b \<or> b = CHR ''.'' \<or> b = CHR ''-'') name"

text \<open>\<open>HashMap::insert\<close>: the last value of a key counts.\<close>

definition acl_insert :: "(str \<times> acl_level) list \<Rightarrow> str \<Rightarrow> acl_level \<Rightarrow> (str \<times> acl_level) list" where
  "acl_insert m k v = (k, v) # filter (\<lambda>e. fst e \<noteq> k) m"

fun parse_acl_entries :: "str list \<Rightarrow> (str \<times> acl_level) list \<Rightarrow> (str \<times> acl_level) list" where
  "parse_acl_entries [] out = out"
| "parse_acl_entries (entry # rest) out =
     (let e = trim entry in
      if e = [] then parse_acl_entries rest out
      else (case split_once CHR '':'' e of
          None \<Rightarrow> parse_acl_entries rest out
        | Some (name, level) \<Rightarrow>
            if \<not> is_s3_bucket_name_charset (trim name) then parse_acl_entries rest out
            else if trim level = ''ro'' then parse_acl_entries rest (acl_insert out (trim name) ReadOnly)
            else if trim level = ''rw'' then parse_acl_entries rest (acl_insert out (trim name) ReadWrite)
            else parse_acl_entries rest out))"

definition parse_bucket_acl :: "str \<Rightarrow> (str \<times> acl_level) list" where
  "parse_bucket_acl raw = parse_acl_entries (split_on CHR '','' raw) []"

definition saturating_mul :: "u64 \<Rightarrow> u64 \<Rightarrow> u64" where
  "saturating_mul a b = (if unat a * unat b < 2 ^ 64 then a * b else - 1)"

definition env_or :: "environ \<Rightarrow> str \<Rightarrow> str \<Rightarrow> str" where
  "env_or env k dflt = (case env k of Some v \<Rightarrow> v | None \<Rightarrow> dflt)"

definition mpu_dir_ok :: "str \<Rightarrow> bool" where
  "mpu_dir_ok name \<longleftrightarrow> \<not> (name = [] \<or> name = ''.'' \<or> name = ''..'' \<or> CHR ''/'' \<in> set name \<or> CHR 0x5C \<in> set name)"

definition load_cfg :: "environ \<Rightarrow> str + gw_cfg" where
  "load_cfg env =
     rbind (ok_or (env ''S32P_POSIX_ROOT'') ''S32P_POSIX_ROOT missing'') (\<lambda>posix_root.
     rbind (ok_or (env ''AWS_ACCESS_KEY_ID'') ''AWS_ACCESS_KEY_ID missing'') (\<lambda>access_key.
     rbind (ok_or (env ''AWS_SECRET_ACCESS_KEY'') ''AWS_SECRET_ACCESS_KEY missing'') (\<lambda>secret_key.
       let inflight = max (env_usize env ''S32P_INFLIGHT'' 16) 1;
           mpu = env_or env ''S32P_MPU_DIR'' ''.s32p-mpu''
       in if \<not> mpu_dir_ok mpu then Inl (''invalid S32P_MPU_DIR='' @ mpu @ '' (must be a single path component)'')
          else Inr
            \<lparr>gc_bind_addr = env_or env ''S32P_BIND_ADDR'' ''127.0.0.1:0'',
             gc_bind_uds = env ''S32P_BIND_UDS'',
             gc_root = posix_root,
             gc_access_key = access_key,
             gc_secret_key = secret_key,
             gc_public_scheme = env_or env ''S32P_PUBLIC_SCHEME'' ''http'',
             gc_region = env_or env ''S32P_REGION'' ''us-east-1'',
             gc_chunk_size = env_usize env ''S32P_CHUNK_SIZE_MB'' 4 * 1024 * 1024,
             gc_inflight = inflight,
             gc_pool_size = max (env_usize env ''S32P_POOL_SIZE'' (max (saturating_mul inflight 8) 1)) 1,
             gc_direct_io = env_bool env ''S32P_DIRECT_IO'' False,
             gc_copy_max_size = saturating_mul (max (env_usize env ''S32P_COPY_MAX_SIZE_GB'' 5) 1) (1024 * 1024 * 1024),
             gc_mpu = mpu,
             gc_suffixes = (case env ''S32P_VIRTUAL_HOSTED_SUFFIXES'' of
                 None \<Rightarrow> []
               | Some v \<Rightarrow> filter (\<lambda>s. s \<noteq> []) (map trim (split_on CHR '','' v))),
             gc_worker_token = env_or env ''S32P_WORKER_TOKEN'' [],
             gc_bucket_acl = (case env ''S32P_BUCKET_ACL'' of None \<Rightarrow> [] | Some v \<Rightarrow> parse_bucket_acl v)\<rparr>)))"

lemma load_cfg_mpu: "load_cfg env = Inr c \<Longrightarrow> mpu_dir_ok (gc_mpu c)"
  by (auto simp: load_cfg_def rbind_Inr_iff Let_def split: if_splits)

end
