(* ===== verification/Listing.thy ===== *)
theory Listing
  imports Object_Etag "HOL-Library.Char_ord" "HOL-Library.List_Lexorder" "HOL-Library.Multiset"
begin

text \<open>
  Listings of \<open>crates/s32p-gateway/src/main.rs\<close>: the walk over the directories of a bucket that
  \<open>handle_list_objects_v2\<close> and \<open>handle_list_objects_v1\<close> share, and how a listing is cut into pages.
  Keys are compared by their bytes.
\<close>

section \<open>Reserved keys and prefixes\<close>

definition is_reserved_first_segment :: "str \<Rightarrow> str \<Rightarrow> bool" where
  "is_reserved_first_segment key_or_prefix mpu_dir_name =
     (let k = trim_end_matches ''/'' key_or_prefix
      in if k = mpu_dir_name then True
         else (case strip_prefix mpu_dir_name k of None \<Rightarrow> False | Some rest \<Rightarrow> starts_with ''/'' rest))"

definition split_prefix :: "str \<Rightarrow> str \<times> str option" where
  "split_prefix prefix =
     (if prefix = [] \<or> ends_with ''/'' prefix then (prefix, None)
      else (case rsplit_once CHR ''/'' prefix of
          Some (a, b) \<Rightarrow> (if a \<noteq> [] then a @ ''/'' else a, Some b)
        | None \<Rightarrow> ([], Some prefix)))"

section \<open>Frames\<close>

record list_frame =
  fr_dir :: str
  fr_after :: str

fun descend :: "str \<Rightarrow> str list \<Rightarrow> list_frame list" where
  "descend cur_dir [] = []"
| "descend cur_dir [seg] = [\<lparr>fr_dir = cur_dir, fr_after = seg\<rparr>]"
| "descend cur_dir (seg # segs) = \<lparr>fr_dir = cur_dir, fr_after = seg @ ''/''\<rparr> # descend (cur_dir @ seg @ ''/'') segs"

definition build_stack_from_last :: "str \<Rightarrow> str \<Rightarrow> bool \<Rightarrow> list_frame list" where
  "build_stack_from_last dir_prefix last_key recursive =
     (let start = [\<lparr>fr_dir = dir_prefix, fr_after = []\<rparr>] in
      if \<not> starts_with dir_prefix last_key then start
      else (let rel = trim_start_matches ''/'' (drop (length dir_prefix) last_key) in
        if rel = [] then start
        else if \<not> recursive then
          (let first = hd (split_on CHR ''/'' rel)
           in [\<lparr>fr_dir = dir_prefix, fr_after = (if ends_with ''/'' last_key then first @ ''/'' else first)\<rparr>])
        else (let parts = filter (\<lambda>p. p \<noteq> []) (split_on CHR ''/'' rel)
          in if parts = [] then start else descend dir_prefix parts)))"

record dir_item =
  di_name :: str
  di_sort_key :: str
  di_is_dir :: bool
  di_path :: str

record runtime_frame =
  rf_dir :: str
  rf_after :: str
  rf_entries :: "dir_item list option"
  rf_idx :: nat

definition dir_item_of :: "str \<Rightarrow> str \<times> node \<Rightarrow> dir_item" where
  "dir_item_of dir_fs ent =
     (let name = fst ent; d = is_dir (snd ent)
      in \<lparr>di_name = name, di_sort_key = (if d then name @ ''/'' else name), di_is_dir = d, di_path = path_push dir_fs name\<rparr>)"

definition read_dir_sorted :: "node \<Rightarrow> str \<Rightarrow> str + dir_item list" where
  "read_dir_sorted fs dir_fs =
     (case read_dir fs dir_fs of
        Inl NotFound \<Rightarrow> Inr []
      | Inl PermissionDenied \<Rightarrow> Inl ''permission denied''
      | Inl e \<Rightarrow> Inl (''read_dir failed: '' @ io_text e)
      | Inr es \<Rightarrow> Inr (sort_key di_sort_key (map (dir_item_of dir_fs)
          (filter (\<lambda>(name, n). \<not> (name = [] \<or> name = ''.'' \<or> name = ''..'')) es))))"

definition first_index_after :: "dir_item list \<Rightarrow> str \<Rightarrow> nat" where
  "first_index_after entries after =
     (if after = [] then 0 else length (takeWhile (\<lambda>it. \<not> di_sort_key it > after) entries))"

section \<open>The walk\<close>

record owner_info =
  ow_id :: str
  ow_display_name :: str

record list_object_info =
  lo_key :: str
  lo_last_modified :: str
  lo_etag :: str
  lo_size :: u64
  lo_owner :: "owner_info option"

text \<open>
  What a walk reads: the tree, the configuration and the parameters of the request. The name of a
  user comes from the directory service, and the format of times from the \<open>time\<close> crate.
\<close>

record walk_cfg =
  wc_fs :: node
  wc_root :: str
  wc_bucket :: str
  wc_mpu :: str
  wc_prefix :: str
  wc_leaf :: "str option"
  wc_recursive :: bool
  wc_fetch_owner :: bool
  wc_lookup :: "u32 \<Rightarrow> str option"
  wc_time :: "system_time \<Rightarrow> str"

definition ensure_frame_loaded :: "walk_cfg \<Rightarrow> runtime_frame \<Rightarrow> bool \<Rightarrow> str + runtime_frame" where
  "ensure_frame_loaded c frame is_root =
     (case rf_entries frame of
        Some es \<Rightarrow> Inr frame
      | None \<Rightarrow>
          (case join_object_path (wc_root c) (wc_bucket c) (rf_dir frame) of
             Inl e \<Rightarrow> Inl (''failed to compute dir path: '' @ e)
           | Inr dir_fs \<Rightarrow>
               rbind (read_dir_sorted (wc_fs c) dir_fs) (\<lambda>entries.
                 let entries' = (if is_root then (case wc_leaf c of
                         Some lf \<Rightarrow> filter (\<lambda>it. starts_with lf (di_sort_key it)) entries
                       | None \<Rightarrow> entries) else entries)
                 in Inr (frame\<lparr>rf_idx := first_index_after entries' (rf_after frame), rf_entries := Some entries'\<rparr>))))"

definition owner_of :: "walk_cfg \<Rightarrow> u32 \<Rightarrow> owner_info" where
  "owner_of c uid =
     (let id = show_nat (unat uid)
      in \<lparr>ow_id = id, ow_display_name = (case wc_lookup c uid of Some n \<Rightarrow> n | None \<Rightarrow> id)\<rparr>)"

definition object_info :: "walk_cfg \<Rightarrow> str \<Rightarrow> u64 \<Rightarrow> statx_info \<Rightarrow> list_object_info" where
  "object_info c key sz stx =
     \<lparr>lo_key = key, lo_last_modified = wc_time c (si_mtime stx),
      lo_etag = format_object_etag (si_ino stx) (si_mtime stx) (si_size stx), lo_size = sz,
      lo_owner = (if wc_fetch_owner c then Some (owner_of c (si_uid stx)) else None)\<rparr>"

type_synonym walk_state = "runtime_frame list \<times> list_object_info list \<times> str list"

text \<open>\<open>read_dir(&it.path).map(|rd| rd.next().is_none()).unwrap_or(false)\<close>.\<close>

definition dir_is_empty :: "node \<Rightarrow> str \<Rightarrow> bool" where
  "dir_is_empty fs p = (case read_dir fs p of Inr es \<Rightarrow> es = [] | Inl e \<Rightarrow> False)"

text \<open>
  One turn of the loop; the top of the stack is the head of the list. A directory that cannot be
  read is left out, and so is the directory of the uploads.
\<close>

definition list_item :: "walk_cfg \<Rightarrow> str \<Rightarrow> dir_item \<Rightarrow> walk_state \<Rightarrow> walk_state" where
  "list_item c dir it s =
     (case s of (stack, contents, prefixes) \<Rightarrow>
        if dir = [] \<and> di_is_dir it \<and> di_name it = wc_mpu c then (stack, contents, prefixes)
        else if di_is_dir it then
          (if \<not> wc_recursive c then (stack, contents, prefixes @ [dir @ di_name it @ ''/''])
           else if dir_is_empty (wc_fs c) (di_path it) then
             (case statx_info (do_statx (wc_fs c)) (di_path it) of
                Some stx \<Rightarrow>
                  if starts_with (wc_prefix c) (dir @ di_name it @ ''/'')
                  then (stack, contents @ [object_info c (dir @ di_name it @ ''/'') 0 stx], prefixes)
                  else (stack, contents, prefixes)
              | None \<Rightarrow> (stack, contents, prefixes))
           else (\<lparr>rf_dir = dir @ di_name it @ ''/'', rf_after = [], rf_entries = None, rf_idx = 0\<rparr> # stack, contents, prefixes))
        else (case statx_info (do_statx (wc_fs c)) (di_path it) of
            None \<Rightarrow> (stack, contents, prefixes)
          | Some stx \<Rightarrow>
              if \<not> starts_with (wc_prefix c) (dir @ di_name it) then (stack, contents, prefixes)
              else (stack, contents @ [object_info c (dir @ di_name it) (si_size stx) stx], prefixes)))"

definition list_step :: "walk_cfg \<Rightarrow> walk_state \<Rightarrow> walk_state option" where
  "list_step c s =
     (case s of
        ([], contents, prefixes) \<Rightarrow> None
      | (fr # rest, contents, prefixes) \<Rightarrow>
          (case ensure_frame_loaded c fr (rest = []) of
             Inl e \<Rightarrow> Some (rest, contents, prefixes)
           | Inr fr' \<Rightarrow>
               let entries = the (rf_entries fr') in
               if rf_idx fr' \<ge> length entries then Some (rest, contents, prefixes)
               else (let it = entries ! rf_idx fr'
                 in Some (list_item c (rf_dir fr') it
                      (fr'\<lparr>rf_idx := Suc (rf_idx fr'), rf_after := di_sort_key it\<rparr> # rest, contents, prefixes)))))"

partial_function (option) list_loop :: "walk_cfg \<Rightarrow> nat \<Rightarrow> walk_state \<Rightarrow> walk_state option" where
  "list_loop c max_keys s =
     (if length (fst (snd s)) + length (snd (snd s)) < max_keys
      then (case list_step c s of None \<Rightarrow> Some s | Some s' \<Rightarrow> list_loop c max_keys s')
      else Some s)"

declare list_loop.simps [code]

section \<open>What a walk has still to emit\<close>

datatype emitted = Obj list_object_info | Pre str

fun objs :: "emitted list \<Rightarrow> list_object_info list" where
  "objs [] = []"
| "objs (Obj i # es) = i # objs es"
| "objs (Pre p # es) = objs es"

fun pres :: "emitted list \<Rightarrow> str list" where
  "pres [] = []"
| "pres (Obj i # es) = pres es"
| "pres (Pre p # es) = p # pres es"

lemma objs_append [simp]: "objs (xs @ ys) = objs xs @ objs ys"
  by (induction xs rule: objs.induct) simp_all

lemma pres_append [simp]: "pres (xs @ ys) = pres xs @ pres ys"
  by (induction xs rule: pres.induct) simp_all

lemma length_objs_pres: "length (objs es) + length (pres es) = length es"
  by (induction es rule: objs.induct) simp_all

definition entry_key :: "str \<times> node \<Rightarrow> str" where
  "entry_key e = (if is_dir (snd e) then fst e @ ''/'' else fst e)"

definition sort_entries :: "(str \<times> node) list \<Rightarrow> (str \<times> node) list" where
  "sort_entries es = sort_key entry_key es"

definition stat_of :: "node \<Rightarrow> statx_info" where
  "stat_of n = \<lparr>si_ino = at_ino (node_attrs n), si_size = node_len n, si_uid = at_uid (node_attrs n),
     si_mtime = system_time_from_unix (at_mtime (node_attrs n) div nanos) (word_of_int (at_mtime (node_attrs n) mod nanos))\<rparr>"

lemma size_entry: "e \<in> set es \<Longrightarrow> size (snd e) < size (Dir a sz es)"
  by (induction es) auto

function out_entry :: "walk_cfg \<Rightarrow> str \<Rightarrow> str \<times> node \<Rightarrow> emitted list" where
  "out_entry c d (name, Dir a sz es) =
     (if d = [] \<and> name = wc_mpu c then []
      else if \<not> wc_recursive c then [Pre (d @ name @ ''/'')]
      else if \<not> at_access a then []
      else if es = [] then
        (if starts_with (wc_prefix c) (d @ name @ ''/'')
         then [Obj (object_info c (d @ name @ ''/'') 0 (stat_of (Dir a sz es)))] else [])
      else concat (map (out_entry c (d @ name @ ''/'')) (sort_entries es)))"
| "out_entry c d (name, Reg a t) =
     (if starts_with (wc_prefix c) (d @ name)
      then [Obj (object_info c (d @ name) (node_len (Reg a t)) (stat_of (Reg a t)))] else [])"
| "out_entry c d (name, Dangling a sz) =
     (if starts_with (wc_prefix c) (d @ name)
      then [Obj (object_info c (d @ name) sz (stat_of (Dangling a sz)))] else [])"
  by pat_completeness auto
termination
proof (relation "measure (\<lambda>(c, d, e). size (snd e))", goal_cases)
  case (2 c d name a sz es x)
  then show ?case using size_entry [of x es a sz] by (simp add: sort_entries_def)
qed simp

fun node_work :: "node \<Rightarrow> nat" where
  "node_work (Dir a sz es) = 2 + sum_list (map (\<lambda>e. node_work (snd e)) es)"
| "node_work n = 1"

definition entries_of :: "walk_cfg \<Rightarrow> str \<Rightarrow> (str \<times> node) list option" where
  "entries_of c d =
     (case join_object_path (wc_root c) (wc_bucket c) d of
        Inl e \<Rightarrow> None
      | Inr p \<Rightarrow> (case read_dir (wc_fs c) p of Inr es \<Rightarrow> Some es | Inl e \<Rightarrow> if e = NotFound then Some [] else None))"

definition loaded :: "walk_cfg \<Rightarrow> bool \<Rightarrow> str \<Rightarrow> (str \<times> node) list" where
  "loaded c is_root d =
     (case entries_of c d of
        None \<Rightarrow> []
      | Some es \<Rightarrow> (case (is_root, wc_leaf c) of
            (True, Some lf) \<Rightarrow> filter (\<lambda>e. starts_with lf (entry_key e)) (sort_entries es)
          | _ \<Rightarrow> sort_entries es))"

definition index_after :: "(str \<times> node) list \<Rightarrow> str \<Rightarrow> nat" where
  "index_after es after = (if after = [] then 0 else length (takeWhile (\<lambda>e. \<not> entry_key e > after) es))"

definition frame_entries :: "walk_cfg \<Rightarrow> bool \<Rightarrow> runtime_frame \<Rightarrow> (str \<times> node) list" where
  "frame_entries c is_root f = drop (index_after (loaded c is_root (rf_dir f)) (rf_after f)) (loaded c is_root (rf_dir f))"

fun out_stack :: "walk_cfg \<Rightarrow> runtime_frame list \<Rightarrow> emitted list" where
  "out_stack c [] = []"
| "out_stack c (f # fs) = concat (map (out_entry c (rf_dir f)) (frame_entries c (fs = []) f)) @ out_stack c fs"

fun stack_work :: "walk_cfg \<Rightarrow> runtime_frame list \<Rightarrow> nat" where
  "stack_work c [] = 0"
| "stack_work c (f # fs) = Suc (sum_list (map (\<lambda>e. node_work (snd e)) (frame_entries c (fs = []) f))) + stack_work c fs"

text \<open>A frame that has been loaded holds the entries of its directory, and its index is where its cursor says.\<close>

definition frame_ok :: "walk_cfg \<Rightarrow> bool \<Rightarrow> runtime_frame \<Rightarrow> bool" where
  "frame_ok c is_root f \<longleftrightarrow>
     (case rf_entries f of
        None \<Rightarrow> True
      | Some items \<Rightarrow> \<exists>p. join_object_path (wc_root c) (wc_bucket c) (rf_dir f) = Inr p \<and>
          items = map (dir_item_of p) (loaded c is_root (rf_dir f)) \<and>
          rf_idx f = index_after (loaded c is_root (rf_dir f)) (rf_after f))"

text \<open>The directory of a frame as a key prefix: empty, or with a slash at its end.\<close>

definition dir_ok :: "str \<Rightarrow> bool" where
  "dir_ok d \<longleftrightarrow> d = [] \<or> last d = CHR ''/''"

fun stack_ok :: "walk_cfg \<Rightarrow> runtime_frame list \<Rightarrow> bool" where
  "stack_ok c [] \<longleftrightarrow> True"
| "stack_ok c (f # fs) \<longleftrightarrow> frame_ok c (fs = []) f \<and> stack_ok c fs"

text \<open>A sound configuration: a proper root, and a tree whose names are names.\<close>

definition cfg_ok :: "walk_cfg \<Rightarrow> bool" where
  "cfg_ok c \<longleftrightarrow> proper_root (wc_root c) \<and> CHR 0x00 \<notin> set (wc_root c) \<and> CHR 0x00 \<notin> set (wc_bucket c) \<and> wf_node (wc_fs c)"

lemma insort_key_map: "insort_key f (g x) (map g xs) = map g (insort_key (\<lambda>x. f (g x)) x xs)"
  by (induction xs) auto

lemma sort_key_map: "sort_key f (map g xs) = map g (sort_key (\<lambda>x. f (g x)) xs)"
  by (induction xs) (simp_all add: insort_key_map)

lemma set_sort_entries [simp]: "set (sort_entries es) = set es"
  by (simp add: sort_entries_def)

lemma sort_key_item: "di_sort_key (dir_item_of p e) = entry_key e"
  by (simp add: dir_item_of_def Let_def entry_key_def)

lemma dir_item_of_simps [simp]:
  "di_name (dir_item_of p (name, n)) = name" "di_is_dir (dir_item_of p (name, n)) = is_dir n"
  "di_path (dir_item_of p (name, n)) = path_push p name"
  by (simp_all add: dir_item_of_def Let_def)

lemma read_dir_SomeD:
  assumes "read_dir fs p = Inr es"
  obtains a sz where "node_at fs (components p) = Inr (Dir a sz es)" "at_access a"
  using assms by (auto simp: read_dir_def metadata_def split: sum.splits node.splits if_splits)

lemma read_dir_names:
  assumes "wf_node fs" "read_dir fs p = Inr es"
  shows "distinct (map fst es)" "(name, n) \<in> set es \<Longrightarrow> valid_name name \<and> wf_node n"
proof -
  obtain a sz where "node_at fs (components p) = Inr (Dir a sz es)"
    using read_dir_SomeD [OF assms(2)] by blast
  from wf_node_at [OF assms(1) this] show "distinct (map fst es)" "(name, n) \<in> set es \<Longrightarrow> valid_name name \<and> wf_node n"
    by auto
qed

lemma read_dir_sorted_eq:
  assumes "wf_node fs" "read_dir fs p = Inr es"
  shows "read_dir_sorted fs p = Inr (map (dir_item_of p) (sort_entries es))"
proof -
  have "filter (\<lambda>(name, n). \<not> (name = [] \<or> name = ''.'' \<or> name = ''..'')) es = es"
    using read_dir_names(2) [OF assms] by (intro filter_True) (auto dest: valid_nameD)
  then show ?thesis
    using assms(2) by (simp only: read_dir_sorted_def sum.case sort_key_map sort_key_item sort_entries_def)
qed

lemma first_index_items: "first_index_after (map (dir_item_of p) es) after = index_after es after"
  by (simp add: first_index_after_def index_after_def takeWhile_map o_def sort_key_item)

lemma load_failed:
  assumes "rf_entries f = None" "entries_of c (rf_dir f) = None"
  shows "isl (ensure_frame_loaded c f is_root)"
  using assms by (auto simp: ensure_frame_loaded_def entries_of_def read_dir_sorted_def split: sum.splits io_kind.splits if_splits)

lemma load_done:
  assumes "cfg_ok c" "rf_entries f = None" "entries_of c (rf_dir f) = Some es"
  obtains p where "join_object_path (wc_root c) (wc_bucket c) (rf_dir f) = Inr p"
    "ensure_frame_loaded c f is_root = Inr (f\<lparr>rf_idx := index_after (loaded c is_root (rf_dir f)) (rf_after f),
       rf_entries := Some (map (dir_item_of p) (loaded c is_root (rf_dir f)))\<rparr>)"
proof -
  obtain p where p: "join_object_path (wc_root c) (wc_bucket c) (rf_dir f) = Inr p"
    using assms(3) by (auto simp: entries_of_def split: sum.splits)
  have sorted: "read_dir_sorted (wc_fs c) p = Inr (map (dir_item_of p) (sort_entries es))"
  proof (cases "read_dir (wc_fs c) p")
    case (Inl e)
    with assms(3) p show ?thesis
      by (auto simp: entries_of_def read_dir_sorted_def sort_entries_def split: if_splits)
  next
    case (Inr es')
    with assms(1,3) p read_dir_sorted_eq [OF _ Inr] show ?thesis
      by (simp add: entries_of_def cfg_ok_def)
  qed
  have "(if is_root then (case wc_leaf c of
            Some lf \<Rightarrow> filter (\<lambda>it. starts_with lf (di_sort_key it)) (map (dir_item_of p) (sort_entries es))
          | None \<Rightarrow> map (dir_item_of p) (sort_entries es)) else map (dir_item_of p) (sort_entries es))
      = map (dir_item_of p) (loaded c is_root (rf_dir f))"
    by (cases "wc_leaf c") (simp_all add: loaded_def assms(3) filter_map o_def sort_key_item)
  then show thesis
    using that [OF p] assms(2) p sorted by (simp add: ensure_frame_loaded_def Let_def first_index_items)
qed

section \<open>Paths of entries\<close>

lemma join_proper:
  assumes "proper_root root" "join_object_path root bucket d = Inr p"
  shows "p \<noteq> []" "last p \<noteq> CHR ''/''"
proof -
  have ok: "safe_segment bucket" "\<forall>q\<in>set (key_segments d). safe_segment q"
    "p = root @ concat (map (\<lambda>q. CHR ''/'' # q) (bucket # key_segments d))"
    using assms join_object_path_ok by blast+
  define qs where "qs = bucket # key_segments d"
  have qs: "qs \<noteq> []" "\<forall>q\<in>set qs. safe_segment q"
    using ok(1,2) by (auto simp: qs_def)
  then obtain ys y where y: "qs = ys @ [y]" "safe_segment y"
    by (cases qs rule: rev_cases) auto
  with ok(3) show "p \<noteq> []" "last p \<noteq> CHR ''/''"
    unfolding qs_def [symmetric] by (auto simp: safe_segment_def last_append dest: last_in_set split: if_splits)
qed

lemma components_push:
  assumes "p \<noteq> []" "last p \<noteq> CHR ''/''" "valid_name name"
  shows "components (path_push p name) = components p @ [name]"
proof -
  note n = valid_nameD [OF assms(3)]
  have "path_push p name = p @ concat (map (\<lambda>q. CHR ''/'' # q) [name])"
    using path_push_plain(1) [OF assms(1,2) n(4,1)] by simp
  then show ?thesis
    using split_on_segments [of "[name]" p] n by (simp add: components_def walk_append)
qed

lemma entry_node:
  assumes "cfg_ok c" "join_object_path (wc_root c) (wc_bucket c) d = Inr p" "read_dir (wc_fs c) p = Inr es" "(name, n) \<in> set es"
  shows "node_at (wc_fs c) (components (path_push p name)) = Inr n" "valid_name name" "wf_node n"
    "CHR 0x00 \<notin> set (path_push p name)" "path_push p name \<noteq> []"
proof -
  have c: "proper_root (wc_root c)" "wf_node (wc_fs c)"
    using assms(1) by (simp_all add: cfg_ok_def)
  note p = join_proper [OF c(1) assms(2)]
  note names = read_dir_names [OF c(2) assms(3)]
  show name: "valid_name name" "wf_node n"
    using names(2) assms(4) by blast+
  obtain a sz where "node_at (wc_fs c) (components p) = Inr (Dir a sz es)"
    using read_dir_SomeD [OF assms(3)] by blast
  then show "node_at (wc_fs c) (components (path_push p name)) = Inr n"
    unfolding components_push [OF p name(1)] node_at_append using names(1) assms(4) by simp
  note n = valid_nameD [OF name(1)]
  have "p = wc_root c @ concat (map (\<lambda>q. CHR ''/'' # q) (wc_bucket c # key_segments d))" "\<forall>q\<in>set (key_segments d). CHR 0x00 \<notin> set q"
    using assms(2) join_object_path_ok [OF c(1)] by blast+
  then have "CHR 0x00 \<notin> set p"
    using assms(1) by (auto simp: cfg_ok_def)
  then show "CHR 0x00 \<notin> set (path_push p name)" "path_push p name \<noteq> []"
    using path_push_plain(1) [OF p n(4,1)] n(5) by auto
qed

section \<open>Cursors\<close>

lemma entry_key_inj:
  assumes "valid_name (fst e)" "valid_name (fst e')" "entry_key e = entry_key e'"
  shows "fst e = fst e'"
proof -
  have "CHR ''/'' \<notin> set (fst e)" "CHR ''/'' \<notin> set (fst e')"
    using valid_nameD [OF assms(1)] valid_nameD [OF assms(2)] by blast+
  moreover have "x @ ''/'' \<noteq> y" if "CHR ''/'' \<notin> set y" for x y
    using that by auto
  ultimately show ?thesis
    using assms(3) by (simp add: entry_key_def split: if_splits)
qed

lemma loaded_subset:
  assumes "cfg_ok c" "e \<in> set (loaded c r d)"
  obtains p es where "join_object_path (wc_root c) (wc_bucket c) d = Inr p" "read_dir (wc_fs c) p = Inr es" "e \<in> set es"
proof -
  obtain es where es: "entries_of c d = Some es" "e \<in> set es"
    using assms(2) by (cases "entries_of c d"; cases r; cases "wc_leaf c") (auto simp: loaded_def)
  then show thesis
    using that by (auto simp: entries_of_def split: sum.splits if_splits)
qed

lemma sort_entries_strict:
  assumes "distinct (map fst es)" "\<forall>e\<in>set es. valid_name (fst e)"
  shows "sorted_wrt (<) (map entry_key (sort_entries es))"
proof -
  have "inj_on entry_key (set es)"
  proof (rule inj_onI)
    fix x y
    assume "x \<in> set es" "y \<in> set es" "entry_key x = entry_key y"
    with assms(2) have "fst x = fst y" by (intro entry_key_inj) auto
    with assms(1) \<open>x \<in> set es\<close> \<open>y \<in> set es\<close> show "x = y"
      by (simp add: distinct_map inj_on_def)
  qed
  moreover have "distinct es"
    using assms(1) by (simp add: distinct_map)
  ultimately have "distinct (map entry_key (sort_entries es))"
    by (simp add: distinct_map sort_entries_def)
  then show ?thesis
    by (simp add: strict_sorted_iff sort_entries_def)
qed

lemma loaded_strict:
  assumes "cfg_ok c"
  shows "sorted_wrt (<) (map entry_key (loaded c r d))"
proof (cases "loaded c r d")
  case (Cons e rest)
  then obtain p es where p: "join_object_path (wc_root c) (wc_bucket c) d = Inr p" "read_dir (wc_fs c) p = Inr es"
    by (metis loaded_subset [OF assms] list.set_intros(1))
  note names = read_dir_names [OF _ p(2)]
  have "sorted_wrt (<) (map entry_key (sort_entries es))"
    by (rule sort_entries_strict) (use names assms in \<open>auto simp: cfg_ok_def\<close>)
  then have "sorted_wrt (<) (map entry_key (filter P (sort_entries es)))" for P
    by (simp add: sorted_wrt_map sorted_wrt_filter)
  moreover have "entries_of c d = Some es"
    using p by (simp add: entries_of_def)
  ultimately show ?thesis
    using \<open>sorted_wrt (<) (map entry_key (sort_entries es))\<close>
    by (cases r; cases "wc_leaf c") (simp_all add: loaded_def)
qed simp

lemma loaded_names:
  assumes "cfg_ok c" "e \<in> set (loaded c r d)"
  shows "valid_name (fst e)" "entry_key e \<noteq> []"
proof -
  show v: "valid_name (fst e)"
    using assms entry_node(2) [OF assms(1)] by (cases e) (auto elim!: loaded_subset [OF assms(1)])
  show "entry_key e \<noteq> []"
    using valid_nameD [OF v] by (simp add: entry_key_def)
qed

lemma index_after_nth:
  assumes "cfg_ok c" "i < length (loaded c r d)"
  shows "index_after (loaded c r d) (entry_key (loaded c r d ! i)) = Suc i"
proof -
  let ?L = "loaded c r d"
  have sorted: "j < k \<Longrightarrow> k < length ?L \<Longrightarrow> entry_key (?L ! j) < entry_key (?L ! k)" for j k
    using loaded_strict [OF assms(1), of r d] by (simp add: sorted_wrt_iff_nth_less)
  have "takeWhile (\<lambda>e. \<not> entry_key e > entry_key (?L ! i)) ?L = take (Suc i) ?L"
  proof (rule takeWhile_eq_take_P_nth)
    fix j
    assume "j < Suc i" "j < length ?L"
    then show "\<not> entry_key (?L ! i) < entry_key (?L ! j)"
      using sorted [of j i] assms(2) by (cases "j = i") auto
  qed (use sorted [of i "Suc i"] in simp)
  then show ?thesis
    using loaded_names(2) [OF assms(1) nth_mem [OF assms(2)]] assms(2) by (simp add: index_after_def)
qed

lemma hd_split: "hd (split_on c s) = takeWhile (\<lambda>x. x \<noteq> c) s"
  by (induction s) (auto split: list.splits)

lemma hd_split_child:
  assumes "dir_ok d" "valid_name name"
  shows "hd (split_on CHR ''/'' (d @ name @ ''/'')) = (if d = [] then name else hd (split_on CHR ''/'' d))"
proof (cases d rule: rev_cases)
  case Nil
  with valid_nameD [OF assms(2)] show ?thesis
    by (simp add: split_on_append)
next
  case (snoc d' x)
  then have "d = d' @ ''/''" using assms(1) by (simp add: dir_ok_def)
  then show ?thesis
    by (auto simp: hd_split takeWhile_append)
qed

text \<open>No frame of a walk is in the reserved directory.\<close>

definition open_dir :: "walk_cfg \<Rightarrow> runtime_frame \<Rightarrow> bool" where
  "open_dir c f \<longleftrightarrow> dir_ok (rf_dir f) \<and> hd (split_on CHR ''/'' (rf_dir f)) \<noteq> wc_mpu c"

section \<open>One turn of the loop\<close>

definition out_frame :: "walk_cfg \<Rightarrow> bool \<Rightarrow> runtime_frame \<Rightarrow> emitted list" where
  "out_frame c r f = concat (map (out_entry c (rf_dir f)) (frame_entries c r f))"

definition frame_work :: "walk_cfg \<Rightarrow> bool \<Rightarrow> runtime_frame \<Rightarrow> nat" where
  "frame_work c r f = Suc (sum_list (map (\<lambda>e. node_work (snd e)) (frame_entries c r f)))"

lemma stack_Cons [simp]:
  "out_stack c (f # fs) = out_frame c (fs = []) f @ out_stack c fs"
  "stack_work c (f # fs) = frame_work c (fs = []) f + stack_work c fs"
  by (simp_all add: out_frame_def frame_work_def)

declare out_stack.simps(2) [simp del] stack_work.simps(2) [simp del]

lemma sum_work_sort: "sum_list (map (\<lambda>e. node_work (snd e)) (sort_entries es)) = sum_list (map (\<lambda>e. node_work (snd e)) es)"
proof -
  have "mset (map (\<lambda>e. node_work (snd e)) (sort_entries es)) = mset (map (\<lambda>e. node_work (snd e)) es)"
    by (simp add: sort_entries_def)
  then show ?thesis
    by (metis sum_mset_sum_list)
qed

lemma key_segments_child:
  assumes "dir_ok d" "valid_name name"
  shows "key_segments (d @ name @ ''/'') = key_segments d @ [name]"
proof -
  note n = valid_nameD [OF assms(2)]
  have name: "split_on CHR ''/'' (name @ ''/'') = [name, []]"
    using split_on_append [OF n(4), of "[]"] by simp
  show ?thesis
  proof (cases d rule: rev_cases)
    case Nil
    with name n show ?thesis by (simp add: key_segments_def)
  next
    case (snoc d' x)
    then have d: "d = d' @ ''/''" using assms(1) by (simp add: dir_ok_def)
    have split: "split_on c (s @ c # t) = split_on c s @ split_on c t" for c s and t :: str
      by (induction s) (auto split: list.splits)
    show ?thesis
      using split [of "CHR ''/''" d' "name @ ''/''"] split [of "CHR ''/''" d' "[]"] name n
      by (simp add: key_segments_def d)
  qed
qed

lemma entries_of_child:
  assumes "cfg_ok c" "dir_ok d" "(name, Dir a sz es) \<in> set (loaded c r d)"
  shows "entries_of c (d @ name @ ''/'') = (if at_access a then Some es else None)"
proof -
  obtain p es' where p: "join_object_path (wc_root c) (wc_bucket c) d = Inr p" "read_dir (wc_fs c) p = Inr es'" "(name, Dir a sz es) \<in> set es'"
    using loaded_subset [OF assms(1,3)] by blast
  have root: "proper_root (wc_root c)"
    using assms(1) by (simp add: cfg_ok_def)
  note node = entry_node [OF assms(1) p]
  note n = valid_nameD [OF node(2)]
  have seg: "key_segments (d @ name @ ''/'') = key_segments d @ [name]"
    by (rule key_segments_child [OF assms(2) node(2)])
  have "safe_segment (wc_bucket c)" "\<forall>q\<in>set (key_segments d). safe_segment q \<and> CHR 0x00 \<notin> set q"
    using p(1) join_object_path_ok [OF root] by blast+
  then obtain q where q: "join_object_path (wc_root c) (wc_bucket c) (d @ name @ ''/'') = Inr q"
    using join_object_path_ok [OF root, of "wc_bucket c" "d @ name @ ''/''"] node(2) unfolding seg
    by (auto simp: valid_name_def)
  have "components q = components (path_push p name)"
    using components_join [OF root q] components_join [OF root p(1)] components_push [OF join_proper [OF root p(1)] node(2)]
    by (simp add: seg)
  then have "node_at (wc_fs c) (components q) = Inr (Dir a sz es)"
    using node(1) by simp
  then have "read_dir (wc_fs c) q = (if at_access a then Inr es else Inl PermissionDenied)"
    by (simp add: read_dir_def metadata_def)
  with q show ?thesis
    by (simp add: entries_of_def)
qed

lemma entry_calls:
  assumes "node_at fs (components q) = Inr n" "CHR 0x00 \<notin> set q" "q \<noteq> []"
  shows "statx_info (do_statx fs) q = Some (stat_of n)"
    "dir_is_empty fs q \<longleftrightarrow> (\<exists>a sz. n = Dir a sz [] \<and> at_access a)"
  using assms by (cases n; auto simp: statx_info_def do_statx_def metadata_def symlink_metadata_def stat_of_def dir_is_empty_def read_dir_def)+

lemma list_item_out:
  assumes "cfg_ok c" "dir_ok d" "e \<in> set (loaded c r d)"
    and p: "join_object_path (wc_root c) (wc_bucket c) d = Inr p"
  obtains x new where
    "list_item c d (dir_item_of p e) (stack, cs, ps) = (new @ stack, cs @ objs x, ps @ pres x)"
    "out_entry c d e = x @ concat (map (out_frame c False) new)"
    "sum_list (map (frame_work c False) new) < node_work (snd e)" "length x \<le> 1" "length new \<le> 1"
    "\<forall>f\<in>set new. frame_ok c False f \<and> dir_ok (rf_dir f) \<and> (hd (split_on CHR ''/'' d) \<noteq> wc_mpu c \<longrightarrow> open_dir c f)"
proof -
  obtain name n where e: "e = (name, n)" by fastforce
  obtain p' es' where "join_object_path (wc_root c) (wc_bucket c) d = Inr p'" "read_dir (wc_fs c) p' = Inr es'" "e \<in> set es'"
    using loaded_subset [OF assms(1,3)] by blast
  with p e have es': "read_dir (wc_fs c) p = Inr es'" "(name, n) \<in> set es'"
    by simp_all
  note node = entry_node [OF assms(1) p es']
  note calls = entry_calls [OF node(1,4,5)]
  show thesis
  proof (cases "\<exists>a sz es. n = Dir a sz es \<and> \<not> (d = [] \<and> name = wc_mpu c) \<and> wc_recursive c \<and> \<not> (at_access a \<and> es = [])")
    case True
    then obtain a sz es where n: "n = Dir a sz es" "\<not> (d = [] \<and> name = wc_mpu c)" "wc_recursive c" "\<not> (at_access a \<and> es = [])"
      by blast
    let ?child = "\<lparr>rf_dir = d @ name @ ''/'', rf_after = [], rf_entries = None, rf_idx = 0\<rparr>"
    have child: "frame_entries c False ?child = (if at_access a then sort_entries es else [])"
      using entries_of_child [OF assms(1,2) assms(3) [unfolded e n(1)]] by (simp add: frame_entries_def loaded_def index_after_def)
    show thesis
    proof (rule that [of "[?child]" "[]"])
      show "list_item c d (dir_item_of p e) (stack, cs, ps) = ([?child] @ stack, cs @ objs [], ps @ pres [])"
        using n calls by (auto simp: list_item_def e)
      show "out_entry c d e = [] @ concat (map (out_frame c False) [?child])"
        using n by (auto simp: e out_frame_def child)
      show "sum_list (map (frame_work c False) [?child]) < node_work (snd e)"
        using n by (simp add: e frame_work_def child sum_work_sort)
      have "dir_ok (d @ name @ ''/'')" by (simp add: dir_ok_def)
      then show "\<forall>f\<in>set [?child]. frame_ok c False f \<and> dir_ok (rf_dir f) \<and> (hd (split_on CHR ''/'' d) \<noteq> wc_mpu c \<longrightarrow> open_dir c f)"
        using n(2) hd_split_child [OF assms(2) node(2)] by (simp add: frame_ok_def open_dir_def)
    qed simp_all
  next
    case False
    then have plain: "d = [] \<and> name = wc_mpu c \<or> \<not> wc_recursive c \<or> at_access a \<and> es = []" if "n = Dir a sz es" for a sz es
      using that by blast
    have dir: "list_item c d (dir_item_of p e) (stack, cs, ps) = (stack, cs @ objs (out_entry c d e), ps @ pres (out_entry c d e)) \<and>
        length (out_entry c d e) \<le> 1" if n: "n = Dir a sz es" for a sz es
      using plain [OF n] calls by (elim disjE conjE) (simp_all add: list_item_def e n)
    have "list_item c d (dir_item_of p e) (stack, cs, ps) = (stack, cs @ objs (out_entry c d e), ps @ pres (out_entry c d e)) \<and>
        length (out_entry c d e) \<le> 1"
      using dir calls by (cases n) (simp_all add: list_item_def e stat_of_def)
    moreover have "0 < node_work n" by (cases n) simp_all
    ultimately show thesis
      by (intro that [of "[]" "out_entry c d e"]) (simp_all add: e)
  qed
qed

lemma frame_advance:
  assumes "cfg_ok c" "i = index_after (loaded c r (rf_dir f)) (rf_after f)" "i < length (loaded c r (rf_dir f))" "rf_dir f' = rf_dir f"
    and "rf_after f' = entry_key (loaded c r (rf_dir f) ! i)"
  shows "frame_entries c r f = loaded c r (rf_dir f) ! i # frame_entries c r f'"
    "index_after (loaded c r (rf_dir f')) (rf_after f') = Suc i"
  using assms index_after_nth [OF assms(1,3)] by (simp_all add: frame_entries_def Cons_nth_drop_Suc)

lemma stack_ok_append: "fs \<noteq> [] \<Longrightarrow> length new \<le> 1 \<Longrightarrow> stack_ok c (new @ fs) \<longleftrightarrow> (\<forall>f\<in>set new. frame_ok c False f) \<and> stack_ok c fs"
  by (cases new) auto

lemma stack_append:
  assumes "fs \<noteq> []" "length new \<le> 1"
  shows "out_stack c (new @ fs) = concat (map (out_frame c False) new) @ out_stack c fs"
    "stack_work c (new @ fs) = sum_list (map (frame_work c False) new) + stack_work c fs"
  using assms by (cases new; simp)+

lemma list_step_load:
  assumes "cfg_ok c" "frame_ok c r f"
  obtains (failed) e where "ensure_frame_loaded c f r = Inl e" "frame_entries c r f = []"
  | (ready) f' p where "ensure_frame_loaded c f r = Inr f'" "rf_dir f' = rf_dir f" "rf_after f' = rf_after f"
      "join_object_path (wc_root c) (wc_bucket c) (rf_dir f) = Inr p"
      "rf_entries f' = Some (map (dir_item_of p) (loaded c r (rf_dir f)))"
      "rf_idx f' = index_after (loaded c r (rf_dir f)) (rf_after f)"
proof (cases "rf_entries f")
  case (Some items)
  with assms(2) ready [of f] show thesis
    by (auto simp: frame_ok_def ensure_frame_loaded_def)
next
  case None
  show thesis
  proof (cases "entries_of c (rf_dir f)")
    case None': None
    with load_failed [OF None None'] failed show thesis
      by (auto simp: isl_def frame_entries_def loaded_def)
  next
    case (Some es)
    obtain p where p: "join_object_path (wc_root c) (wc_bucket c) (rf_dir f) = Inr p"
      "ensure_frame_loaded c f r = Inr (f\<lparr>rf_idx := index_after (loaded c r (rf_dir f)) (rf_after f),
         rf_entries := Some (map (dir_item_of p) (loaded c r (rf_dir f)))\<rparr>)"
      by (rule load_done [OF assms(1) None Some])
    show thesis
      by (rule ready [OF p(2) _ _ p(1)]) simp_all
  qed
qed

lemma list_step_out:
  assumes "cfg_ok c" "stack_ok c (f # fs)" "dir_ok (rf_dir f)" "list_step c (f # fs, cs, ps) = Some (st', cs', ps')"
  shows "\<exists>x top. st' = top @ fs \<and> out_stack c (f # fs) = x @ out_stack c st' \<and> cs' = cs @ objs x \<and> ps' = ps @ pres x \<and>
    length x \<le> 1 \<and> stack_ok c st' \<and> (\<forall>g\<in>set top. dir_ok (rf_dir g) \<and> (open_dir c f \<longrightarrow> open_dir c g)) \<and> stack_work c st' < stack_work c (f # fs)"
proof -
  let ?r = "fs = []"
  let ?L = "loaded c ?r (rf_dir f)"
  let ?i = "index_after ?L (rf_after f)"
  have ok: "frame_ok c ?r f" "stack_ok c fs"
    using assms(2) by simp_all
  have pop: ?thesis if "frame_entries c ?r f = []" "st' = fs" "cs' = cs" "ps' = ps"
    using that ok by (intro exI [of _ "[]"]) (simp add: out_frame_def frame_work_def)
  show ?thesis
  proof (cases rule: list_step_load [OF assms(1) ok(1)])
    case (1 e)
    with assms(4) show ?thesis by (intro pop) (simp_all add: list_step_def)
  next
    case (2 f' p)
    show ?thesis
    proof (cases "?i < length ?L")
      case False
      with 2 assms(4) show ?thesis
        by (intro pop) (simp_all add: list_step_def frame_entries_def)
    next
      case True
      define e where "e = ?L ! ?i"
      define f2 where "f2 = f'\<lparr>rf_idx := Suc ?i, rf_after := entry_key e\<rparr>"
      have e: "e \<in> set ?L" using True by (simp add: e_def)
      obtain x new where x: "list_item c (rf_dir f) (dir_item_of p e) (f2 # fs, cs, ps) = (new @ f2 # fs, cs @ objs x, ps @ pres x)"
        "out_entry c (rf_dir f) e = x @ concat (map (out_frame c False) new)"
        "sum_list (map (frame_work c False) new) < node_work (snd e)" "length x \<le> 1" "length new \<le> 1" "\<forall>g\<in>set new. frame_ok c False g \<and> dir_ok (rf_dir g) \<and> (hd (split_on CHR ''/'' (rf_dir f)) \<noteq> wc_mpu c \<longrightarrow> open_dir c g)"
        by (rule list_item_out [OF assms(1,3) e 2(4)])
      have res: "st' = new @ f2 # fs" "cs' = cs @ objs x" "ps' = ps @ pres x"
        using assms(4) True 2 x(1) by (simp_all add: list_step_def Let_def sort_key_item f2_def e_def)
      have adv: "frame_entries c ?r f = e # frame_entries c ?r f2" "index_after (loaded c ?r (rf_dir f2)) (rf_after f2) = Suc ?i"
        using frame_advance [OF assms(1) refl True, of f2] 2 by (simp_all add: f2_def e_def)
      have "frame_ok c ?r f2"
        using adv(2) 2 by (simp add: frame_ok_def f2_def)
      moreover have "rf_dir f2 = rf_dir f" using 2 by (simp add: f2_def)
      ultimately show ?thesis
        using ok(2) x adv(1) assms(3) by (intro exI [of _ x] exI [of _ "new @ [f2]"]) (simp add: res stack_append stack_ok_append out_frame_def frame_work_def open_dir_def)
    qed
  qed
qed

section \<open>The loop ends\<close>

text \<open>
  A continuation token comes from the client, so the directory of a frame may be any text. The
  frames a walk pushes are sound, so the entries left in the others bound what is to come.
\<close>

fun odd_work :: "walk_cfg \<Rightarrow> runtime_frame list \<Rightarrow> nat" where
  "odd_work c [] = 0"
| "odd_work c (f # fs) = (if dir_ok (rf_dir f) then 0 else Suc (length (frame_entries c (fs = []) f))) + odd_work c fs"

lemma odd_work_append: "\<forall>f\<in>set new. dir_ok (rf_dir f) \<Longrightarrow> odd_work c (new @ fs) = odd_work c fs"
  by (induction new) simp_all

lemma list_item_stack:
  obtains new cs' ps' where "list_item c d it (stack, cs, ps) = (new @ stack, cs', ps')" "length new \<le> 1"
    "\<forall>f\<in>set new. dir_ok (rf_dir f) \<and> rf_entries f = None"
proof -
  let ?child = "\<lparr>rf_dir = d @ di_name it @ ''/'', rf_after = [], rf_entries = None, rf_idx = 0\<rparr>"
  have "fst (list_item c d it (stack, cs, ps)) \<in> {[] @ stack, [?child] @ stack}"
    by (auto simp: list_item_def split: option.splits)
  moreover have "dir_ok (rf_dir ?child)" by (simp add: dir_ok_def)
  ultimately show thesis
    using that by (cases "list_item c d it (stack, cs, ps)") fastforce
qed

lemma list_step_odd:
  assumes "cfg_ok c" "stack_ok c (f # fs)" "\<not> dir_ok (rf_dir f)" "list_step c (f # fs, cs, ps) = Some (st', cs', ps')"
  shows "stack_ok c st' \<and> odd_work c st' < odd_work c (f # fs)"
proof -
  let ?r = "fs = []"
  let ?L = "loaded c ?r (rf_dir f)"
  let ?i = "index_after ?L (rf_after f)"
  have ok: "frame_ok c ?r f" "stack_ok c fs"
    using assms(2) by simp_all
  show ?thesis
  proof (cases rule: list_step_load [OF assms(1) ok(1)])
    case (1 e)
    with assms(3,4) ok show ?thesis by (simp add: list_step_def)
  next
    case (2 f' p)
    show ?thesis
    proof (cases "?i < length ?L")
      case False
      with 2 assms(3,4) ok show ?thesis by (simp add: list_step_def)
    next
      case True
      define it where "it = dir_item_of p (?L ! ?i)"
      define f2 where "f2 = f'\<lparr>rf_idx := Suc ?i, rf_after := entry_key (?L ! ?i)\<rparr>"
      obtain new cs2 ps2 where new: "list_item c (rf_dir f) it (f2 # fs, cs, ps) = (new @ f2 # fs, cs2, ps2)" "length new \<le> 1"
        "\<forall>f\<in>set new. dir_ok (rf_dir f) \<and> rf_entries f = None"
        by (rule list_item_stack)
      have st': "st' = new @ f2 # fs"
        using assms(4) True 2 new(1) by (simp add: list_step_def Let_def sort_key_item f2_def it_def)
      have adv: "frame_entries c ?r f = (?L ! ?i) # frame_entries c ?r f2" "index_after (loaded c ?r (rf_dir f2)) (rf_after f2) = Suc ?i"
        using frame_advance [OF assms(1) refl True, of f2] 2 by (simp_all add: f2_def)
      have "frame_ok c ?r f2" "rf_dir f2 = rf_dir f"
        using adv(2) 2 by (simp_all add: frame_ok_def f2_def)
      moreover have "\<forall>f\<in>set new. frame_ok c False f"
        using new(3) by (simp add: frame_ok_def)
      ultimately show ?thesis
        using ok(2) new(2,3) adv(1) assms(3) by (simp add: st' stack_ok_append odd_work_append)
    qed
  qed
qed

lemma list_loop_ends:
  assumes "cfg_ok c"
  shows "stack_ok c st \<Longrightarrow> \<exists>s'. list_loop c m (st, cs, ps) = Some s'"
proof (induction "(odd_work c st, stack_work c st)" arbitrary: st cs ps rule: wf_induct_rule [OF wf_lex_prod [OF wf_less_than wf_less_than]])
  case (1 st cs ps)
  show ?case
  proof (cases "list_step c (st, cs, ps)")
    case None
    then show ?thesis by (subst list_loop.simps) simp
  next
    case (Some s')
    obtain st' cs' ps' where s': "s' = (st', cs', ps')" by (cases s')
    obtain f fs where st: "st = f # fs"
      using Some by (cases st) (auto simp: list_step_def)
    note step = Some [unfolded s' st]
    have less: "odd_work c st' < odd_work c st \<or> odd_work c st' = odd_work c st \<and> stack_work c st' < stack_work c st" "stack_ok c st'"
    proof -
      show "stack_ok c st'" "odd_work c st' < odd_work c st \<or> odd_work c st' = odd_work c st \<and> stack_work c st' < stack_work c st"
        using list_step_out [OF assms "1.prems" [unfolded st] _ step] list_step_odd [OF assms "1.prems" [unfolded st] _ step]
        by (cases "dir_ok (rf_dir f)"; force simp: st odd_work_append)+
    qed
    then have "\<exists>s''. list_loop c m (st', cs', ps') = Some s''"
      by (intro "1.hyps") auto
    then show ?thesis
      using Some s' by (subst list_loop.simps) auto
  qed
qed

lemma list_loop_out:
  assumes "cfg_ok c"
  shows "list_loop c m (st, cs, ps) = Some (st', cs', ps') \<Longrightarrow> stack_ok c st \<Longrightarrow> \<forall>f\<in>set st. open_dir c f \<Longrightarrow>
    length cs + length ps \<le> m \<Longrightarrow>
    \<exists>x. out_stack c st = x @ out_stack c st' \<and> cs' = cs @ objs x \<and> ps' = ps @ pres x \<and> stack_ok c st' \<and>
      (\<forall>f\<in>set st'. open_dir c f) \<and> length cs + length ps + length x \<le> m \<and>
      (length cs + length ps + length x = m \<or> st' = [])"
proof (induction "stack_work c st" arbitrary: st cs ps rule: less_induct)
  case less
  show ?case
  proof (cases "length cs + length ps < m \<and> st \<noteq> []")
    case False
    then have "list_loop c m (st, cs, ps) = Some (st, cs, ps)"
      by (subst list_loop.simps) (auto simp: list_step_def)
    with less.prems False show ?thesis
      by (intro exI [of _ "[]"]) auto
  next
    case True
    then obtain f fs where st: "st = f # fs" by (cases st) auto
    have "list_step c (st, cs, ps) \<noteq> None"
      by (auto simp: st list_step_def Let_def simp del: split_paired_Ex split: sum.splits)
    then obtain s1 where "list_step c (f # fs, cs, ps) = Some s1"
      unfolding st by blast
    then obtain st1 cs1 ps1 where step: "list_step c (f # fs, cs, ps) = Some (st1, cs1, ps1)"
      by (cases s1) simp
    have loop: "list_loop c m (st1, cs1, ps1) = Some (st', cs', ps')"
      using less.prems(1) True step by (subst (asm) list_loop.simps) (simp add: st)
    obtain x top where x: "st1 = top @ fs" "out_stack c st = x @ out_stack c st1" "cs1 = cs @ objs x" "ps1 = ps @ pres x" "length x \<le> 1"
      "stack_ok c st1" "\<forall>g\<in>set top. dir_ok (rf_dir g) \<and> (open_dir c f \<longrightarrow> open_dir c g)" "stack_work c st1 < stack_work c st"
      using list_step_out [OF assms _ _ step] less.prems(2,3) unfolding st by (auto simp: open_dir_def)
    have "length cs1 + length ps1 = length cs + length ps + length x"
      using length_objs_pres [of x] by (simp add: x(3,4))
    moreover have "\<forall>f\<in>set st1. open_dir c f"
      using x(1,7) less.prems(3) by (auto simp: st)
    ultimately show ?thesis
      using less.hyps [OF x(8) loop x(6)] x(2-5) True by auto
  qed
qed

end
