(* ===== verification/Listing_Order.thy ===== *)
theory Listing_Order
  imports Listing
begin

text \<open>
  What a walk emits, in terms of the tree alone: every key below the directory it starts in, once,
  and in the order of the bytes.
\<close>

text \<open>The keys of a tree: its files, and its empty directories with a slash.\<close>

function tree_keys :: "str \<Rightarrow> str \<times> node \<Rightarrow> str set" where
  "tree_keys d (name, Dir a sz es) =
     (if es = [] then {d @ name @ ''/''} else (\<Union>e\<in>set es. tree_keys (d @ name @ ''/'') e))"
| "tree_keys d (name, Reg a t) = {d @ name}"
| "tree_keys d (name, Dangling a sz) = {d @ name}"
  by pat_completeness auto
termination
proof (relation "measure (\<lambda>(d, e). size (snd e))", goal_cases)
  case (2 d name a sz es x)
  then show ?case using size_entry [of x es a sz] by simp
qed simp

fun all_access :: "node \<Rightarrow> bool" where
  "all_access (Dir a sz es) \<longleftrightarrow> at_access a \<and> (\<forall>e\<in>set es. all_access (snd e))"
| "all_access n \<longleftrightarrow> True"

lemma object_info_key [simp]: "lo_key (object_info c k sz stx) = k"
  by (simp add: object_info_def)

definition keys_of :: "emitted list \<Rightarrow> str list" where
  "keys_of es = map lo_key (objs es)"

lemma keys_of_append [simp]: "keys_of (xs @ ys) = keys_of xs @ keys_of ys" "keys_of [] = []"
  by (simp_all add: keys_of_def)

lemma keys_of_concat: "keys_of (concat xss) = concat (map keys_of xss)"
  by (induction xss) simp_all

lemma pres_concat: "pres (concat xss) = concat (map pres xss)"
  by (induction xss) simp_all

section \<open>The keys\<close>

lemma out_entry_keys:
  "wc_recursive c \<Longrightarrow> all_access (snd e) \<Longrightarrow> \<not> (d = [] \<and> is_dir (snd e) \<and> fst e = wc_mpu c) \<Longrightarrow>
    set (keys_of (out_entry c d e)) = {k \<in> tree_keys d e. starts_with (wc_prefix c) k} \<and> pres (out_entry c d e) = []"
proof (induction c d e rule: out_entry.induct)
  case (1 c d name a sz es)
  show ?case
  proof (cases "es = []")
    case False
    have "set (keys_of (out_entry c (d @ name @ ''/'') e)) = {k \<in> tree_keys (d @ name @ ''/'') e. starts_with (wc_prefix c) k} \<and>
        pres (out_entry c (d @ name @ ''/'') e) = []" if "e \<in> set es" for e
      using "1.prems" False that by (intro "1.IH") auto
    with "1.prems" False show ?thesis
      by (auto simp: keys_of_concat pres_concat)
  qed (use "1.prems" in \<open>auto simp: keys_of_def\<close>)
qed (auto simp: keys_of_def)

lemma tree_keys_start:
  "wf_node (snd e) \<Longrightarrow> k \<in> tree_keys d e \<Longrightarrow> \<exists>u. k = d @ entry_key e @ u \<and> (\<not> is_dir (snd e) \<longrightarrow> u = [])"
proof (induction d e arbitrary: k rule: tree_keys.induct)
  case (1 d name a sz es)
  show ?case
  proof (cases "es = []")
    case False
    with "1.prems" obtain e where e: "e \<in> set es" "k \<in> tree_keys (d @ name @ ''/'') e" by auto
    with 1 False obtain u where "k = (d @ name @ ''/'') @ entry_key e @ u" by (cases e) force
    then show ?thesis by (simp add: entry_key_def)
  qed (use 1 in \<open>simp add: entry_key_def\<close>)
qed (simp_all add: entry_key_def)

section \<open>The order\<close>

lemma less_append_left: "(d @ x < d @ y) = (x < (y :: str))"
  by (induction d) simp_all

lemma less_extend:
  assumes "s < (t :: str)" "u = [] \<or> (\<forall>v. t \<noteq> s @ v)"
  shows "s @ u < t @ w"
proof -
  from assms(1) consider a v where "t = s @ a # v" | p a b v v' where "a < b" "s = p @ a # v" "t = p @ b # v'"
    by (auto simp: list_less_def lexord_def)
  then show ?thesis
  proof cases
    case (1 a v)
    with assms(2) less_append_left [of s "[]" "a # v @ w"] show ?thesis
      by auto
  next
    case (2 p a b v v')
    then show ?thesis
      by (simp add: less_append_left)
  qed
qed

lemma entry_key_no_prefix:
  assumes "valid_name (fst e)" "valid_name (fst e')" "is_dir (snd e)" "entry_key e < entry_key e'"
  shows "entry_key e' \<noteq> entry_key e @ v"
proof
  assume eq: "entry_key e' = entry_key e @ v"
  with assms(4) have "v \<noteq> []" by auto
  have sl: "CHR ''/'' \<notin> set (fst e')"
    using valid_nameD [OF assms(2)] by blast
  have e: "entry_key e = fst e @ ''/''" using assms(3) by (simp add: entry_key_def)
  show False
  proof (cases "is_dir (snd e')")
    case True
    then have "fst e' @ ''/'' = fst e @ CHR ''/'' # v" using eq e by (simp add: entry_key_def)
    with \<open>v \<noteq> []\<close> obtain w where "fst e' = fst e @ CHR ''/'' # w"
      by (cases v rule: rev_cases) auto
    with sl show False by simp
  next
    case False
    with eq e sl show False by (simp add: entry_key_def)
  qed
qed

lemma sorted_concat:
  "(\<And>x. x \<in> set xs \<Longrightarrow> sorted_wrt R (f x)) \<Longrightarrow> sorted_wrt (\<lambda>x y. \<forall>a\<in>set (f x). \<forall>b\<in>set (f y). R a b) xs \<Longrightarrow>
   sorted_wrt R (concat (map f xs))"
  by (induction xs) (auto simp: sorted_wrt_append)

lemma sorted_out:
  assumes "wc_recursive c" "\<forall>e\<in>set es. valid_name (fst e) \<and> wf_node (snd e) \<and> all_access (snd e) \<and> \<not> (d = [] \<and> is_dir (snd e) \<and> fst e = wc_mpu c)"
    and "\<And>e. e \<in> set es \<Longrightarrow> sorted_wrt (<) (keys_of (out_entry c d e))" "sorted_wrt (<) (map entry_key es)"
  shows "sorted_wrt (<) (keys_of (concat (map (out_entry c d) es)))"
proof -
  have "sorted_wrt (\<lambda>x y. \<forall>a\<in>set (keys_of (out_entry c d x)). \<forall>b\<in>set (keys_of (out_entry c d y)). a < b) es"
  proof (rule sorted_wrt_mono_rel [OF _ assms(4) [unfolded sorted_wrt_map]])
    fix x y
    assume xy: "x \<in> set es" "y \<in> set es" "entry_key x < entry_key y"
    show "\<forall>a\<in>set (keys_of (out_entry c d x)). \<forall>b\<in>set (keys_of (out_entry c d y)). a < b"
    proof (intro ballI)
      fix a b
      assume "a \<in> set (keys_of (out_entry c d x))" "b \<in> set (keys_of (out_entry c d y))"
      then have "a \<in> tree_keys d x" "b \<in> tree_keys d y"
        using out_entry_keys [OF assms(1), of x d] out_entry_keys [OF assms(1), of y d] assms(2) xy(1,2) by auto
      then obtain u w where "a = d @ entry_key x @ u" "\<not> is_dir (snd x) \<longrightarrow> u = []" "b = d @ entry_key y @ w"
        using tree_keys_start assms(2) xy(1,2) by meson
      then show "a < b"
        using less_extend [OF xy(3), of u w] entry_key_no_prefix [of x y] xy assms(2) by (auto simp: less_append_left)
    qed
  qed
  then show ?thesis
    unfolding keys_of_concat map_map using assms(3) by (intro sorted_concat) (simp_all add: o_def)
qed

lemma out_entry_sorted:
  "wc_recursive c \<Longrightarrow> wf_node (snd e) \<Longrightarrow> all_access (snd e) \<Longrightarrow> sorted_wrt (<) (keys_of (out_entry c d e))"
proof (induction c d e rule: out_entry.induct)
  case (1 c d name a sz es)
  have "sorted_wrt (<) (keys_of (concat (map (out_entry c (d @ name @ ''/'')) (sort_entries es))))"
    if "\<not> (d = [] \<and> name = wc_mpu c)" "es \<noteq> []"
  proof (rule sorted_out)
    show "sorted_wrt (<) (map entry_key (sort_entries es))"
      using "1.prems" by (intro sort_entries_strict) auto
    show "sorted_wrt (<) (keys_of (out_entry c (d @ name @ ''/'') e))" if "e \<in> set (sort_entries es)" for e
      using "1.prems" that \<open>\<not> (d = [] \<and> name = wc_mpu c)\<close> \<open>es \<noteq> []\<close> by (intro "1.IH") auto
  qed (use "1.prems" in auto)
  with "1.prems" show ?case
    by (auto simp: keys_of_def)
qed (simp_all add: keys_of_def)

end
