(* ===== verification/List_Objects.thy ===== *)
theory List_Objects
  imports Listing Gateway_Config S3_Responses Uri_Encoding
begin

text \<open>
  The handlers of listings in \<open>crates/s32p-gateway/src/main.rs\<close>: \<open>handle_list_objects_v2\<close>, whose pages
  are joined by tokens, and \<open>handle_list_objects_v1\<close>, whose pages are joined by keys.
\<close>

section \<open>Requests and replies\<close>

record list_token =
  lt_v :: "8 word"
  lt_bucket :: str
  lt_prefix :: str
  lt_delimiter :: "str option"
  lt_stack :: "list_frame list"

text \<open>
  What a listing calls: the directory service, the format of times, the percent encoding,
  \<open>serde_json\<close> and \<open>base64\<close>, and the format \<open>{:?}\<close>, which is used in a message.
\<close>

record list_env =
  le_lookup :: "u32 \<Rightarrow> str option"
  le_time :: "system_time \<Rightarrow> str"
  le_pct_encode :: "str \<Rightarrow> (char \<Rightarrow> bool) \<Rightarrow> str"
  le_non_alphanumeric :: "char \<Rightarrow> bool"
  le_to_json :: "list_token \<Rightarrow> str option"
  le_from_json :: "str \<Rightarrow> str + list_token"
  le_b64_encode :: "str \<Rightarrow> str"
  le_b64_decode :: "str \<Rightarrow> str + str"
  le_debug :: "str option \<Rightarrow> str"

definition encode_token :: "list_env \<Rightarrow> list_token \<Rightarrow> str option" where
  "encode_token env tok = map_option (le_b64_encode env) (le_to_json env tok)"

definition decode_token :: "list_env \<Rightarrow> str \<Rightarrow> str + list_token" where
  "decode_token env s =
     (case le_b64_decode env s of
        Inl e \<Rightarrow> Inl (''bad continuation-token: '' @ e)
      | Inr raw \<Rightarrow> (case le_from_json env raw of
          Inl e \<Rightarrow> Inl (''bad continuation-token json: '' @ e)
        | Inr tok \<Rightarrow> Inr tok))"

definition list_enc :: "list_env \<Rightarrow> bool \<Rightarrow> str \<Rightarrow> str" where
  "list_enc env url_encode = (if url_encode then s3_url_encode (le_pct_encode env) (le_non_alphanumeric env) else id)"

record list_v2_ok =
  l2_prefix :: str
  l2_delimiter :: "str option"
  l2_key_count :: nat
  l2_max_keys :: nat
  l2_truncated :: bool
  l2_continuation :: "str option"
  l2_next :: "str option"
  l2_start_after :: "str option"
  l2_encoding :: "str option"
  l2_contents :: "list_object_info list"
  l2_prefixes :: "str list"

definition query_text :: "s3_request_class \<Rightarrow> str \<Rightarrow> str" where
  "query_text class k = (case first (rc_query class) k of Some v \<Rightarrow> v | None \<Rightarrow> [])"

definition delimiter_of :: "s3_request_class \<Rightarrow> str option" where
  "delimiter_of class =
     (case first (rc_query class) ''delimiter'' of
        Some d \<Rightarrow> if d = [] then None else Some d
      | None \<Rightarrow> None)"

definition max_keys_of :: "s3_request_class \<Rightarrow> nat" where
  "max_keys_of class =
     (case first (rc_query class) ''max-keys'' of
        Some s \<Rightarrow> (case parse_u32_std s of Some n \<Rightarrow> min (unat n) 1000 | None \<Rightarrow> 1000)
      | None \<Rightarrow> 1000)"

definition start_frame :: "list_frame \<Rightarrow> runtime_frame" where
  "start_frame fr = \<lparr>rf_dir = fr_dir fr, rf_after = fr_after fr, rf_entries = None, rf_idx = 0\<rparr>"

definition save_frame :: "runtime_frame \<Rightarrow> list_frame" where
  "save_frame rf = \<lparr>fr_dir = rf_dir rf, fr_after = rf_after rf\<rparr>"

text \<open>Where a walk starts: from the token, after a key, or at the start.\<close>

definition token_mismatch :: "(str option \<Rightarrow> str) \<Rightarrow> list_token \<Rightarrow> str \<Rightarrow> str \<Rightarrow> str option \<Rightarrow> str list" where
  "token_mismatch dbg tok bucket pfx delimiter_q =
     (if lt_bucket tok \<noteq> bucket then [''request-bucket '' @ bucket @ '' != token-bucket '' @ lt_bucket tok] else []) @
     (if lt_prefix tok \<noteq> pfx then [''request-prefix '' @ pfx @ '' != token-prefix '' @ lt_prefix tok] else []) @
     (if lt_delimiter tok \<noteq> delimiter_q
      then [''request-delimiter '' @ dbg delimiter_q @ '' != token-delimiter '' @ dbg (lt_delimiter tok)] else [])"

definition list_v2_stack ::
  "list_env \<Rightarrow> str \<Rightarrow> str \<Rightarrow> str option \<Rightarrow> bool \<Rightarrow> str \<Rightarrow> str option \<Rightarrow> str option \<Rightarrow> str \<Rightarrow> s3_reply + list_frame list" where
  "list_v2_stack env bucket pfx delimiter_q recursive dir_prefix continuation start_after path =
     (case continuation of
        Some ct \<Rightarrow>
          (case decode_token env ct of
             Inr tok \<Rightarrow>
               if lt_bucket tok \<noteq> bucket \<or> lt_prefix tok \<noteq> pfx \<or> lt_delimiter tok \<noteq> delimiter_q
               then Inl (s3_error 400 ''InvalidRequest''
                 (''continuation-token does not match request parameters: '' @ join '', '' (token_mismatch (le_debug env) tok bucket pfx delimiter_q))
                 (Some path) None)
               else Inr (lt_stack tok)
           | Inl e \<Rightarrow> Inl (s3_error 400 ''InvalidRequest'' e (Some path) None))
      | None \<Rightarrow>
          (case start_after of
             Some sa \<Rightarrow> Inr (build_stack_from_last dir_prefix sa recursive)
           | None \<Rightarrow> Inr [\<lparr>fr_dir = dir_prefix, fr_after = []\<rparr>]))"

definition encode_info :: "(str \<Rightarrow> str) \<Rightarrow> list_object_info \<Rightarrow> list_object_info" where
  "encode_info enc i = i\<lparr>lo_key := enc (lo_key i)\<rparr>"

definition empty_list_v2 ::
  "(str \<Rightarrow> str) \<Rightarrow> str \<Rightarrow> bool \<Rightarrow> nat \<Rightarrow> str option \<Rightarrow> str option \<Rightarrow> str option \<Rightarrow> list_v2_ok" where
  "empty_list_v2 enc pfx recursive max_keys continuation start_after encoding =
     \<lparr>l2_prefix = enc pfx, l2_delimiter = (if recursive then None else Some ''/''), l2_key_count = 0, l2_max_keys = max_keys,
      l2_truncated = False, l2_continuation = continuation, l2_next = None, l2_start_after = map_option enc start_after,
      l2_encoding = encoding, l2_contents = [], l2_prefixes = []\<rparr>"

text \<open>The reply after the walk: the token of the next page is the stack the walk has left.\<close>

definition list_v2_reply ::
  "list_env \<Rightarrow> (str \<Rightarrow> str) \<Rightarrow> str \<Rightarrow> str \<Rightarrow> bool \<Rightarrow> nat \<Rightarrow> str option \<Rightarrow> str option \<Rightarrow> str option \<Rightarrow> walk_state \<Rightarrow> list_v2_ok" where
  "list_v2_reply env enc bucket pfx recursive max_keys continuation start_after encoding s =
     (case s of (stack, contents, prefixes) \<Rightarrow>
       let key_count = length contents + length prefixes;
           is_truncated = (key_count \<ge> max_keys \<and> stack \<noteq> []);
           next_token = (if is_truncated \<and> key_count > 0 then
             encode_token env \<lparr>lt_v = 1, lt_bucket = bucket, lt_prefix = pfx,
               lt_delimiter = (if recursive then None else Some ''/''), lt_stack = rev (map save_frame stack)\<rparr>
             else None)
       in \<lparr>l2_prefix = enc pfx, l2_delimiter = (if recursive then None else Some ''/''), l2_key_count = key_count,
           l2_max_keys = max_keys, l2_truncated = (is_truncated \<and> next_token \<noteq> None), l2_continuation = continuation,
           l2_next = next_token, l2_start_after = map_option enc start_after, l2_encoding = encoding,
           l2_contents = map (encode_info enc) contents, l2_prefixes = map enc prefixes\<rparr>)"

definition list_walk_cfg :: "list_env \<Rightarrow> gw_cfg \<Rightarrow> node \<Rightarrow> str \<Rightarrow> str \<Rightarrow> bool \<Rightarrow> bool \<Rightarrow> walk_cfg" where
  "list_walk_cfg env cfg fs bucket pfx recursive fetch_owner =
     \<lparr>wc_fs = fs, wc_root = gc_root cfg, wc_bucket = bucket, wc_mpu = gc_mpu cfg, wc_prefix = pfx,
      wc_leaf = snd (split_prefix pfx), wc_recursive = recursive, wc_fetch_owner = fetch_owner,
      wc_lookup = le_lookup env, wc_time = le_time env\<rparr>"

text \<open>The guard both handlers start with: a bucket that exists.\<close>

definition bucket_of :: "s3_request_class \<Rightarrow> str" where
  "bucket_of class = (case rc_bucket class of Some b \<Rightarrow> b | None \<Rightarrow> [])"

definition key_of :: "s3_request_class \<Rightarrow> str" where
  "key_of class = (case rc_key class of Some k \<Rightarrow> k | None \<Rightarrow> [])"

definition require_bucket :: "gw_cfg \<Rightarrow> node \<Rightarrow> str \<Rightarrow> str \<Rightarrow> s3_reply option" where
  "require_bucket cfg fs bucket path =
     (case bucket_exists_dir fs (gc_root cfg) bucket of
        Inr True \<Rightarrow> None
      | Inr False \<Rightarrow> Some (no_such_bucket ''bucket not found'' (Some path))
      | Inl e \<Rightarrow> Some (access_denied e (Some path)))"

text \<open>The part after the parameters have been read.\<close>

definition list_v2_walk ::
  "list_env \<Rightarrow> gw_cfg \<Rightarrow> node \<Rightarrow> s3_request_class \<Rightarrow> str \<Rightarrow> str \<Rightarrow> bool \<Rightarrow> (s3_reply + list_v2_ok) option" where
  "list_v2_walk env cfg fs class path pfx recursive =
     (let bucket = bucket_of class;
          max_keys = max_keys_of class;
          fetch_owner = (first (rc_query class) ''fetch-owner'' \<noteq> None);
          continuation = first (rc_query class) ''continuation-token'';
          start_after = first (rc_query class) ''start-after'';
          url_encode = (first (rc_query class) ''encoding-type'' = Some ''url'');
          enc = list_enc env url_encode;
          encoding = (if url_encode then Some ''url'' else None);
          dir_prefix = fst (split_prefix pfx)
      in if pfx \<noteq> [] \<and> is_reserved_first_segment pfx (gc_mpu cfg)
         then Some (Inr (empty_list_v2 enc pfx recursive max_keys continuation start_after encoding))
         else (case join_object_path (gc_root cfg) bucket dir_prefix of
             Inl e \<Rightarrow> Some (Inl (access_denied e None))
           | Inr start_dir \<Rightarrow>
               if \<not> is_dir_path fs start_dir
               then Some (Inr (empty_list_v2 enc pfx recursive max_keys continuation start_after encoding))
               else (case list_v2_stack env bucket pfx (delimiter_of class) recursive dir_prefix continuation start_after path of
                   Inl r \<Rightarrow> Some (Inl r)
                 | Inr token_stack \<Rightarrow>
                     if list_ex (\<lambda>fr. is_reserved_first_segment (fr_dir fr) (gc_mpu cfg)) token_stack
                     then Some (Inl (s3_error 400 ''InvalidRequest''
                       ''continuation-token points into a reserved prefix'' (Some path) None))
                     else map_option (\<lambda>s. Inr (list_v2_reply env enc bucket pfx recursive max_keys continuation start_after encoding s))
                       (list_loop (list_walk_cfg env cfg fs bucket pfx recursive fetch_owner) max_keys
                          (map start_frame (rev (if token_stack = [] then [\<lparr>fr_dir = dir_prefix, fr_after = []\<rparr>] else token_stack)), [], [])))))"

definition handle_list_objects_v2 ::
  "list_env \<Rightarrow> gw_cfg \<Rightarrow> node \<Rightarrow> s3_request_class \<Rightarrow> str \<Rightarrow> (s3_reply + list_v2_ok) option" where
  "handle_list_objects_v2 env cfg fs class path =
     (if bucket_of class = [] then Some (Inl (not_implemented ''missing bucket'' (Some path)))
      else if first (rc_query class) ''list-type'' \<noteq> Some ''2'' then Some (Inl (not_implemented ''missing list-type=2'' None))
      else (case require_bucket cfg fs (bucket_of class) path of
          Some r \<Rightarrow> Some (Inl r)
        | None \<Rightarrow>
            (case delimiter_of class of
               None \<Rightarrow> list_v2_walk env cfg fs class path (query_text class ''prefix'') True
             | Some d \<Rightarrow>
                 if d = ''/'' then list_v2_walk env cfg fs class path (query_text class ''prefix'') False
                 else Some (Inl (not_implemented ''only delimiter=/ is supported'' None)))))"

section \<open>The first version\<close>

record list_v1_ok =
  l1_prefix :: str
  l1_delimiter :: "str option"
  l1_marker :: str
  l1_next_marker :: "str option"
  l1_max_keys :: nat
  l1_truncated :: bool
  l1_encoding :: "str option"
  l1_contents :: "list_object_info list"
  l1_prefixes :: "str list"

text \<open>The loop of the first version also keeps the last key or prefix it has emitted.\<close>

definition emitted_last :: "walk_state \<Rightarrow> walk_state \<Rightarrow> str option \<Rightarrow> str option" where
  "emitted_last s s' last_emitted =
     (if length (fst (snd s')) > length (fst (snd s)) then Some (lo_key (last (fst (snd s'))))
      else if length (snd (snd s')) > length (snd (snd s)) then Some (last (snd (snd s')))
      else last_emitted)"

partial_function (option) list_loop_v1 :: "walk_cfg \<Rightarrow> nat \<Rightarrow> walk_state \<Rightarrow> str option \<Rightarrow> (walk_state \<times> str option) option" where
  "list_loop_v1 c max_keys s last_emitted =
     (if length (fst (snd s)) + length (snd (snd s)) < max_keys
      then (case list_step c s of
          None \<Rightarrow> Some (s, last_emitted)
        | Some s' \<Rightarrow> list_loop_v1 c max_keys s' (emitted_last s s' last_emitted))
      else Some (s, last_emitted))"

declare list_loop_v1.simps [code]

definition list_v1_reply ::
  "(str \<Rightarrow> str) \<Rightarrow> str \<Rightarrow> str \<Rightarrow> bool \<Rightarrow> nat \<Rightarrow> str option \<Rightarrow> walk_state \<times> str option \<Rightarrow> list_v1_ok" where
  "list_v1_reply enc pfx marker recursive max_keys encoding r =
     (case r of ((stack, contents, prefixes), last_emitted) \<Rightarrow>
       let total = length contents + length prefixes;
           is_truncated = (total \<ge> max_keys \<and> stack \<noteq> [])
       in \<lparr>l1_prefix = enc pfx, l1_delimiter = (if recursive then None else Some ''/''), l1_marker = enc marker,
           l1_next_marker = (if is_truncated then map_option enc last_emitted else None), l1_max_keys = max_keys,
           l1_truncated = is_truncated, l1_encoding = encoding,
           l1_contents = map (encode_info enc) contents, l1_prefixes = map enc prefixes\<rparr>)"

definition empty_list_v1 :: "(str \<Rightarrow> str) \<Rightarrow> str \<Rightarrow> str \<Rightarrow> bool \<Rightarrow> nat \<Rightarrow> str option \<Rightarrow> list_v1_ok" where
  "empty_list_v1 enc pfx marker recursive max_keys encoding =
     \<lparr>l1_prefix = enc pfx, l1_delimiter = (if recursive then None else Some ''/''), l1_marker = enc marker, l1_next_marker = None,
      l1_max_keys = max_keys, l1_truncated = False, l1_encoding = encoding, l1_contents = [], l1_prefixes = []\<rparr>"

definition list_v1_walk ::
  "list_env \<Rightarrow> gw_cfg \<Rightarrow> node \<Rightarrow> s3_request_class \<Rightarrow> str \<Rightarrow> str \<Rightarrow> bool \<Rightarrow> (s3_reply + list_v1_ok) option" where
  "list_v1_walk env cfg fs class path pfx recursive =
     (let bucket = bucket_of class;
          marker = query_text class ''marker'';
          max_keys = max_keys_of class;
          url_encode = (first (rc_query class) ''encoding-type'' = Some ''url'');
          enc = list_enc env url_encode;
          encoding = (if url_encode then Some ''url'' else None);
          dir_prefix = fst (split_prefix pfx)
      in if pfx \<noteq> [] \<and> is_reserved_first_segment pfx (gc_mpu cfg)
         then Some (Inr (empty_list_v1 enc pfx marker recursive max_keys encoding))
         else (case join_object_path (gc_root cfg) bucket dir_prefix of
             Inl e \<Rightarrow> Some (Inl (access_denied e None))
           | Inr start_dir \<Rightarrow>
               if \<not> is_dir_path fs start_dir
               then Some (Inr (empty_list_v1 enc pfx marker recursive max_keys encoding))
               else (let token_stack = (if marker \<noteq> [] then build_stack_from_last dir_prefix marker recursive
                                        else [\<lparr>fr_dir = dir_prefix, fr_after = []\<rparr>])
                 in if list_ex (\<lambda>fr. is_reserved_first_segment (fr_dir fr) (gc_mpu cfg)) token_stack
                    then Some (Inl (s3_error 400 ''InvalidRequest'' ''marker points into a reserved prefix'' (Some path) None))
                    else map_option (\<lambda>r. Inr (list_v1_reply enc pfx marker recursive max_keys encoding r))
                      (list_loop_v1 (list_walk_cfg env cfg fs bucket pfx recursive True) max_keys
                         (map start_frame (rev token_stack), [], []) None))))"

definition handle_list_objects_v1 ::
  "list_env \<Rightarrow> gw_cfg \<Rightarrow> node \<Rightarrow> s3_request_class \<Rightarrow> str \<Rightarrow> (s3_reply + list_v1_ok) option" where
  "handle_list_objects_v1 env cfg fs class path =
     (if bucket_of class = [] then Some (Inl (not_implemented ''missing bucket'' (Some path)))
      else (case require_bucket cfg fs (bucket_of class) path of
          Some r \<Rightarrow> Some (Inl r)
        | None \<Rightarrow>
            (case delimiter_of class of
               None \<Rightarrow> list_v1_walk env cfg fs class path (query_text class ''prefix'') True
             | Some d \<Rightarrow>
                 if d = ''/'' then list_v1_walk env cfg fs class path (query_text class ''prefix'') False
                 else Some (Inl (not_implemented ''only delimiter=/ is supported'' None)))))"

section \<open>The reserved directory\<close>

lemma trim_start_slashes: "trim_start_matches ''/'' s = dropWhile (\<lambda>x. x = CHR ''/'') s"
  by (induction s) (subst trim_start_matches.simps, auto simp: starts_with_def)+

lemma trim_end_slashes: "\<exists>n. k = trim_end_matches ''/'' k @ replicate n CHR ''/''"
proof -
  have "rev k = takeWhile (\<lambda>x. x = CHR ''/'') (rev k) @ dropWhile (\<lambda>x. x = CHR ''/'') (rev k)" by simp
  moreover have "takeWhile (\<lambda>x. x = CHR ''/'') (rev k) = replicate (length (takeWhile (\<lambda>x. x = CHR ''/'') (rev k))) CHR ''/''"
    by (rule replicate_length_same [symmetric]) (auto dest: set_takeWhileD)
  ultimately have "k = rev (dropWhile (\<lambda>x. x = CHR ''/'') (rev k)) @ replicate (length (takeWhile (\<lambda>x. x = CHR ''/'') (rev k))) CHR ''/''"
    by (metis rev_append rev_replicate rev_rev_ident)
  then show ?thesis
    by (auto simp: trim_end_matches_def trim_start_slashes)
qed

lemma hd_split_append_slashes: "hd (split_on c (s @ replicate n c)) = hd (split_on c s)"
  by (induction s) (cases n, auto split: list.splits)

lemma takeWhile_until:
  assumes "c \<notin> set m"
  shows "takeWhile (\<lambda>x. x \<noteq> c) t = m \<longleftrightarrow> t = m \<or> (\<exists>u. t = m @ c # u)"
proof
  assume m: "takeWhile (\<lambda>x. x \<noteq> c) t = m"
  have t: "t = m @ dropWhile (\<lambda>x. x \<noteq> c) t"
    using takeWhile_dropWhile_id [of "\<lambda>x. x \<noteq> c" t] m by simp
  show "t = m \<or> (\<exists>u. t = m @ c # u)"
  proof (cases "dropWhile (\<lambda>x. x \<noteq> c) t")
    case Nil
    with t show ?thesis by simp
  next
    case (Cons x u)
    then have "x = c"
      using hd_dropWhile [of "\<lambda>x. x \<noteq> c" t] by simp
    with t Cons show ?thesis by auto
  qed
next
  assume "t = m \<or> (\<exists>u. t = m @ c # u)"
  moreover have "takeWhile (\<lambda>x. x \<noteq> c) (m @ u) = m @ takeWhile (\<lambda>x. x \<noteq> c) u" for u
    using assms by (intro takeWhile_append2) auto
  from this [of "[]"] this [of "c # u" for u] calculation show "takeWhile (\<lambda>x. x \<noteq> c) t = m"
    by auto
qed

lemma is_reserved_iff:
  assumes "mpu_dir_ok mpu"
  shows "is_reserved_first_segment k mpu \<longleftrightarrow> hd (split_on CHR ''/'' k) = mpu"
proof -
  have mpu: "mpu \<noteq> []" "CHR ''/'' \<notin> set mpu"
    using assms by (auto simp: mpu_dir_ok_def)
  obtain n where k: "k = trim_end_matches ''/'' k @ replicate n CHR ''/''"
    using trim_end_slashes by blast
  define t where "t = trim_end_matches ''/'' k"
  have "hd (split_on CHR ''/'' k) = takeWhile (\<lambda>x. x \<noteq> CHR ''/'') t"
    using hd_split_append_slashes [of "CHR ''/''" t n] k unfolding t_def [symmetric] by (simp add: hd_split)
  moreover have "takeWhile (\<lambda>x. x \<noteq> CHR ''/'') t = mpu \<longleftrightarrow> t = mpu \<or> (\<exists>u. t = mpu @ CHR ''/'' # u)"
    by (rule takeWhile_until [OF mpu(2)])
  moreover have "is_reserved_first_segment k mpu \<longleftrightarrow> t = mpu \<or> (\<exists>u. t = mpu @ CHR ''/'' # u)"
    by (auto simp: is_reserved_first_segment_def Let_def t_def [symmetric] strip_prefix_def starts_with_iff split: if_splits)
  ultimately show ?thesis
    by simp
qed

section \<open>Pages\<close>

lemma restart_frame [simp]:
  "fr_dir (save_frame f) = rf_dir f" "fr_after (save_frame f) = rf_after f"
  "rf_dir (start_frame fr) = fr_dir fr" "rf_after (start_frame fr) = fr_after fr" "rf_entries (start_frame fr) = None"
  by (simp_all add: start_frame_def save_frame_def)

lemma out_restart: "out_stack c (map (\<lambda>f. start_frame (save_frame f)) st) = out_stack c st"
  by (induction st) (simp_all add: out_frame_def frame_entries_def)

lemma stack_ok_start: "stack_ok c (map start_frame fs)"
  by (induction fs) (simp_all add: frame_ok_def)

text \<open>What the pages after a stack of frames hold.\<close>

definition rest_of :: "walk_cfg \<Rightarrow> list_frame list \<Rightarrow> emitted list" where
  "rest_of c frames = out_stack c (map start_frame (rev frames))"

definition frames_ok :: "walk_cfg \<Rightarrow> list_frame list \<Rightarrow> bool" where
  "frames_ok c frames \<longleftrightarrow> frames \<noteq> [] \<and> (\<forall>fr\<in>set frames. dir_ok (fr_dir fr) \<and> hd (split_on CHR ''/'' (fr_dir fr)) \<noteq> wc_mpu c)"

lemma walk_page:
  assumes "cfg_ok c" "frames_ok c frames" "0 < m"
  obtains st x where "list_loop c m (map start_frame (rev frames), [], []) = Some (st, objs x, pres x)"
    "rest_of c frames = x @ out_stack c st" "length x \<le> m" "st \<noteq> [] \<Longrightarrow> length x = m"
    "st \<noteq> [] \<Longrightarrow> frames_ok c (rev (map save_frame st))" "rest_of c (rev (map save_frame st)) = out_stack c st"
proof -
  have ok: "stack_ok c (map start_frame (rev frames))"
    by (rule stack_ok_start)
  obtain st cs ps where loop: "list_loop c m (map start_frame (rev frames), [], []) = Some (st, cs, ps)"
    using list_loop_ends [OF assms(1) ok] by (metis prod_cases3)
  have "\<forall>f\<in>set (map start_frame (rev frames)). open_dir c f"
    using assms(2) by (auto simp: frames_ok_def open_dir_def)
  from list_loop_out [OF assms(1) loop ok this] obtain x where
    "out_stack c (map start_frame (rev frames)) = x @ out_stack c st" "cs = objs x" "ps = pres x" "\<forall>f\<in>set st. open_dir c f"
    "length x \<le> m" "length x = m \<or> st = []"
    by auto
  with loop show thesis
    by (intro that [of st x]) (auto simp: rest_of_def frames_ok_def open_dir_def out_restart rev_map o_def)
qed

text \<open>Asking for the page of a token, and for one page after the other.\<close>

definition with_token :: "s3_request_class \<Rightarrow> str option \<Rightarrow> s3_request_class" where
  "with_token class tok =
     (case tok of None \<Rightarrow> class | Some t \<Rightarrow> class\<lparr>rc_query := (''continuation-token'', [t]) # rc_query class\<rparr>)"

fun list_pages ::
  "list_env \<Rightarrow> gw_cfg \<Rightarrow> node \<Rightarrow> s3_request_class \<Rightarrow> str \<Rightarrow> nat \<Rightarrow> str option \<Rightarrow> (list_object_info list \<times> str list) option" where
  "list_pages env cfg fs class path 0 tok = None"
| "list_pages env cfg fs class path (Suc n) tok =
     (case handle_list_objects_v2 env cfg fs (with_token class tok) path of
        Some (Inr r) \<Rightarrow>
          (case l2_next r of
             None \<Rightarrow> Some (l2_contents r, l2_prefixes r)
           | Some t \<Rightarrow>
               (case list_pages env cfg fs class path n (Some t) of
                  None \<Rightarrow> None
                | Some (cs, ps) \<Rightarrow> Some (l2_contents r @ cs, l2_prefixes r @ ps)))
      | _ \<Rightarrow> None)"

lemma list_pages_more: "list_pages env cfg fs class path n tok = Some y \<Longrightarrow> n \<le> m \<Longrightarrow> list_pages env cfg fs class path m tok = Some y"
proof (induction n arbitrary: m tok y)
  case (Suc n)
  then obtain m' where m: "m = Suc m'" "n \<le> m'" by (cases m) auto
  from Suc.prems(1) show ?case
    unfolding m(1) by (auto split: option.splits sum.splits prod.splits dest!: Suc.IH [OF _ m(2)])
qed simp

text \<open>A listing of a bucket from the start, in plain text, on a sound tree.\<close>

definition plain_listing :: "list_env \<Rightarrow> gw_cfg \<Rightarrow> node \<Rightarrow> s3_request_class \<Rightarrow> bool" where
  "plain_listing env cfg fs class \<longleftrightarrow>
     proper_root (gc_root cfg) \<and> CHR 0x00 \<notin> set (gc_root cfg) \<and> wf_node fs \<and> mpu_dir_ok (gc_mpu cfg) \<and>
     bucket_exists_dir fs (gc_root cfg) (bucket_of class) = Inr True \<and> CHR 0x00 \<notin> set (bucket_of class) \<and>
     first (rc_query class) ''list-type'' = Some ''2'' \<and> (delimiter_of class = None \<or> delimiter_of class = Some ''/'') \<and>
     0 < max_keys_of class \<and> first (rc_query class) ''continuation-token'' = None \<and> first (rc_query class) ''start-after'' = None \<and>
     first (rc_query class) ''encoding-type'' \<noteq> Some ''url'' \<and>
     (\<forall>s\<in>set (butlast (split_on CHR ''/'' (query_text class ''prefix''))). valid_name s) \<and>
     \<not> is_reserved_first_segment (query_text class ''prefix'') (gc_mpu cfg)"

text \<open>What \<open>serde_json\<close> and \<open>base64\<close> promise of the tokens.\<close>

definition tokens_ok :: "list_env \<Rightarrow> bool" where
  "tokens_ok env \<longleftrightarrow>
     (\<forall>t. \<exists>js. le_to_json env t = Some js \<and> le_from_json env js = Inr t) \<and>
     (\<forall>x. le_b64_decode env (le_b64_encode env x) = Inr x)"

lemma tokens_ok_roundtrip:
  assumes "tokens_ok env"
  obtains s where "encode_token env t = Some s" "decode_token env s = Inr t"
proof -
  obtain js where "le_to_json env t = Some js" "le_from_json env js = Inr t" "le_b64_decode env (le_b64_encode env js) = Inr js"
    using assms by (auto simp: tokens_ok_def)
  then show thesis
    by (intro that [of "le_b64_encode env js"]) (simp_all add: encode_token_def decode_token_def)
qed

lemma with_token_first:
  "first (rc_query (with_token class (Some t))) ''continuation-token'' = Some t"
  "to_ascii_lowercase k \<noteq> ''continuation-token'' \<Longrightarrow> first (rc_query (with_token class tok)) k = first (rc_query class) k"
  by (auto simp: with_token_def first_def to_ascii_lowercase_def to_lower_def is_ascii_upper_def split: option.splits)

lemma with_token_params:
  "bucket_of (with_token class tok) = bucket_of class" "max_keys_of (with_token class tok) = max_keys_of class"
  "delimiter_of (with_token class tok) = delimiter_of class" "query_text (with_token class tok) ''prefix'' = query_text class ''prefix''"
  "first (rc_query (with_token class tok)) ''list-type'' = first (rc_query class) ''list-type''"
  "first (rc_query (with_token class tok)) ''fetch-owner'' = first (rc_query class) ''fetch-owner''"
  "first (rc_query (with_token class tok)) ''start-after'' = first (rc_query class) ''start-after''"
  "first (rc_query (with_token class tok)) ''encoding-type'' = first (rc_query class) ''encoding-type''"
proof -
  show "bucket_of (with_token class tok) = bucket_of class"
    by (simp add: bucket_of_def with_token_def split: option.splits)
qed (simp_all add: max_keys_of_def delimiter_of_def query_text_def with_token_first(2) to_ascii_lowercase_def to_lower_def is_ascii_upper_def)

definition dir_key :: "str list \<Rightarrow> str" where
  "dir_key ds = concat (map (\<lambda>s. s @ ''/'') ds)"

lemma join_dir_key: "join ''/'' (ds @ [l]) = dir_key ds @ l"
  by (induction ds) (simp_all add: dir_key_def join_Cons)

lemma dir_ok_dir_key: "dir_ok (dir_key ds)"
  by (cases ds rule: rev_cases) (simp_all add: dir_key_def dir_ok_def)

lemma key_segments_dir_key: "\<forall>s\<in>set ds. valid_name s \<Longrightarrow> key_segments (dir_key ds) = ds"
proof (induction ds rule: rev_induct)
  case (snoc s ds)
  then show ?case
    using key_segments_child [OF dir_ok_dir_key, of s ds] by (simp add: dir_key_def)
qed (simp add: dir_key_def key_segments_def)

lemma split_prefix_canonical:
  assumes "split_on CHR ''/'' pfx = ds @ [l]" "\<forall>s\<in>set ds. valid_name s"
  shows "split_prefix pfx = (dir_key ds, if l = [] then None else Some l)" "pfx = dir_key ds @ l" "CHR ''/'' \<notin> set l"
proof -
  show l: "CHR ''/'' \<notin> set l"
    using split_on_no_sep [of l "CHR ''/''" pfx] assms(1) by simp
  show pfx: "pfx = dir_key ds @ l"
    using join_split_on [of "CHR ''/''" pfx] assms(1) join_dir_key [of ds l] by simp
  show "split_prefix pfx = (dir_key ds, if l = [] then None else Some l)"
  proof (cases "ds = []")
    case True
    then have "pfx = l" using pfx by (simp add: dir_key_def)
    then have "\<not> ends_with ''/'' pfx" if "pfx \<noteq> []"
      using l that by (cases pfx rule: rev_cases) (auto simp: ends_with_def starts_with_def)
    moreover have "rsplit_once CHR ''/'' pfx = None"
      using l \<open>pfx = l\<close> split_once_None_iff [of "CHR ''/''" "rev pfx"] by (simp add: rsplit_once_def)
    ultimately show ?thesis
      using True \<open>pfx = l\<close> by (auto simp: split_prefix_def dir_key_def)
  next
    case False
    then obtain es e where ds: "ds = es @ [e]" by (cases ds rule: rev_cases) auto
    then have dk: "dir_key ds = (dir_key es @ e) @ ''/''" "dir_key es @ e \<noteq> []"
      using assms(2) by (simp_all add: dir_key_def valid_name_def safe_segment_def)
    have rs: "rsplit_once CHR ''/'' pfx = Some (dir_key es @ e, l)"
      using split_once_append [of "CHR ''/''" "rev l" "rev (dir_key es @ e)"] l unfolding pfx dk(1) by (simp add: rsplit_once_def)
    have "ends_with ''/'' pfx \<longleftrightarrow> l = []"
      using l unfolding pfx dk(1) by (cases l rule: rev_cases) (auto simp: ends_with_def starts_with_def)
    with rs dk show ?thesis
      by (auto simp: split_prefix_def pfx)
  qed
qed

definition listing_cfg :: "list_env \<Rightarrow> gw_cfg \<Rightarrow> node \<Rightarrow> s3_request_class \<Rightarrow> walk_cfg" where
  "listing_cfg env cfg fs class =
     list_walk_cfg env cfg fs (bucket_of class) (query_text class ''prefix'') (delimiter_of class = None)
       (first (rc_query class) ''fetch-owner'' \<noteq> None)"

definition listing_token :: "s3_request_class \<Rightarrow> list_frame list \<Rightarrow> list_token" where
  "listing_token class frames =
     \<lparr>lt_v = 1, lt_bucket = bucket_of class, lt_prefix = query_text class ''prefix'', lt_delimiter = delimiter_of class,
      lt_stack = frames\<rparr>"

definition listing_start :: "s3_request_class \<Rightarrow> list_frame list" where
  "listing_start class = [\<lparr>fr_dir = fst (split_prefix (query_text class ''prefix'')), fr_after = []\<rparr>]"

lemma listing_cfg_simps [simp]:
  "wc_fs (listing_cfg env cfg fs class) = fs" "wc_root (listing_cfg env cfg fs class) = gc_root cfg"
  "wc_bucket (listing_cfg env cfg fs class) = bucket_of class" "wc_mpu (listing_cfg env cfg fs class) = gc_mpu cfg"
  "wc_prefix (listing_cfg env cfg fs class) = query_text class ''prefix''"
  "wc_leaf (listing_cfg env cfg fs class) = snd (split_prefix (query_text class ''prefix''))"
  "wc_recursive (listing_cfg env cfg fs class) \<longleftrightarrow> delimiter_of class = None"
  by (simp_all add: listing_cfg_def list_walk_cfg_def)

text \<open>The page of a stack of frames: the first one, or the one of a token that holds them.\<close>

definition page_of :: "list_env \<Rightarrow> s3_request_class \<Rightarrow> str option \<Rightarrow> list_frame list \<Rightarrow> bool" where
  "page_of env class tok frames \<longleftrightarrow>
     (case tok of
        None \<Rightarrow> frames = listing_start class
      | Some t \<Rightarrow> decode_token env t = Inr (listing_token class frames))"

lemma plain_listing_cfg_ok: "plain_listing env cfg fs class \<Longrightarrow> cfg_ok (listing_cfg env cfg fs class)"
  by (simp add: plain_listing_def cfg_ok_def)

lemma page_walk:
  assumes "plain_listing env cfg fs class" "page_of env class tok frames" "frames_ok (listing_cfg env cfg fs class) frames"
    and "join_object_path (gc_root cfg) (bucket_of class) (fst (split_prefix (query_text class ''prefix''))) = Inr p" "is_dir_path fs p"
  shows "handle_list_objects_v2 env cfg fs (with_token class tok) path =
    map_option (\<lambda>s. Inr (list_v2_reply env id (bucket_of class) (query_text class ''prefix'') (delimiter_of class = None)
         (max_keys_of class) tok None None s))
      (list_loop (listing_cfg env cfg fs class) (max_keys_of class) (map start_frame (rev frames), [], []))"
proof -
  let ?pfx = "query_text class ''prefix''"
  have mpu: "mpu_dir_ok (gc_mpu cfg)"
    using assms(1) by (simp add: plain_listing_def)
  have cont: "first (rc_query (with_token class tok)) ''continuation-token'' = tok"
    using assms(1) with_token_first(1) by (cases tok) (simp_all add: with_token_def plain_listing_def)
  have bucket: "bucket_of class \<noteq> []"
    using assms(1) by (auto simp: plain_listing_def bucket_exists_dir_def bucket_root_path_def join_object_path_def)
  have stack: "list_v2_stack env (bucket_of class) ?pfx (delimiter_of class) (delimiter_of class = None) (fst (split_prefix ?pfx)) tok None path = Inr frames"
    using assms(2) by (cases tok) (simp_all add: list_v2_stack_def page_of_def listing_token_def listing_start_def)
  have free: "\<not> list_ex (\<lambda>fr. is_reserved_first_segment (fr_dir fr) (gc_mpu cfg)) frames" "frames \<noteq> []"
    using assms(3) by (auto simp: frames_ok_def list_ex_iff is_reserved_iff [OF mpu])
  have walk: "list_v2_walk env cfg fs (with_token class tok) path ?pfx (delimiter_of class = None) =
      map_option (\<lambda>s. Inr (list_v2_reply env id (bucket_of class) ?pfx (delimiter_of class = None) (max_keys_of class) tok None None s))
        (list_loop (listing_cfg env cfg fs class) (max_keys_of class) (map start_frame (rev frames), [], []))"
    using assms(1,4,5) stack free
    by (simp add: list_v2_walk_def Let_def with_token_params cont plain_listing_def listing_cfg_def list_enc_def)
  show ?thesis
    using assms(1) bucket walk
    by (auto simp: handle_list_objects_v2_def with_token_params plain_listing_def require_bucket_def)
qed

lemma page_result:
  assumes "plain_listing env cfg fs class" "page_of env class tok frames" "frames_ok (listing_cfg env cfg fs class) frames" "tokens_ok env"
    and "join_object_path (gc_root cfg) (bucket_of class) (fst (split_prefix (query_text class ''prefix''))) = Inr p" "is_dir_path fs p"
  defines "c \<equiv> listing_cfg env cfg fs class"
  obtains r x frames' where "handle_list_objects_v2 env cfg fs (with_token class tok) path = Some (Inr r)"
    "l2_contents r = objs x" "l2_prefixes r = pres x" "length x \<le> max_keys_of class"
    "l2_next r = None \<Longrightarrow> rest_of c frames = x"
    "\<And>t. l2_next r = Some t \<Longrightarrow> page_of env class (Some t) frames' \<and> frames_ok c frames' \<and> rest_of c frames = x @ rest_of c frames' \<and> x \<noteq> []"
proof -
  have ok: "cfg_ok c" "0 < max_keys_of class" "delimiter_of class = None \<or> delimiter_of class = Some ''/''"
    using plain_listing_cfg_ok [OF assms(1)] assms(1) by (simp_all add: c_def plain_listing_def)
  obtain st x where w: "list_loop c (max_keys_of class) (map start_frame (rev frames), [], []) = Some (st, objs x, pres x)"
    "rest_of c frames = x @ out_stack c st" "length x \<le> max_keys_of class" "st \<noteq> [] \<Longrightarrow> length x = max_keys_of class"
    "st \<noteq> [] \<Longrightarrow> frames_ok c (rev (map save_frame st))" "rest_of c (rev (map save_frame st)) = out_stack c st"
    using walk_page [OF ok(1) assms(3) [folded c_def] ok(2)] by blast
  let ?r = "list_v2_reply env id (bucket_of class) (query_text class ''prefix'') (delimiter_of class = None) (max_keys_of class) tok None None (st, objs x, pres x)"
  have del: "(if delimiter_of class = None then None else Some ''/'') = delimiter_of class"
    using ok(3) by auto
  obtain t where t: "encode_token env (listing_token class (rev (map save_frame st))) = Some t"
    "decode_token env t = Inr (listing_token class (rev (map save_frame st)))"
    using tokens_ok_roundtrip [OF assms(4)] by blast
  have nxt: "l2_next ?r = (if st = [] then None else Some t)"
  proof (cases "st = []")
    case False
    with w(4) ok(2) have "x \<noteq> []" "length x = max_keys_of class" by auto
    moreover have "0 < length (objs x) + length (pres x)"
      using length_objs_pres [of x] \<open>x \<noteq> []\<close> by simp
    ultimately show ?thesis
      using False t(1) length_objs_pres [of x] by (auto simp: list_v2_reply_def Let_def listing_token_def del)
  qed (simp add: list_v2_reply_def Let_def)
  have info: "map (encode_info id) is = is" for "is"
    by (simp add: encode_info_def map_idI)
  show thesis
  proof (rule that [of ?r x "rev (map save_frame st)"])
    show "handle_list_objects_v2 env cfg fs (with_token class tok) path = Some (Inr ?r)"
      using page_walk [OF assms(1-3,5,6)] w(1) unfolding c_def by simp
    show "l2_contents ?r = objs x" "l2_prefixes ?r = pres x"
      by (simp_all add: list_v2_reply_def Let_def info)
    show "l2_next ?r = None \<Longrightarrow> rest_of c frames = x"
      using nxt w(2) by (simp split: if_splits)
    show "page_of env class (Some t') (rev (map save_frame st)) \<and> frames_ok c (rev (map save_frame st)) \<and>
        rest_of c frames = x @ rest_of c (rev (map save_frame st)) \<and> x \<noteq> []" if "l2_next ?r = Some t'" for t'
      using that nxt t(2) w(2,4-6) ok(2) by (auto simp: page_of_def split: if_splits)
  qed (rule w(3))
qed

lemma list_pages_rest:
  assumes "plain_listing env cfg fs class" "tokens_ok env"
    and "join_object_path (gc_root cfg) (bucket_of class) (fst (split_prefix (query_text class ''prefix''))) = Inr p" "is_dir_path fs p"
  defines "c \<equiv> listing_cfg env cfg fs class"
  shows "page_of env class tok frames \<Longrightarrow> frames_ok c frames \<Longrightarrow>
    list_pages env cfg fs class path (Suc (length (rest_of c frames))) tok = Some (objs (rest_of c frames), pres (rest_of c frames))"
proof (induction "length (rest_of c frames)" arbitrary: tok frames rule: less_induct)
  case less
  obtain r x frames' where r: "handle_list_objects_v2 env cfg fs (with_token class tok) path = Some (Inr r)"
    "l2_contents r = objs x" "l2_prefixes r = pres x" "l2_next r = None \<Longrightarrow> rest_of c frames = x"
    "\<And>t. l2_next r = Some t \<Longrightarrow> page_of env class (Some t) frames' \<and> frames_ok c frames' \<and> rest_of c frames = x @ rest_of c frames' \<and> x \<noteq> []"
    using page_result [OF assms(1) less.prems [unfolded c_def] assms(2-4), folded c_def] by metis
  show ?case
  proof (cases "l2_next r")
    case None
    with r show ?thesis by simp
  next
    case (Some t)
    note t = r(5) [OF Some]
    then have "length (rest_of c frames') < length (rest_of c frames)"
      by simp
    from less.hyps [OF this, of "Some t"] t
    have "list_pages env cfg fs class path (Suc (length (rest_of c frames'))) (Some t) = Some (objs (rest_of c frames'), pres (rest_of c frames'))"
      by simp
    then have "list_pages env cfg fs class path (length (rest_of c frames)) (Some t) = Some (objs (rest_of c frames'), pres (rest_of c frames'))"
      using t list_pages_more [of env cfg fs "class" path "Suc (length (rest_of c frames'))" "Some t" _ "length (rest_of c frames)"] by (cases x) auto
    with r(1-3) Some t show ?thesis
      by simp
  qed
qed

end
