(* ===== verification/List_Complete.thy ===== *)
theory List_Complete
  imports List_Objects Listing_Order
begin

text \<open>
  What the pages of a listing hold together: the keys of the bucket that start with the prefix, each
  once and in the order of the bytes.
\<close>

section \<open>The keys of a bucket\<close>

text \<open>
  The keys of a bucket: every file below its directory, and every empty directory with a slash. The
  directory of the uploads is not part of it.
\<close>

definition open_entries :: "str \<Rightarrow> str \<Rightarrow> (str \<times> node) list \<Rightarrow> (str \<times> node) list" where
  "open_entries mpu d es = filter (\<lambda>e. \<not> (d = [] \<and> is_dir (snd e) \<and> fst e = mpu)) es"

definition bucket_dir :: "gw_cfg \<Rightarrow> node \<Rightarrow> str \<Rightarrow> (str \<times> node) list" where
  "bucket_dir cfg fs bucket =
     (case node_at fs (components (gc_root cfg) @ [bucket]) of Inr (Dir a sz es) \<Rightarrow> es | _ \<Rightarrow> [])"

definition bucket_keys :: "gw_cfg \<Rightarrow> node \<Rightarrow> str \<Rightarrow> str set" where
  "bucket_keys cfg fs bucket = (\<Union>e\<in>set (open_entries (gc_mpu cfg) [] (bucket_dir cfg fs bucket)). tree_keys [] e)"

definition dir_keys :: "str \<Rightarrow> (str \<times> node) list \<Rightarrow> str set" where
  "dir_keys d es = (\<Union>e\<in>set es. tree_keys d e)"

lemma split_first_eq:
  assumes "CHR ''/'' \<notin> set s" "CHR ''/'' \<notin> set t" "s @ CHR ''/'' # u = t @ CHR ''/'' # v"
  shows "s = t \<and> u = v"
  using assms by (simp add: append_eq_append_conv2) (auto simp: append_eq_Cons_conv Cons_eq_append_conv)

lemma tree_keys_below:
  assumes "valid_name (fst e)" "wf_node (snd e)" "valid_name s" "k \<in> tree_keys d e" "starts_with (d @ s @ ''/'' @ w) k"
  shows "fst e = s \<and> is_dir (snd e)"
proof -
  obtain u where u: "k = d @ entry_key e @ u" "\<not> is_dir (snd e) \<longrightarrow> u = []"
    using tree_keys_start [OF assms(2,4)] by blast
  obtain v where v: "entry_key e @ u = s @ CHR ''/'' # v"
    using assms(5) unfolding u(1) by (auto simp: starts_with_iff)
  have sl: "CHR ''/'' \<notin> set (fst e)" "CHR ''/'' \<notin> set s"
    using valid_nameD [OF assms(1)] valid_nameD [OF assms(3)] by blast+
  show ?thesis
  proof (cases "is_dir (snd e)")
    case True
    with v split_first_eq [OF sl, of u v] show ?thesis by (simp add: entry_key_def)
  next
    case False
    with u(2) v sl(1) show ?thesis by (simp add: entry_key_def)
  qed
qed

text \<open>The keys with the name of a directory at their front are the keys of that directory.\<close>

definition keys_at :: "io_kind + node \<Rightarrow> str \<Rightarrow> bool \<Rightarrow> str set" where
  "keys_at r d inner =
     (case r of Inr (Dir a sz es) \<Rightarrow> if es = [] \<and> inner then {d} else dir_keys d es | _ \<Rightarrow> {})"

lemma keys_child:
  assumes "wf_node (Dir a sz es)" "valid_name s" "map_of es s = Some m"
  shows "{k \<in> dir_keys d es. starts_with (d @ s @ ''/'' @ w) k} = {k \<in> tree_keys d (s, m). is_dir m \<and> starts_with (d @ s @ ''/'' @ w) k}"
proof (intro set_eqI iffI)
  fix k
  assume k: "k \<in> {k \<in> dir_keys d es. starts_with (d @ s @ ''/'' @ w) k}"
  then obtain e where e: "e \<in> set es" "k \<in> tree_keys d e" by (auto simp: dir_keys_def)
  moreover have "fst e = s" "is_dir (snd e)"
    using tree_keys_below [OF _ _ assms(2) e(2)] k e(1) assms(1) by auto
  moreover have "e = (s, m)"
    using eq_key_imp_eq_value [of es s "snd e" m] e(1) \<open>fst e = s\<close> map_of_SomeD [OF assms(3)] assms(1) by (cases e) simp
  ultimately show "k \<in> {k \<in> tree_keys d (s, m). is_dir m \<and> starts_with (d @ s @ ''/'' @ w) k}"
    using k by simp
qed (use map_of_SomeD [OF assms(3)] in \<open>auto simp: dir_keys_def\<close>)

lemma keys_no_child:
  assumes "wf_node (Dir a sz es)" "valid_name s" "map_of es s = None"
  shows "{k \<in> dir_keys d es. starts_with (d @ s @ ''/'' @ w) k} = {}"
proof -
  have "fst e = s" if "e \<in> set es" "k \<in> tree_keys d e" "starts_with (d @ s @ ''/'' @ w) k" for e k
    using tree_keys_below [OF _ _ assms(2) that(2,3)] that(1) assms(1) by auto
  with assms(3) show ?thesis
    by (force simp: dir_keys_def map_of_eq_None_iff)
qed

lemma dir_key_Cons: "dir_key (s # ds) = s @ ''/'' @ dir_key ds" "dir_key ds = [] \<longleftrightarrow> ds = []"
  by (cases ds; simp add: dir_key_def)+

lemma keys_below:
  "\<forall>s\<in>set ds. valid_name s \<Longrightarrow> wf_node (Dir a sz es) \<Longrightarrow> ds \<noteq> [] \<Longrightarrow>
    {k \<in> dir_keys d es. starts_with (d @ dir_key ds @ w) k} = {k \<in> keys_at (node_at (Dir a sz es) ds) (d @ dir_key ds) True. starts_with (d @ dir_key ds @ w) k}"
proof (induction ds arbitrary: d a sz es)
  case (Cons s ds)
  have s: "valid_name s" using Cons.prems(1) by simp
  show ?case
  proof (cases "map_of es s")
    case None
    with keys_no_child [OF Cons.prems(2) s None, of d "dir_key ds @ w"] show ?thesis
      by (simp add: keys_at_def dir_key_Cons)
  next
    case (Some m)
    note sub = keys_child [OF Cons.prems(2) s Some, of d "dir_key ds @ w"]
    show ?thesis
    proof (cases m)
      case (Dir a' sz' es')
      have wf: "wf_node (Dir a' sz' es')"
        using bspec [OF conjunct2 [OF Cons.prems(2) [unfolded wf_node.simps]] map_of_SomeD [OF Some]] Dir by simp
      show ?thesis
      proof (cases "ds = []")
        case True
        with Some Dir sub show ?thesis
          by (auto simp: keys_at_def dir_keys_def dir_key_def)
      next
        case False
        have "{k \<in> dir_keys (d @ s @ ''/'') es'. starts_with ((d @ s @ ''/'') @ dir_key ds @ w) k} =
            {k \<in> keys_at (node_at (Dir a' sz' es') ds) ((d @ s @ ''/'') @ dir_key ds) True. starts_with ((d @ s @ ''/'') @ dir_key ds @ w) k}"
          using Cons.prems(1) wf False by (intro Cons.IH) auto
        then show ?thesis
          using Some Dir sub False dir_key_Cons(2) [of ds]
          by (auto simp: dir_keys_def dir_key_Cons(1) starts_with_iff split: if_splits)
      qed
    qed (use Some sub in \<open>cases ds; auto simp: keys_at_def dir_key_Cons\<close>)+
  qed
qed simp

section \<open>The first page\<close>

lemma all_access_at: "all_access n \<Longrightarrow> node_at n p = Inr m \<Longrightarrow> all_access m"
proof (induction n p rule: node_at.induct)
  case (2 n s ss)
  then show ?case
    by (cases n) (auto split: option.splits dest!: map_of_SomeD)
qed simp

lemma out_entry_mpu: "d = [] \<Longrightarrow> is_dir (snd e) \<Longrightarrow> fst e = wc_mpu c \<Longrightarrow> out_entry c d e = []"
  by (cases e; cases "snd e") auto

lemma concat_open: "concat (map (out_entry c d) es) = concat (map (out_entry c d) (open_entries (wc_mpu c) d es))"
  by (induction es) (auto simp: open_entries_def out_entry_mpu)

lemma sorted_open: "sorted_wrt R (map f es) \<Longrightarrow> sorted_wrt R (map f (open_entries mpu d es))"
  by (auto simp: open_entries_def sorted_wrt_map sorted_wrt_filter)

lemma set_open: "set (open_entries mpu d es) = {e \<in> set es. \<not> (d = [] \<and> is_dir (snd e) \<and> fst e = mpu)}"
  by (auto simp: open_entries_def)

text \<open>A leaf of the prefix keeps the entries whose keys may start with it.\<close>

lemma leaf_entry:
  assumes "valid_name (fst e)" "wf_node (snd e)" "k \<in> tree_keys d e" "starts_with (d @ l) k" "CHR ''/'' \<notin> set l"
  shows "starts_with l (entry_key e)"
proof -
  obtain u where u: "k = d @ entry_key e @ u" "\<not> is_dir (snd e) \<longrightarrow> u = []"
    using tree_keys_start [OF assms(2,3)] by blast
  then obtain v where v: "entry_key e @ u = l @ v"
    using assms(4) by (auto simp: starts_with_iff)
  show ?thesis
  proof (cases "is_dir (snd e)")
    case True
    with v have "fst e @ CHR ''/'' # u = l @ v" by (simp add: entry_key_def)
    then obtain x where "fst e = l @ x"
      using assms(5) by (auto simp: append_eq_append_conv2 append_eq_Cons_conv Cons_eq_append_conv)
    with True show ?thesis by (simp add: entry_key_def starts_with_iff)
  qed (use u v in \<open>auto simp: starts_with_iff\<close>)
qed

text \<open>The whole walk from the directory of a prefix.\<close>

lemma walk_keys:
  assumes "cfg_ok c" "wc_recursive c" "wf_node (Dir a sz es)" "all_access (Dir a sz es)" "entries_of c d = Some es"
    and "wc_prefix c = d @ l" "wc_leaf c = (if l = [] then None else Some l)" "CHR ''/'' \<notin> set l"
  defines "out \<equiv> concat (map (out_entry c d) (loaded c True d))"
  shows "pres out = []" "sorted_wrt (<) (keys_of out)"
    "set (keys_of out) = {k \<in> dir_keys d (open_entries (wc_mpu c) d es). starts_with (d @ l) k}"
proof -
  define xs where "xs = open_entries (wc_mpu c) d (loaded c True d)"
  have loaded: "loaded c True d = filter (\<lambda>e. starts_with l (entry_key e)) (sort_entries es)"
    using assms(5,7) by (simp add: loaded_def starts_with_def)
  have out: "out = concat (map (out_entry c d) xs)"
    unfolding out_def xs_def by (rule concat_open)
  have xs: "\<forall>e\<in>set xs. valid_name (fst e) \<and> wf_node (snd e) \<and> all_access (snd e) \<and> \<not> (d = [] \<and> is_dir (snd e) \<and> fst e = wc_mpu c)"
    using assms(3,4) by (auto simp: xs_def set_open loaded)
  have each: "set (keys_of (out_entry c d e)) = {k \<in> tree_keys d e. starts_with (d @ l) k}" "pres (out_entry c d e) = []" if "e \<in> set xs" for e
    using out_entry_keys [OF assms(2), of e d] xs that assms(6) by auto
  show "pres out = []"
    using each(2) by (simp add: out pres_concat)
  have "sorted_wrt (<) (map entry_key (sort_entries es))"
    using assms(3) by (intro sort_entries_strict) auto
  then have "sorted_wrt (<) (map entry_key xs)"
    unfolding xs_def loaded by (intro sorted_open) (simp add: sorted_wrt_map sorted_wrt_filter)
  then show "sorted_wrt (<) (keys_of out)"
    unfolding out using xs out_entry_sorted [OF assms(2)] by (intro sorted_out [OF assms(2)]) auto
  have "set (keys_of out) = (\<Union>e\<in>set xs. {k \<in> tree_keys d e. starts_with (d @ l) k})"
    using each(1) by (simp add: out keys_of_concat)
  also have "\<dots> = {k \<in> dir_keys d (open_entries (wc_mpu c) d es). starts_with (d @ l) k}"
    using leaf_entry [OF _ _ _ _ assms(8)] assms(3) by (auto 4 4 simp: xs_def set_open loaded dir_keys_def)
  finally show "set (keys_of out) = {k \<in> dir_keys d (open_entries (wc_mpu c) d es). starts_with (d @ l) k}" .
qed

text \<open>The keys a listing is to name: those with the prefix, save the prefix itself when it is a directory.\<close>

definition listed_keys :: "gw_cfg \<Rightarrow> node \<Rightarrow> str \<Rightarrow> str \<Rightarrow> str set" where
  "listed_keys cfg fs bucket pfx =
     {k \<in> bucket_keys cfg fs bucket. starts_with pfx k \<and> \<not> (k = pfx \<and> ends_with ''/'' pfx)}"

lemma tree_keys_longer: "valid_name (fst e) \<Longrightarrow> wf_node (snd e) \<Longrightarrow> k \<in> tree_keys d e \<Longrightarrow> k \<noteq> d"
  using tree_keys_start [of e k d] by (auto simp: entry_key_def valid_name_def safe_segment_def split: if_splits)

lemma dir_keys_longer: "wf_node (Dir a sz es) \<Longrightarrow> d \<notin> dir_keys d es"
proof
  assume wf: "wf_node (Dir a sz es)" and "d \<in> dir_keys d es"
  then obtain e where e: "e \<in> set es" "d \<in> tree_keys d e" by (auto simp: dir_keys_def)
  with wf have "valid_name (fst e)" "wf_node (snd e)" by auto
  from tree_keys_longer [OF this e(2)] show False by simp
qed

lemma ends_slash_dir_key: "CHR ''/'' \<notin> set l \<Longrightarrow> ends_with ''/'' (dir_key ds @ l) \<longleftrightarrow> l = [] \<and> ds \<noteq> []"
  by (cases l rule: rev_cases; cases ds rule: rev_cases) (auto simp: ends_with_def starts_with_def dir_key_def)

lemma listed_keys_at:
  assumes "node_at fs (components (gc_root cfg) @ [bucket]) = Inr (Dir a sz es)" "wf_node (Dir a sz es)"
    and "\<forall>s\<in>set ds. valid_name s" "CHR ''/'' \<notin> set l" "ds \<noteq> [] \<Longrightarrow> hd ds \<noteq> gc_mpu cfg"
  shows "listed_keys cfg fs bucket (dir_key ds @ l) =
    (case node_at (Dir a sz es) ds of
       Inr (Dir a' sz' es') \<Rightarrow> {k \<in> dir_keys (dir_key ds) (open_entries (gc_mpu cfg) (dir_key ds) es'). starts_with (dir_key ds @ l) k}
     | _ \<Rightarrow> {})"
proof (cases "ds = []")
  case True
  then show ?thesis
    using assms(1) ends_slash_dir_key [OF assms(4), of "[]"] by (auto simp: listed_keys_def bucket_keys_def bucket_dir_def dir_keys_def dir_key_def)
next
  case False
  let ?es = "open_entries (gc_mpu cfg) [] es"
  have wf: "wf_node (Dir a sz ?es)"
    using assms(2) by (auto simp: open_entries_def intro: distinct_map_filter)
  have same: "map_of ?es (hd ds) = map_of es (hd ds)"
    using assms(5) False by (induction es) (auto simp: open_entries_def)
  then have at: "node_at (Dir a sz ?es) ds = node_at (Dir a sz es) ds"
    using False by (cases ds) simp_all
  have "{k \<in> bucket_keys cfg fs bucket. starts_with (dir_key ds @ l) k} = {k \<in> keys_at (node_at (Dir a sz es) ds) (dir_key ds) True. starts_with (dir_key ds @ l) k}"
    using keys_below [OF assms(3) wf False, of "[]" l] assms(1) at by (simp add: bucket_keys_def bucket_dir_def dir_keys_def)
  then have "listed_keys cfg fs bucket (dir_key ds @ l) = {k \<in> keys_at (node_at (Dir a sz es) ds) (dir_key ds) True. starts_with (dir_key ds @ l) k \<and> \<not> (k = dir_key ds \<and> l = [])}"
    using ends_slash_dir_key [OF assms(4), of ds] False by (auto simp: listed_keys_def)
  also have "\<dots> = (case node_at (Dir a sz es) ds of
       Inr (Dir a' sz' es') \<Rightarrow> {k \<in> dir_keys (dir_key ds) (open_entries (gc_mpu cfg) (dir_key ds) es'). starts_with (dir_key ds @ l) k}
     | _ \<Rightarrow> {})"
  proof (cases "node_at (Dir a sz es) ds")
    case (Inr m)
    show ?thesis
    proof (cases m)
      case (Dir a' sz' es')
      have "dir_key ds \<notin> dir_keys (dir_key ds) es'"
        using dir_keys_longer wf_node_at [OF assms(2) Inr] unfolding Dir .
      with Inr Dir False show ?thesis
        by (auto simp: keys_at_def open_entries_def dir_key_Cons(2) starts_with_iff) (auto simp: dir_keys_def)
    qed (use Inr in \<open>simp_all add: keys_at_def\<close>)
  qed (simp add: keys_at_def)
  finally show ?thesis .
qed

section \<open>All pages\<close>

lemma plain_listing_parts:
  assumes "plain_listing env cfg fs class"
  obtains ds l a sz es p where "split_on CHR ''/'' (query_text class ''prefix'') = ds @ [l]" "\<forall>s\<in>set ds. valid_name s"
    "node_at fs (components (gc_root cfg) @ [bucket_of class]) = Inr (Dir a sz es)"
    "join_object_path (gc_root cfg) (bucket_of class) (dir_key ds) = Inr p"
    "components p = components (gc_root cfg) @ bucket_of class # ds"
    "hd (ds @ [l]) \<noteq> gc_mpu cfg"
proof -
  let ?pfx = "query_text class ''prefix''"
  have root: "proper_root (gc_root cfg)" and mpu: "mpu_dir_ok (gc_mpu cfg)" and names: "\<forall>s\<in>set (butlast (split_on CHR ''/'' ?pfx)). valid_name s"
    and free: "\<not> is_reserved_first_segment ?pfx (gc_mpu cfg)"
    using assms by (simp_all add: plain_listing_def)
  obtain ds l where dl: "split_on CHR ''/'' ?pfx = ds @ [l]"
    using split_on_not_Nil [of "CHR ''/''" ?pfx] by (metis append_butlast_last_id)
  then have ds: "\<forall>s\<in>set ds. valid_name s"
    using names by simp
  obtain b where b: "join_object_path (gc_root cfg) (bucket_of class) [] = Inr b" "is_dir_path fs b"
    using assms by (auto simp: plain_listing_def bucket_exists_dir_def bucket_root_path_def split: sum.splits)
  have "components b = components (gc_root cfg) @ [bucket_of class]"
    using components_join [OF root b(1)] by (simp add: key_segments_def)
  then obtain a sz es where node: "node_at fs (components (gc_root cfg) @ [bucket_of class]) = Inr (Dir a sz es)"
    using b(2) by (auto simp: is_dir_path_def metadata_def split: sum.splits node.splits elim!: is_dir.elims)
  have seg: "key_segments (dir_key ds) = ds"
    by (rule key_segments_dir_key [OF ds])
  have "safe_segment (bucket_of class)"
    using b(1) join_object_path_ok [OF root] by blast
  then obtain p where p: "join_object_path (gc_root cfg) (bucket_of class) (dir_key ds) = Inr p"
    using join_object_path_ok [OF root, of "bucket_of class" "dir_key ds"] ds unfolding seg by (auto simp: valid_name_def)
  show thesis
    using that [OF dl ds node p] components_join [OF root p] free is_reserved_iff [OF mpu, of ?pfx] by (simp add: seg dl)
qed

lemma list_pages_empty:
  assumes "plain_listing env cfg fs class"
    and "join_object_path (gc_root cfg) (bucket_of class) (fst (split_prefix (query_text class ''prefix''))) = Inr p" "\<not> is_dir_path fs p"
  shows "list_pages env cfg fs class path (Suc 0) None = Some ([], [])"
proof -
  have "bucket_of class \<noteq> []"
    using assms(1) by (auto simp: plain_listing_def bucket_exists_dir_def bucket_root_path_def join_object_path_def)
  with assms show ?thesis
    by (auto simp: with_token_def handle_list_objects_v2_def plain_listing_def require_bucket_def list_v2_walk_def empty_list_v2_def list_enc_def Let_def)
qed

lemma hd_split_dir_key: "\<forall>s\<in>set ds. valid_name s \<Longrightarrow> hd (split_on CHR ''/'' (dir_key ds)) = (if ds = [] then [] else hd ds)"
proof (cases ds)
  case (Cons s ss)
  moreover assume "\<forall>s\<in>set ds. valid_name s"
  ultimately show ?thesis
    using takeWhile_until [of "CHR ''/''" s "s @ CHR ''/'' # dir_key ss"] valid_nameD(4) [of s] by (auto simp: hd_split dir_key_Cons(1))
qed (simp add: dir_key_def)

section \<open>An example\<close>

text \<open>Tokens as text, a bucket with a file, an empty directory and an upload, and a request for pages of one key.\<close>

definition put_str :: "str \<Rightarrow> str" where
  "put_str s = replicate (length s) CHR ''a'' @ CHR ''b'' # s"

definition get_str :: "str \<Rightarrow> str \<times> str" where
  "get_str t = (let n = length (takeWhile (\<lambda>c. c = CHR ''a'') t); r = drop (Suc n) t in (take n r, drop n r))"

fun put_frames :: "list_frame list \<Rightarrow> str" where
  "put_frames [] = []"
| "put_frames (f # fs) = put_str (fr_dir f) @ put_str (fr_after f) @ put_frames fs"

fun get_frames :: "nat \<Rightarrow> str \<Rightarrow> list_frame list" where
  "get_frames 0 t = []"
| "get_frames (Suc n) t =
     (let (d, t1) = get_str t; (a, t2) = get_str t1 in \<lparr>fr_dir = d, fr_after = a\<rparr> # get_frames n t2)"

definition put_token :: "list_token \<Rightarrow> str" where
  "put_token t =
     put_str (replicate (unat (lt_v t)) CHR ''x'') @ put_str (lt_bucket t) @ put_str (lt_prefix t) @
     put_str (case lt_delimiter t of None \<Rightarrow> [] | Some d \<Rightarrow> CHR ''x'' # d) @
     put_str (replicate (length (lt_stack t)) CHR ''x'') @ put_frames (lt_stack t)"

definition get_token :: "str \<Rightarrow> list_token" where
  "get_token t =
     (let (v, t1) = get_str t; (b, t2) = get_str t1; (p, t3) = get_str t2; (d, t4) = get_str t3; (n, t5) = get_str t4
      in \<lparr>lt_v = of_nat (length v), lt_bucket = b, lt_prefix = p, lt_delimiter = (if d = [] then None else Some (tl d)),
          lt_stack = get_frames (length n) t5\<rparr>)"

lemma get_put_str: "get_str (put_str s @ r) = (s, r)"
proof -
  have "takeWhile (\<lambda>c. c = CHR ''a'') (replicate n CHR ''a'' @ CHR ''b'' # t) = replicate n CHR ''a''" for n t
    by (induction n) simp_all
  then show ?thesis
    by (simp add: get_str_def put_str_def Let_def)
qed

lemma get_put_frames: "get_frames (length fs) (put_frames fs) = fs"
  by (induction fs) (simp_all add: get_put_str)

lemma get_put_token: "get_token (put_token t) = t"
  by (simp add: get_token_def put_token_def get_put_str get_put_frames split: option.splits)

definition example_list_env :: list_env where
  "example_list_env =
     \<lparr>le_lookup = (\<lambda>u. None), le_time = (\<lambda>t. []), le_pct_encode = (\<lambda>s P. s), le_non_alphanumeric = (\<lambda>c. False),
      le_to_json = (\<lambda>t. Some (put_token t)), le_from_json = (\<lambda>s. Inr (get_token s)), le_b64_encode = id, le_b64_decode = Inr, le_debug = (\<lambda>d. [])\<rparr>"

definition example_gw_cfg :: gw_cfg where
  "example_gw_cfg =
     \<lparr>gc_bind_addr = [], gc_bind_uds = None, gc_root = ''/srv'', gc_access_key = ''AK'', gc_secret_key = ''SK'',
      gc_public_scheme = ''http'', gc_region = ''us-east-1'', gc_chunk_size = 4194304, gc_inflight = 16, gc_pool_size = 128,
      gc_direct_io = False, gc_copy_max_size = 1024, gc_mpu = ''.mpu'', gc_suffixes = [], gc_worker_token = ''tok'', gc_bucket_acl = []\<rparr>"

definition example_attrs :: attrs where
  "example_attrs = \<lparr>at_dev = 1, at_ino = 1, at_mtime = 0, at_uid = 0, at_mode = 0, at_access = True, at_link = False, at_xattrs = []\<rparr>"

definition example_fs :: node where
  "example_fs = Dir example_attrs 0 [(''srv'', Dir example_attrs 0 [(''b'', Dir example_attrs 0
     [(''b'', Reg example_attrs ''hi''), (''.mpu'', Dir example_attrs 0 [(''up'', Reg example_attrs [])]),
      (''a'', Dir example_attrs 0 [])])])]"

definition example_listing :: "(str \<times> str list) list \<Rightarrow> s3_request_class" where
  "example_listing q = \<lparr>rc_bucket = Some ''b'', rc_key = None, rc_query = q, rc_op = Read ListObjectsV2\<rparr>"

lemma example_tokens_ok: "tokens_ok example_list_env"
  by (simp add: tokens_ok_def example_list_env_def get_put_token)

lemma example_request:
  "bucket_of (example_listing q) = ''b''" "rc_query (example_listing q) = q"
  by (simp_all add: example_listing_def bucket_of_def)

lemmas example_first = first_def to_ascii_lowercase_def to_lower_def is_ascii_upper_def

lemma example_plain: "plain_listing example_list_env example_gw_cfg example_fs (example_listing [(''list-type'', [''2'']), (''max-keys'', [''1''])])"
  unfolding plain_listing_def
proof (intro conjI)
  show "wf_node example_fs"
    by (simp add: example_fs_def valid_name_def safe_segment_def)
  show "bucket_exists_dir example_fs (gc_root example_gw_cfg) (bucket_of (example_listing [(''list-type'', [''2'']), (''max-keys'', [''1''])])) = Inr True"
    by (simp add: example_request bucket_exists_dir_def bucket_root_path_def join_object_path_def example_gw_cfg_def path_push_def starts_with_def
          is_dir_path_def metadata_def components_def example_fs_def)
  show "0 < max_keys_of (example_listing [(''list-type'', [''2'']), (''max-keys'', [''1''])])"
  proof -
    have "parse_u32_std ''1'' = Some 1"
      by (simp add: parse_u32_std_def from_str_radix_def digit_of_def is_ascii_digit_def)
    then show ?thesis
      by (simp add: max_keys_of_def example_request example_first)
  qed
qed (simp_all add: example_request example_first example_gw_cfg_def proper_root_def mpu_dir_ok_def delimiter_of_def query_text_def
       is_reserved_first_segment_def trim_end_matches_def strip_prefix_def starts_with_def)

section \<open>Completeness\<close>



section \<open>Answers\<close>

lemma list_loop_v1_eq:
  assumes "list_loop c m s = Some y"
  shows "\<exists>l'. list_loop_v1 c m s l = Some (y, l')"
proof -
  have "\<forall>l. \<exists>l'. list_loop_v1 c m s l = Some (y, l')"
    by (rule list_loop.raw_induct [of "\<lambda>c m s y. \<forall>l. \<exists>l'. list_loop_v1 c m s l = Some (y, l')", OF _ assms],
        subst list_loop_v1.simps) (auto simp del: split_paired_All split: if_splits option.splits)
  then show ?thesis ..
qed

lemma bucket_name_ok:
  assumes "proper_root (gc_root cfg)" "wf_node fs" "require_bucket cfg fs bucket path = None"
  shows "CHR 0x00 \<notin> set bucket"
proof -
  obtain b where b: "join_object_path (gc_root cfg) bucket [] = Inr b" "is_dir_path fs b"
    using assms(3) by (auto simp: require_bucket_def bucket_exists_dir_def bucket_root_path_def split: sum.splits bool.splits)
  have "components b = components (gc_root cfg) @ [bucket]"
    using components_join [OF assms(1) b(1)] by (simp add: key_segments_def)
  then obtain n where "node_at fs (components (gc_root cfg) @ [bucket]) = Inr n"
    using b(2) by (auto simp: is_dir_path_def metadata_def split: sum.splits)
  then obtain m where m: "node_at fs (components (gc_root cfg)) = Inr m" "node_at m [bucket] = Inr n"
    by (auto simp: node_at_append split: sum.splits)
  from wf_node_at [OF assms(2) m(1)] m(2) show ?thesis
    by (auto split: node.splits option.splits dest!: map_of_SomeD valid_nameD(5))
qed



section \<open>Markers\<close>

lemma example_max_keys: "max_keys_of (example_listing [(''marker'', [m]), (''max-keys'', [''1''])]) = 1"
proof -
  have "parse_u32_std ''1'' = Some 1"
    by (simp add: parse_u32_std_def from_str_radix_def digit_of_def is_ascii_digit_def)
  then show ?thesis
    by (simp add: max_keys_of_def example_request example_first)
qed

lemma example_marker_loop:
  "map_option (list_v1_reply id [] ''a/'' True 1 None)
     (list_loop_v1 (list_walk_cfg example_list_env example_gw_cfg example_fs ''b'' [] True True) 1
        (map start_frame (rev (build_stack_from_last [] ''a/'' True)), [], []) None) =
   Some \<lparr>l1_prefix = [], l1_delimiter = None, l1_marker = ''a/'', l1_next_marker = Some ''a/'', l1_max_keys = 1, l1_truncated = True,
     l1_encoding = None,
     l1_contents = [object_info (list_walk_cfg example_list_env example_gw_cfg example_fs ''b'' [] True True) ''a/'' 0 (stat_of (Dir example_attrs 0 []))],
     l1_prefixes = []\<rparr>"
  by code_simp


section \<open>The reserved directory\<close>

text \<open>
  C39. The check of reserved keys looks at the text before the first slash, and paths are built without
  the empty segments: a key with a slash in front of the name of the directory of the uploads
  passes the check and has the path of the key without that slash, which does not pass it.
\<close>
theorem reserved_check_bypassed:
  assumes "mpu_dir_ok mpu"
  shows "is_reserved_first_segment (mpu @ ''/'' @ k) mpu \<and> \<not> is_reserved_first_segment (''/'' @ mpu @ ''/'' @ k) mpu \<and>
    join_object_path root bucket (''/'' @ mpu @ ''/'' @ k) = join_object_path root bucket (mpu @ ''/'' @ k)"
proof -
  have mpu: "mpu \<noteq> []" "CHR ''/'' \<notin> set mpu"
    using assms by (simp_all add: mpu_dir_ok_def)
  have "hd (split_on CHR ''/'' (mpu @ ''/'' @ k)) = mpu"
    using takeWhile_until [OF mpu(2), of "mpu @ ''/'' @ k"] by (auto simp: hd_split)
  moreover have "hd (split_on CHR ''/'' (''/'' @ mpu @ ''/'' @ k)) \<noteq> mpu"
    using mpu(1) by (simp add: hd_split)
  ultimately show ?thesis
    unfolding is_reserved_iff [OF assms] by (simp add: join_object_path_def)
qed

theorem reserved_check_bypassed_witness:
  "\<not> is_reserved_first_segment ''/.mpu/up'' ''.mpu'' \<and> is_reserved_first_segment ''.mpu/up'' ''.mpu'' \<and>
   join_object_path ''/srv'' ''b'' ''/.mpu/up'' = join_object_path ''/srv'' ''b'' ''.mpu/up''"
  using reserved_check_bypassed [of "''.mpu''" "''up''" "''/srv''" "''b''"] by (simp add: mpu_dir_ok_def)

end
