(* ===== verification/S3_Xml.thy ===== *)
theory S3_Xml
  imports Log_Redact Http_Utils
begin

text \<open>
  The XML bodies of \<open>crates/s32p-support/src/s3xml.rs\<close>: the documents of the replies, the parsers of
  the requests, and the limits on tags, metadata and content types. The writer and the reader of the
  quick-xml crate are parameters. A document is the tree that the structs with their serde
  attributes describe; what the reader gives is the list of its events up to the end of the input or
  the first error, with \<open>trim_text\<close> set.
\<close>

section \<open>Requests\<close>

datatype xml_event =
  StartEv str | EndEv str | TextEv "str + str" | RefEv str | OtherEv | ErrEv str

type_synonym xml_reader = "str \<Rightarrow> xml_event list"

definition local_name :: "str \<Rightarrow> str" where
  "local_name name = (case rsplit_once CHR '':'' name of Some (p, n) \<Rightarrow> n | None \<Rightarrow> name)"

definition decode_text :: "str + str \<Rightarrow> str + str" where
  "decode_text t = (case t of Inl e \<Rightarrow> Inl (''xml text decode error: '' @ e) | Inr s \<Rightarrow> Inr s)"

fun delete_events :: "xml_event list \<Rightarrow> bool \<Rightarrow> bool \<Rightarrow> bool \<Rightarrow> str list \<Rightarrow> str + bool \<times> str list" where
  "delete_events [] in_key in_quiet quiet keys = Inr (quiet, keys)"
| "delete_events (StartEv name # es) in_key in_quiet quiet keys =
     (let n = local_name name in
      if n = ''Key'' then delete_events es True in_quiet quiet keys
      else if n = ''Quiet'' then delete_events es in_key True quiet keys
      else delete_events es in_key in_quiet quiet keys)"
| "delete_events (EndEv name # es) in_key in_quiet quiet keys =
     (let n = local_name name in
      if n = ''Key'' then delete_events es False in_quiet quiet keys
      else if n = ''Quiet'' then delete_events es in_key False quiet keys
      else delete_events es in_key in_quiet quiet keys)"
| "delete_events (TextEv t # es) in_key in_quiet quiet keys =
     rbind (decode_text t) (\<lambda>s.
       if in_key then delete_events es in_key in_quiet quiet (if s \<noteq> [] then keys @ [s] else keys)
       else if in_quiet then
         (let v = trim s in delete_events es in_key in_quiet (eq_ignore_ascii_case v ''true'' \<or> v = ''1'') keys)
       else delete_events es in_key in_quiet quiet keys)"
| "delete_events (ErrEv e # es) in_key in_quiet quiet keys = Inl (''bad DeleteObjects XML: '' @ e)"
| "delete_events (RefEv r # es) in_key in_quiet quiet keys = delete_events es in_key in_quiet quiet keys"
| "delete_events (OtherEv # es) in_key in_quiet quiet keys = delete_events es in_key in_quiet quiet keys"

definition parse_delete_objects_request :: "xml_reader \<Rightarrow> str \<Rightarrow> str + bool \<times> str list" where
  "parse_delete_objects_request reader xml = delete_events (reader xml) False False False []"

fun part_events :: "xml_event list \<Rightarrow> bool \<Rightarrow> u32 list \<Rightarrow> str + u32 list" where
  "part_events [] in_pn parts = Inr parts"
| "part_events (StartEv name # es) in_pn parts = part_events es (in_pn \<or> local_name name = ''PartNumber'') parts"
| "part_events (EndEv name # es) in_pn parts = part_events es (in_pn \<and> local_name name \<noteq> ''PartNumber'') parts"
| "part_events (TextEv t # es) in_pn parts =
     (if in_pn then
        rbind (decode_text t) (\<lambda>s.
          case parse_u32_std (trim s) of
            None \<Rightarrow> Inl (''invalid PartNumber: '' @ s)
          | Some pn \<Rightarrow> part_events es in_pn (parts @ [pn]))
      else part_events es in_pn parts)"
| "part_events (ErrEv e # es) in_pn parts = Inl (''bad CompleteMultipartUpload XML: '' @ e)"
| "part_events (RefEv r # es) in_pn parts = part_events es in_pn parts"
| "part_events (OtherEv # es) in_pn parts = part_events es in_pn parts"

definition parse_complete_parts :: "xml_reader \<Rightarrow> str \<Rightarrow> str + u32 list" where
  "parse_complete_parts reader xml =
     rbind (part_events (reader xml) False []) (\<lambda>parts.
       if parts = [] then Inl ''no parts in CompleteMultipartUpload''
       else Inr (remdups_adj (sort parts)))"

definition is_ascii_whitespace :: "char \<Rightarrow> bool" where
  "is_ascii_whitespace c \<longleftrightarrow> byte c \<in> {9, 10, 12, 13, 32}"

record acl_scan =
  as_grantee :: bool
  as_in_uri :: bool
  as_in_permission :: bool
  as_uri :: "str option"
  as_permission :: "str option"
  as_world :: bool

definition acl_start :: "str \<Rightarrow> acl_scan \<Rightarrow> acl_scan" where
  "acl_start n s =
     (if n = ''Grantee'' then s\<lparr>as_grantee := True, as_uri := None\<rparr>
      else if as_grantee s \<and> n = ''URI'' then s\<lparr>as_in_uri := True\<rparr>
      else if n = ''Grant'' then s\<lparr>as_permission := None\<rparr>
      else if n = ''Permission'' then s\<lparr>as_in_permission := True\<rparr>
      else s)"

definition acl_end :: "str \<Rightarrow> acl_scan \<Rightarrow> acl_scan" where
  "acl_end n s =
     (if n = ''Grantee'' then s\<lparr>as_grantee := False\<rparr>
      else if n = ''URI'' then s\<lparr>as_in_uri := False\<rparr>
      else if n = ''Permission'' then s\<lparr>as_in_permission := False\<rparr>
      else if n = ''Grant'' then
        (let public = (case as_uri s of Some u \<Rightarrow> contains_str ''AllUsers'' u | None \<Rightarrow> False);
             perm = unwrap_or (as_permission s) []
         in s\<lparr>as_world := as_world s \<or>
                (public \<and> (eq_ignore_ascii_case perm ''READ'' \<or> eq_ignore_ascii_case perm ''FULL_CONTROL'')),
              as_uri := None, as_permission := None\<rparr>)
      else s)"

definition acl_text :: "str \<Rightarrow> acl_scan \<Rightarrow> acl_scan" where
  "acl_text t s =
     (if as_in_uri s then s\<lparr>as_uri := Some t\<rparr>
      else if as_in_permission s then s\<lparr>as_permission := Some t\<rparr>
      else s)"

fun acl_events :: "xml_event list \<Rightarrow> acl_scan \<Rightarrow> str + acl_scan" where
  "acl_events [] s = Inr s"
| "acl_events (StartEv name # es) s = acl_events es (acl_start (local_name name) s)"
| "acl_events (EndEv name # es) s = acl_events es (acl_end (local_name name) s)"
| "acl_events (TextEv t # es) s = rbind (decode_text t) (\<lambda>x. acl_events es (acl_text x s))"
| "acl_events (ErrEv e # es) s = Inl (''bad PutAcl XML: '' @ e)"
| "acl_events (RefEv r # es) s = acl_events es s"
| "acl_events (OtherEv # es) s = acl_events es s"

definition acl_scan_new :: acl_scan where
  "acl_scan_new =
     \<lparr>as_grantee = False, as_in_uri = False, as_in_permission = False, as_uri = None, as_permission = None, as_world = False\<rparr>"

definition parse_put_acl_request_world_readable :: "xml_reader \<Rightarrow> str \<Rightarrow> str + bool" where
  "parse_put_acl_request_world_readable reader xml =
     (if list_all is_ascii_whitespace xml then Inr False
      else rbind (acl_events (reader xml) acl_scan_new) (\<lambda>s. Inr (as_world s)))"

text \<open>The scan of a tag set; \<open>form_serialize\<close> is \<open>form_urlencoded::Serializer\<close> on the pairs.\<close>

record tag_scan =
  ts_in_key :: bool
  ts_in_value :: bool
  ts_key :: "str option"
  ts_value :: "str option"
  ts_pairs :: "(str \<times> str) list"

definition tag_start :: "str \<Rightarrow> tag_scan \<Rightarrow> tag_scan" where
  "tag_start n s =
     (if n = ''Tag'' then s\<lparr>ts_key := None, ts_value := None\<rparr>
      else if n = ''Key'' then s\<lparr>ts_in_key := True\<rparr>
      else if n = ''Value'' then s\<lparr>ts_in_value := True\<rparr>
      else s)"

definition tag_end :: "str \<Rightarrow> tag_scan \<Rightarrow> str + tag_scan" where
  "tag_end n s =
     (if n = ''Key'' then Inr (s\<lparr>ts_in_key := False\<rparr>)
      else if n = ''Value'' then Inr (s\<lparr>ts_in_value := False\<rparr>)
      else if n = ''Tag'' then
        (case ts_key s of
           None \<Rightarrow> Inl ''Tag missing Key''
         | Some k \<Rightarrow> Inr (s\<lparr>ts_key := None, ts_value := None, ts_pairs := ts_pairs s @ [(k, unwrap_or (ts_value s) [])]\<rparr>))
      else Inr s)"

definition tag_text :: "str \<Rightarrow> tag_scan \<Rightarrow> tag_scan" where
  "tag_text t s =
     (if ts_in_key s then s\<lparr>ts_key := Some t\<rparr> else if ts_in_value s then s\<lparr>ts_value := Some t\<rparr> else s)"

fun tag_events :: "xml_event list \<Rightarrow> tag_scan \<Rightarrow> str + tag_scan" where
  "tag_events [] s = Inr s"
| "tag_events (StartEv name # es) s = tag_events es (tag_start (local_name name) s)"
| "tag_events (EndEv name # es) s = rbind (tag_end (local_name name) s) (tag_events es)"
| "tag_events (TextEv t # es) s = rbind (decode_text t) (\<lambda>x. tag_events es (tag_text x s))"
| "tag_events (ErrEv e # es) s = Inl (''bad Tagging XML: '' @ e)"
| "tag_events (RefEv r # es) s = tag_events es s"
| "tag_events (OtherEv # es) s = tag_events es s"

definition tag_scan_new :: tag_scan where
  "tag_scan_new = \<lparr>ts_in_key = False, ts_in_value = False, ts_key = None, ts_value = None, ts_pairs = []\<rparr>"

definition parse_object_tagging_request :: "xml_reader \<Rightarrow> ((str \<times> str) list \<Rightarrow> str) \<Rightarrow> str \<Rightarrow> str + str" where
  "parse_object_tagging_request reader form_serialize xml =
     (if list_all is_ascii_whitespace xml then Inr []
      else rbind (tag_events (reader xml) tag_scan_new) (\<lambda>s. Inr (form_serialize (ts_pairs s))))"

section \<open>Limits\<close>

text \<open>\<open>s.chars().cnt()\<close>.\<close>

definition char_count :: "str \<Rightarrow> nat" where
  "char_count s = length (filter is_char_start s)"

definition is_allowed_tag_chars :: "str \<Rightarrow> bool" where
  "is_allowed_tag_chars s \<longleftrightarrow> list_all (\<lambda>c. is_ascii_alphanumeric c \<or> c \<in> set '' +-=._:/@'') s"

fun tag_pairs_ok :: "(str \<times> str) list \<Rightarrow> nat \<Rightarrow> str list \<Rightarrow> str + unit" where
  "tag_pairs_ok [] cnt seen = Inr ()"
| "tag_pairs_ok ((k, v) # kvs) cnt seen =
     (if Suc cnt > 10 then Inl ''tag set contains more than 10 pairs''
      else if char_count k = 0 \<or> char_count k > 128 then Inl ''tag key length out of range (1..=128)''
      else if char_count v > 256 then Inl ''tag value length out of range (0..=256)''
      else if \<not> is_allowed_tag_chars k then Inl ''tag key contains disallowed characters''
      else if \<not> is_allowed_tag_chars v then Inl ''tag value contains disallowed characters''
      else if k \<in> set seen then Inl ''duplicate tag key''
      else tag_pairs_ok kvs (Suc cnt) (seen @ [k]))"

definition validate_tagging_urlform :: "(str \<Rightarrow> (str \<times> str) list) \<Rightarrow> str \<Rightarrow> str + unit" where
  "validate_tagging_urlform form_parse s =
     (if length s > 2048 then Inl ''tag set payload exceeds 2048 bytes''
      else if s = [] then Inr ()
      else tag_pairs_ok (form_parse s) 0 [])"

definition is_allowed_meta_key_chars :: "str \<Rightarrow> bool" where
  "is_allowed_meta_key_chars s \<longleftrightarrow> list_all (\<lambda>c. is_ascii_alphanumeric c \<or> c = CHR ''-'' \<or> c = CHR ''_'') s"

definition is_printable :: "char \<Rightarrow> bool" where
  "is_printable c \<longleftrightarrow> 32 \<le> byte c \<and> byte c \<le> 126"

definition is_allowed_meta_value_chars :: "str \<Rightarrow> bool" where
  "is_allowed_meta_value_chars s \<longleftrightarrow> list_all (\<lambda>c. is_printable c \<or> byte c \<in> {9, 13, 10}) s"

fun meta_pairs_ok :: "(str \<times> str) list \<Rightarrow> nat \<Rightarrow> str list \<Rightarrow> str + unit" where
  "meta_pairs_ok [] cnt seen = Inr ()"
| "meta_pairs_ok ((k, v) # kvs) cnt seen =
     (if Suc cnt > 32 then Inl ''user metadata contains more than 32 pairs''
      else if char_count k = 0 \<or> char_count k > 128 then Inl ''user metadata key length out of range (1..=128)''
      else if \<not> is_allowed_meta_key_chars k then Inl ''user metadata key contains disallowed characters''
      else if char_count v > 1024 then Inl ''user metadata value length out of range (0..=1024)''
      else if \<not> is_allowed_meta_value_chars v then Inl ''user metadata value contains disallowed control characters''
      else if k \<in> set seen then Inl ''duplicate user metadata key''
      else meta_pairs_ok kvs (Suc cnt) (seen @ [k]))"

definition validate_user_metadata_urlform :: "(str \<Rightarrow> (str \<times> str) list) \<Rightarrow> str \<Rightarrow> str + unit" where
  "validate_user_metadata_urlform form_parse s =
     (if length s > 2048 then Inl ''user metadata payload exceeds 2048 bytes''
      else if s = [] then Inr ()
      else meta_pairs_ok (form_parse s) 0 [])"

definition is_mime_token_byte :: "char \<Rightarrow> bool" where
  "is_mime_token_byte b \<longleftrightarrow>
     is_ascii_alphanumeric b \<or> b \<in> set ''!#$%&*+-.^_|~'' \<or> byte b = 39 \<or> byte b = 96"

definition validate_content_type :: "str \<Rightarrow> str + unit" where
  "validate_content_type s =
     (if s = [] then Inl ''Content-Type must not be empty''
      else if length s > 256 then Inl ''Content-Type exceeds 256 bytes''
      else if \<not> list_all (\<lambda>b. is_printable b \<or> byte b = 9) s then Inl ''Content-Type contains non-printable or non-ASCII bytes''
      else (let head = (case split_once CHR '';'' s of Some (h, _) \<Rightarrow> trim h | None \<Rightarrow> trim s)
            in case split_once CHR ''/'' head of
                 None \<Rightarrow> Inl (''Content-Type missing '' @ bytes [39] @ ''/'' @ bytes [39])
               | Some (ty0, sub0) \<Rightarrow>
                   (let ty = trim ty0; sub = trim sub0 in
                    if ty = [] \<or> sub = [] then Inl ''Content-Type has empty type or subtype''
                    else if \<not> list_all is_mime_token_byte ty \<or> \<not> list_all is_mime_token_byte sub
                    then Inl ''Content-Type type/subtype contains disallowed characters''
                    else Inr ())))"

section \<open>What is accepted\<close>

definition tag_ok_pair :: "str \<times> str \<Rightarrow> bool" where
  "tag_ok_pair kv \<longleftrightarrow>
     0 < char_count (fst kv) \<and> char_count (fst kv) \<le> 128 \<and> char_count (snd kv) \<le> 256 \<and>
     is_allowed_tag_chars (fst kv) \<and> is_allowed_tag_chars (snd kv)"

definition meta_ok_pair :: "str \<times> str \<Rightarrow> bool" where
  "meta_ok_pair kv \<longleftrightarrow>
     0 < char_count (fst kv) \<and> char_count (fst kv) \<le> 128 \<and> char_count (snd kv) \<le> 1024 \<and>
     is_allowed_meta_key_chars (fst kv) \<and> is_allowed_meta_value_chars (snd kv)"

lemma tag_pairs_ok_iff:
  "tag_pairs_ok kvs n seen = Inr () \<longleftrightarrow>
     (kvs = [] \<or> n + length kvs \<le> 10) \<and> list_all tag_ok_pair kvs \<and> distinct (map fst kvs) \<and> set (map fst kvs) \<inter> set seen = {}"
  by (induction kvs n seen rule: tag_pairs_ok.induct) (auto simp: tag_ok_pair_def)

lemma meta_pairs_ok_iff:
  "meta_pairs_ok kvs n seen = Inr () \<longleftrightarrow>
     (kvs = [] \<or> n + length kvs \<le> 32) \<and> list_all meta_ok_pair kvs \<and> distinct (map fst kvs) \<and> set (map fst kvs) \<inter> set seen = {}"
  by (induction kvs n seen rule: meta_pairs_ok.induct) (auto simp: meta_ok_pair_def)

lemma validate_tagging_urlform_iff:
  "validate_tagging_urlform form_parse s = Inr () \<longleftrightarrow>
     s = [] \<or> length s \<le> 2048 \<and> length (form_parse s) \<le> 10 \<and> list_all tag_ok_pair (form_parse s) \<and>
       distinct (map fst (form_parse s))"
  by (auto simp: validate_tagging_urlform_def tag_pairs_ok_iff)

lemma validate_user_metadata_urlform_iff:
  "validate_user_metadata_urlform form_parse s = Inr () \<longleftrightarrow>
     s = [] \<or> length s \<le> 2048 \<and> length (form_parse s) \<le> 32 \<and> list_all meta_ok_pair (form_parse s) \<and>
       distinct (map fst (form_parse s))"
  by (auto simp: validate_user_metadata_urlform_def meta_pairs_ok_iff)

lemma sorted_dedup_distinct: "sorted xs \<Longrightarrow> distinct (remdups_adj xs)"
  by (induction xs rule: remdups_adj.induct) (auto simp: antisym)

lemma parse_complete_parts_sorted:
  "parse_complete_parts reader xml = Inr parts \<Longrightarrow> parts \<noteq> [] \<and> sorted parts \<and> distinct parts"
  by (auto simp: parse_complete_parts_def rbind_def sorted_dedup_distinct split: sum.splits if_splits)
     (metis length_0_conv length_sort)

text \<open>
  A reference to an entity is an event of its own, which the scan skips: the text before it and the
  text after it become two keys.
\<close>

lemma entity_splits_key:
  assumes "reader xml = [StartEv ''Delete'', StartEv ''Object'', StartEv ''Key'', TextEv (Inr a), RefEv ''amp'', TextEv (Inr b),
             EndEv ''Key'', EndEv ''Object'', EndEv ''Delete'']" "a \<noteq> []" "b \<noteq> []"
  shows "parse_delete_objects_request reader xml = Inr (False, [a, b])"
  using assms by (simp add: parse_delete_objects_request_def decode_text_def rbind_def local_name_def rsplit_once_def)

end
