(* ===== verification/S3_Documents.thy ===== *)
theory S3_Documents
  imports S3_Xml List_Objects
begin

text \<open>
  The documents of the replies in \<open>crates/s32p-support/src/s3xml.rs\<close>. Each struct is the element its
  serde attributes describe, and each body is the document handed to quick-xml's serializer, the
  parameter \<open>ser\<close>.
\<close>

datatype xml = Element str "(str \<times> str) list" "xml list" | Text str

type_synonym serializer = "xml \<Rightarrow> str + str"

definition leaf :: "str \<Rightarrow> str \<Rightarrow> xml" where
  "leaf n v = Element n [] [Text v]"

definition opt_leaf :: "str \<Rightarrow> str option \<Rightarrow> xml list" where
  "opt_leaf n v = (case v of Some x \<Rightarrow> [leaf n x] | None \<Rightarrow> [])"

definition show_bool :: "bool \<Rightarrow> str" where
  "show_bool b = (if b then ''true'' else ''false'')"

definition S3_XMLNS :: str where
  "S3_XMLNS = ''http://s3.amazonaws.com/doc/2006-03-01/''"

definition s3_doc :: "str \<Rightarrow> xml list \<Rightarrow> xml" where
  "s3_doc n cs = Element n [(''xmlns'', S3_XMLNS)] cs"

definition xml_string :: "serializer \<Rightarrow> xml \<Rightarrow> str + str" where
  "xml_string ser doc = (case ser doc of Inl e \<Rightarrow> Inl (''xml serialize error: '' @ e) | Inr x \<Rightarrow> Inr x)"

definition ok_filter :: "str option \<Rightarrow> str option" where
  "ok_filter v = (case v of Some s \<Rightarrow> if s \<noteq> [] then Some s else None | None \<Rightarrow> None)"

text \<open>The format of times is the \<open>time\<close> crate's, \<open>fmt\<close>.\<close>

definition format_s3_time_system :: "(system_time \<Rightarrow> str option) \<Rightarrow> system_time \<Rightarrow> str" where
  "format_s3_time_system fmt st = unwrap_or (fmt st) ''1970-01-01T00:00:00Z''"

section \<open>Errors and buckets\<close>

definition ErrorDocument :: "str \<Rightarrow> str \<Rightarrow> str option \<Rightarrow> str option \<Rightarrow> str option \<Rightarrow> xml" where
  "ErrorDocument code message resource request_id host_id =
     Element ''Error'' [] ([leaf ''Code'' code, leaf ''Message'' message] @ opt_leaf ''Resource'' resource @
       opt_leaf ''RequestId'' request_id @ opt_leaf ''HostId'' host_id)"

definition s3_error_body :: "serializer \<Rightarrow> str \<Rightarrow> str \<Rightarrow> str option \<Rightarrow> str option \<Rightarrow> str option \<Rightarrow> str + str" where
  "s3_error_body ser code message resource request_id host_id =
     xml_string ser (ErrorDocument code message resource request_id host_id)"

record bucket_info =
  bi_name :: str
  bi_region :: "str option"
  bi_arn :: "str option"
  bi_created :: system_time

definition Owner_xml :: "str \<Rightarrow> str \<Rightarrow> xml" where
  "Owner_xml owner_id display_name = Element ''Owner'' [] [leaf ''ID'' owner_id, leaf ''DisplayName'' display_name]"

definition Bucket_xml :: "(system_time \<Rightarrow> str option) \<Rightarrow> bucket_info \<Rightarrow> xml" where
  "Bucket_xml fmt b =
     Element ''Bucket'' [] (opt_leaf ''BucketArn'' (bi_arn b) @ opt_leaf ''BucketRegion'' (bi_region b) @
       [leaf ''Name'' (bi_name b), leaf ''CreationDate'' (format_s3_time_system fmt (bi_created b))])"

definition ListAllMyBucketsResult :: "xml list \<Rightarrow> xml \<Rightarrow> str option \<Rightarrow> str option \<Rightarrow> xml" where
  "ListAllMyBucketsResult buckets own token pfx =
     s3_doc ''ListAllMyBucketsResult''
       ([Element ''Buckets'' [] buckets, own] @ opt_leaf ''ContinuationToken'' token @ opt_leaf ''Prefix'' pfx)"

definition list_buckets_body_paginated ::
  "serializer \<Rightarrow> (system_time \<Rightarrow> str option) \<Rightarrow> str \<Rightarrow> str \<Rightarrow> bucket_info list \<Rightarrow> str option \<Rightarrow> str option \<Rightarrow> str + str" where
  "list_buckets_body_paginated ser fmt owner_id owner_name buckets pfx next =
     xml_string ser (ListAllMyBucketsResult (map (Bucket_xml fmt) buckets) (Owner_xml owner_id owner_name) next pfx)"

definition LocationConstraintDoc :: "str option \<Rightarrow> xml" where
  "LocationConstraintDoc v = s3_doc ''LocationConstraint'' (case v of Some x \<Rightarrow> [Text x] | None \<Rightarrow> [])"

definition get_bucket_location_body :: "serializer \<Rightarrow> str \<Rightarrow> str + str" where
  "get_bucket_location_body ser region =
     ser (LocationConstraintDoc (if region = ''us-east-1'' then None else Some region))"

definition VersioningConfigurationDoc :: xml where
  "VersioningConfigurationDoc = s3_doc ''VersioningConfiguration'' []"

definition versioning_configuration_empty_body :: "serializer \<Rightarrow> str + str" where
  "versioning_configuration_empty_body ser = xml_string ser VersioningConfigurationDoc"

section \<open>Access control lists and tags\<close>

definition XSI_NS :: str where
  "XSI_NS = ''http://www.w3.org/2001/XMLSchema-instance''"

definition ALL_USERS_URI :: str where
  "ALL_USERS_URI = ''http://acs.amazonaws.com/groups/global/AllUsers''"

definition Grantee_xml :: "str \<Rightarrow> str option \<Rightarrow> str option \<Rightarrow> str option \<Rightarrow> xml" where
  "Grantee_xml xsi_type gid display_name uri =
     Element ''Grantee'' [(''xmlns:xsi'', XSI_NS), (''xsi:type'', xsi_type)]
       (opt_leaf ''ID'' gid @ opt_leaf ''DisplayName'' display_name @ opt_leaf ''URI'' uri)"

definition Grant_xml :: "xml \<Rightarrow> str \<Rightarrow> xml" where
  "Grant_xml grantee permission = Element ''Grant'' [] [grantee, leaf ''Permission'' permission]"

definition AccessControlPolicyDoc :: "xml \<Rightarrow> xml list \<Rightarrow> xml" where
  "AccessControlPolicyDoc own grants =
     s3_doc ''AccessControlPolicy'' [own, Element ''AccessControlList'' [] grants]"

definition acl_document :: "str \<Rightarrow> str \<Rightarrow> bool \<Rightarrow> xml" where
  "acl_document owner_id owner_name world_readable =
     AccessControlPolicyDoc (Owner_xml owner_id owner_name)
       (Grant_xml (Grantee_xml ''CanonicalUser'' (Some owner_id) (Some owner_name) None) ''FULL_CONTROL'' #
        (if world_readable then [Grant_xml (Grantee_xml ''Group'' None None (Some ALL_USERS_URI)) ''READ''] else []))"

definition get_acl_body :: "serializer \<Rightarrow> str \<Rightarrow> str \<Rightarrow> bool \<Rightarrow> str + str" where
  "get_acl_body ser owner_id owner_name world_readable = xml_string ser (acl_document owner_id owner_name world_readable)"

definition TagEntry :: "str \<times> str \<Rightarrow> xml" where
  "TagEntry t = Element ''Tag'' [] [leaf ''Key'' (fst t), leaf ''Value'' (snd t)]"

definition TaggingDoc :: "(str \<times> str) list \<Rightarrow> xml" where
  "TaggingDoc tags = s3_doc ''Tagging'' [Element ''TagSet'' [] (map TagEntry tags)]"

definition get_object_tagging_body :: "serializer \<Rightarrow> (str \<Rightarrow> (str \<times> str) list) \<Rightarrow> str \<Rightarrow> str + str" where
  "get_object_tagging_body ser form_parse tags_urlform = xml_string ser (TaggingDoc (form_parse tags_urlform))"

section \<open>Sessions\<close>

definition CreateSessionResultDoc :: "str \<Rightarrow> str \<Rightarrow> str \<Rightarrow> str \<Rightarrow> xml" where
  "CreateSessionResultDoc access secret token expiration =
     Element ''CreateSessionResult'' [] [Element ''Credentials'' []
       [leaf ''AccessKeyId'' access, leaf ''SecretAccessKey'' secret, leaf ''SessionToken'' token, leaf ''Expiration'' expiration]]"

definition create_session_result_body ::
  "serializer \<Rightarrow> (system_time \<Rightarrow> str option) \<Rightarrow> str \<Rightarrow> str \<Rightarrow> str \<Rightarrow> system_time \<Rightarrow> str + str" where
  "create_session_result_body ser fmt access secret token expiration =
     xml_string ser (CreateSessionResultDoc access secret token (format_s3_time_system fmt expiration))"

section \<open>Listings\<close>

definition Contents_xml :: "(owner_info option \<Rightarrow> xml list) \<Rightarrow> list_object_info \<Rightarrow> xml" where
  "Contents_xml own i =
     Element ''Contents'' [] ([leaf ''Key'' (lo_key i), leaf ''LastModified'' (lo_last_modified i), leaf ''ETag'' (lo_etag i),
       leaf ''Size'' (show_nat (unat (lo_size i))), leaf ''StorageClass'' ''STANDARD''] @ own (lo_owner i))"

definition ContentsV2 :: "list_object_info \<Rightarrow> xml" where
  "ContentsV2 = Contents_xml (\<lambda>own. case own of Some ow \<Rightarrow> [Owner_xml (ow_id ow) (ow_display_name ow)] | None \<Rightarrow> [])"

definition ContentsV1 :: "list_object_info \<Rightarrow> xml" where
  "ContentsV1 = Contents_xml (\<lambda>own. case own of
     Some ow \<Rightarrow> [Owner_xml (ow_id ow) (ow_display_name ow)] | None \<Rightarrow> [Owner_xml [] []])"

definition CommonPrefixes_xml :: "str \<Rightarrow> xml" where
  "CommonPrefixes_xml p = Element ''CommonPrefixes'' [] [leaf ''Prefix'' p]"

definition ListBucketResultV2 :: "str \<Rightarrow> list_v2_ok \<Rightarrow> xml" where
  "ListBucketResultV2 bucket r =
     s3_doc ''ListBucketResult''
       ([leaf ''Name'' bucket] @ opt_leaf ''Prefix'' (ok_filter (Some (l2_prefix r))) @
        opt_leaf ''Delimiter'' (ok_filter (l2_delimiter r)) @
        [leaf ''KeyCount'' (show_nat (l2_key_count r)), leaf ''MaxKeys'' (show_nat (l2_max_keys r)),
         leaf ''IsTruncated'' (show_bool (l2_truncated r))] @
        opt_leaf ''ContinuationToken'' (l2_continuation r) @ opt_leaf ''NextContinuationToken'' (l2_next r) @
        opt_leaf ''StartAfter'' (l2_start_after r) @ opt_leaf ''EncodingType'' (ok_filter (l2_encoding r)) @
        map ContentsV2 (l2_contents r) @ map CommonPrefixes_xml (l2_prefixes r))"

definition list_objects_v2_body :: "serializer \<Rightarrow> str \<Rightarrow> list_v2_ok \<Rightarrow> str + str" where
  "list_objects_v2_body ser bucket r = xml_string ser (ListBucketResultV2 bucket r)"

definition ListBucketResultV1 :: "str \<Rightarrow> list_v1_ok \<Rightarrow> xml" where
  "ListBucketResultV1 bucket r =
     s3_doc ''ListBucketResult''
       ([leaf ''Name'' bucket, leaf ''Prefix'' (l1_prefix r), leaf ''Marker'' (l1_marker r)] @
        opt_leaf ''NextMarker'' (l1_next_marker r) @ opt_leaf ''Delimiter'' (ok_filter (l1_delimiter r)) @
        [leaf ''MaxKeys'' (show_nat (l1_max_keys r)), leaf ''IsTruncated'' (show_bool (l1_truncated r))] @
        opt_leaf ''EncodingType'' (ok_filter (l1_encoding r)) @
        map ContentsV1 (l1_contents r) @ map CommonPrefixes_xml (l1_prefixes r))"

definition list_objects_v1_body :: "serializer \<Rightarrow> str \<Rightarrow> list_v1_ok \<Rightarrow> str + str" where
  "list_objects_v1_body ser bucket r = xml_string ser (ListBucketResultV1 bucket r)"

section \<open>Copies, deletions and multipart uploads\<close>

definition CopyObjectResultDoc :: "str \<Rightarrow> str \<Rightarrow> xml" where
  "CopyObjectResultDoc last_modified etag =
     s3_doc ''CopyObjectResult'' [leaf ''LastModified'' last_modified, leaf ''ETag'' etag, leaf ''ChecksumCRC32'' [],
       leaf ''ChecksumCRC32C'' [], leaf ''ChecksumSHA1'' [], leaf ''ChecksumSHA256'' []]"

definition copy_object_result_body :: "serializer \<Rightarrow> str \<Rightarrow> str \<Rightarrow> str + str" where
  "copy_object_result_body ser last_modified etag = xml_string ser (CopyObjectResultDoc last_modified etag)"

definition CopyPartResultDoc :: "str \<Rightarrow> str \<Rightarrow> xml" where
  "CopyPartResultDoc last_modified etag =
     s3_doc ''CopyPartResult'' [leaf ''LastModified'' last_modified, leaf ''ETag'' etag]"

definition copy_part_result_body :: "serializer \<Rightarrow> str \<Rightarrow> str \<Rightarrow> str + str" where
  "copy_part_result_body ser last_modified etag = xml_string ser (CopyPartResultDoc last_modified etag)"

record delete_error_info =
  dx_key :: str
  dx_code :: str
  dx_message :: str

definition DeleteErrorEntry :: "delete_error_info \<Rightarrow> xml" where
  "DeleteErrorEntry e =
     Element ''Error'' [] [leaf ''Key'' (dx_key e), leaf ''Code'' (dx_code e), leaf ''Message'' (dx_message e)]"

definition DeleteResultDoc :: "str list \<Rightarrow> delete_error_info list \<Rightarrow> xml" where
  "DeleteResultDoc deleted errors =
     s3_doc ''DeleteResult'' (map (\<lambda>k. Element ''Deleted'' [] [leaf ''Key'' k]) deleted @ map DeleteErrorEntry errors)"

definition delete_objects_result_body :: "serializer \<Rightarrow> str list \<Rightarrow> delete_error_info list \<Rightarrow> str + str" where
  "delete_objects_result_body ser deleted errors = xml_string ser (DeleteResultDoc deleted errors)"

record multipart_upload_info =
  mu_key :: str
  mu_upload_id :: str
  mu_initiated :: str

record multipart_part_info =
  mp_number :: u32
  mp_last_modified :: str
  mp_etag :: str
  mp_size :: u64

definition InitiateMultipartUploadResultDoc :: "str \<Rightarrow> str \<Rightarrow> str \<Rightarrow> xml" where
  "InitiateMultipartUploadResultDoc bucket key upload_id =
     s3_doc ''InitiateMultipartUploadResult'' [leaf ''Bucket'' bucket, leaf ''Key'' key, leaf ''UploadId'' upload_id]"

definition initiate_multipart_upload_result_body :: "serializer \<Rightarrow> str \<Rightarrow> str \<Rightarrow> str \<Rightarrow> str + str" where
  "initiate_multipart_upload_result_body ser bucket key upload_id =
     xml_string ser (InitiateMultipartUploadResultDoc bucket key upload_id)"

definition UploadEntry :: "multipart_upload_info \<Rightarrow> xml" where
  "UploadEntry u =
     Element ''Upload'' [] [leaf ''Key'' (mu_key u), leaf ''UploadId'' (mu_upload_id u), leaf ''Initiated'' (mu_initiated u)]"

definition ListMultipartUploadsResultDoc :: "str \<Rightarrow> multipart_upload_info list \<Rightarrow> xml" where
  "ListMultipartUploadsResultDoc bucket uploads =
     s3_doc ''ListMultipartUploadsResult'' (leaf ''Bucket'' bucket # map UploadEntry uploads)"

definition list_multipart_uploads_body :: "serializer \<Rightarrow> str \<Rightarrow> multipart_upload_info list \<Rightarrow> str + str" where
  "list_multipart_uploads_body ser bucket uploads = xml_string ser (ListMultipartUploadsResultDoc bucket uploads)"

definition PartEntry :: "multipart_part_info \<Rightarrow> xml" where
  "PartEntry p =
     Element ''Part'' [] [leaf ''PartNumber'' (show_nat (unat (mp_number p))), leaf ''LastModified'' (mp_last_modified p),
       leaf ''ETag'' (mp_etag p), leaf ''Size'' (show_nat (unat (mp_size p)))]"

definition ListPartsResultDoc :: "str \<Rightarrow> str \<Rightarrow> str \<Rightarrow> multipart_part_info list \<Rightarrow> xml" where
  "ListPartsResultDoc bucket key upload_id parts =
     s3_doc ''ListPartsResult'' ([leaf ''Bucket'' bucket, leaf ''Key'' key, leaf ''UploadId'' upload_id] @ map PartEntry parts)"

definition list_parts_body :: "serializer \<Rightarrow> str \<Rightarrow> str \<Rightarrow> str \<Rightarrow> multipart_part_info list \<Rightarrow> str + str" where
  "list_parts_body ser bucket key upload_id parts = xml_string ser (ListPartsResultDoc bucket key upload_id parts)"

definition CompleteMultipartUploadResultDoc :: "str \<Rightarrow> str \<Rightarrow> str \<Rightarrow> str \<Rightarrow> xml" where
  "CompleteMultipartUploadResultDoc location bucket key etag =
     s3_doc ''CompleteMultipartUploadResult''
       [leaf ''Location'' location, leaf ''Bucket'' bucket, leaf ''Key'' key, leaf ''ETag'' etag]"

definition complete_multipart_upload_result_body :: "serializer \<Rightarrow> str \<Rightarrow> str \<Rightarrow> str \<Rightarrow> str \<Rightarrow> str + str" where
  "complete_multipart_upload_result_body ser location bucket key etag =
     xml_string ser (CompleteMultipartUploadResultDoc location bucket key etag)"

section \<open>Reading a document back\<close>

text \<open>
  What quick-xml documents of a text that needs no escaping: the reader gives the events of the
  elements, an element without content is one event of its own, and a text comes without the blanks
  around it.
\<close>

definition special :: "char \<Rightarrow> bool" where
  "special c \<longleftrightarrow> c \<in> set ''&<>'' \<or> byte c = 34 \<or> byte c = 39 \<or> \<not> is_printable c"

fun plain_xml :: "xml \<Rightarrow> bool" where
  "plain_xml (Element n as cs) \<longleftrightarrow>
     list_all (\<lambda>(k, v). \<not> list_ex special k \<and> \<not> list_ex special v) as \<and> list_all plain_xml cs"
| "plain_xml (Text t) \<longleftrightarrow> \<not> list_ex special t"

definition trim_blanks :: "str \<Rightarrow> str" where
  "trim_blanks t = rev (dropWhile (\<lambda>c. c = CHR '' '') (rev (dropWhile (\<lambda>c. c = CHR '' '') t)))"

fun xml_events :: "xml \<Rightarrow> xml_event list" where
  "xml_events (Text t) = (if trim_blanks t = [] then [] else [TextEv (Inr (trim_blanks t))])"
| "xml_events (Element n as []) = [OtherEv]"
| "xml_events (Element n as [Text []]) = [OtherEv]"
| "xml_events (Element n as cs) = StartEv n # concat (map xml_events cs) @ [EndEv n]"

definition reads_back :: "serializer \<Rightarrow> xml_reader \<Rightarrow> bool" where
  "reads_back ser reader \<longleftrightarrow>
     (\<forall>n as cs x. ser (Element n as cs) = Inr x \<longrightarrow> plain_xml (Element n as cs) \<longrightarrow>
        (\<exists>ys. x = CHR ''<'' # ys) \<and> reader x = xml_events (Element n as cs))"

definition unpadded :: "str \<Rightarrow> bool" where
  "unpadded t \<longleftrightarrow> trim_blanks t = t"

lemma xml_events_leaf:
  "unpadded v \<Longrightarrow> xml_events (leaf n v) = (if v = [] then [OtherEv] else [StartEv n, TextEv (Inr v), EndEv n])"
  by (cases v) (auto simp: leaf_def unpadded_def)

lemma local_names [simp]:
  "local_name ''Tag'' = ''Tag''" "local_name ''Key'' = ''Key''" "local_name ''Value'' = ''Value''"
  "local_name ''TagSet'' = ''TagSet''" "local_name ''Tagging'' = ''Tagging''"
  "local_name ''Grantee'' = ''Grantee''" "local_name ''Grant'' = ''Grant''" "local_name ''Permission'' = ''Permission''"
  "local_name ''URI'' = ''URI''" "local_name ''ID'' = ''ID''" "local_name ''DisplayName'' = ''DisplayName''"
  "local_name ''Owner'' = ''Owner''" "local_name ''AccessControlList'' = ''AccessControlList''"
  "local_name ''AccessControlPolicy'' = ''AccessControlPolicy''"
  by (simp_all add: local_name_def rsplit_once_def)

abbreviation tags_so_far :: "(str \<times> str) list \<Rightarrow> tag_scan" where
  "tags_so_far ps \<equiv> \<lparr>ts_in_key = False, ts_in_value = False, ts_key = None, ts_value = None, ts_pairs = ps\<rparr>"

lemma tag_entry_events:
  assumes "unpadded (fst kv)" "unpadded (snd kv)" "fst kv \<noteq> []"
  shows "tag_events (xml_events (TagEntry kv) @ es) (tags_so_far ps) = tag_events es (tags_so_far (ps @ [kv]))"
  using assms
  by (cases kv)
     (simp add: TagEntry_def xml_events_leaf tag_start_def tag_text_def tag_end_def decode_text_def rbind_def unwrap_or_def)

lemma tag_set_events:
  assumes "list_all (\<lambda>kv. unpadded (fst kv) \<and> unpadded (snd kv) \<and> fst kv \<noteq> []) kvs"
  shows "tag_events (concat (map xml_events (map TagEntry kvs)) @ es) (tags_so_far ps) = tag_events es (tags_so_far (ps @ kvs))"
  using assms by (induction kvs arbitrary: ps) (simp_all add: tag_entry_events)

lemma tagging_doc_events:
  assumes "list_all (\<lambda>kv. unpadded (fst kv) \<and> unpadded (snd kv) \<and> fst kv \<noteq> []) kvs"
  shows "tag_events (xml_events (TaggingDoc kvs)) tag_scan_new = Inr (tags_so_far kvs)"
proof -
  have new: "tag_scan_new = tags_so_far []" by (simp add: tag_scan_new_def)
  show ?thesis
  proof (cases kvs)
    case Nil
    then show ?thesis
      by (simp add: TaggingDoc_def s3_doc_def new tag_start_def tag_end_def rbind_def)
  next
    case (Cons kv rest)
    have "xml_events (Element ''TagSet'' [] (map TagEntry kvs)) =
          StartEv ''TagSet'' # concat (map xml_events (map TagEntry kvs)) @ [EndEv ''TagSet'']"
      using Cons by (simp add: TagEntry_def)
    with tag_set_events [OF assms] show ?thesis
      by (simp add: TaggingDoc_def s3_doc_def new tag_start_def tag_end_def rbind_def del: map_map)
  qed
qed

lemma tag_char_plain:
  "is_ascii_alphanumeric c \<or> c \<in> set '' +-=._:/@'' \<Longrightarrow> \<not> special c"
  by (auto simp: special_def is_ascii_alphanumeric_def is_ascii_digit_def is_ascii_upper_def is_ascii_lower_def is_printable_def)

lemma allowed_tag_plain: "is_allowed_tag_chars t \<Longrightarrow> \<not> list_ex special t"
  unfolding is_allowed_tag_chars_def list_all_iff list_ex_iff using tag_char_plain by blast

lemma xmlns_plain: "\<not> list_ex special ''xmlns''" "\<not> list_ex special S3_XMLNS" "\<not> list_ex special XSI_NS"
  "\<not> list_ex special ALL_USERS_URI" "\<not> list_ex special ''xmlns:xsi''" "\<not> list_ex special ''xsi:type''"
  by (simp_all add: S3_XMLNS_def XSI_NS_def ALL_USERS_URI_def special_def is_printable_def)

lemma tagging_doc_plain:
  assumes "list_all tag_ok_pair kvs"
  shows "plain_xml (TaggingDoc kvs)"
proof -
  have "list_all plain_xml (map TagEntry kvs)"
    using assms allowed_tag_plain by (induction kvs) (auto simp: TagEntry_def leaf_def tag_ok_pair_def)
  then show ?thesis by (simp add: TaggingDoc_def s3_doc_def xmlns_plain special_def is_printable_def)
qed


definition example_ser :: "xml \<Rightarrow> serializer" where
  "example_ser d x = (if x = d then Inr ''<doc>'' else Inl ''no document'')"

definition example_reader :: "xml \<Rightarrow> xml_reader" where
  "example_reader d t = (if t = ''<doc>'' then xml_events d else [])"

definition example_form :: "str \<Rightarrow> (str \<times> str) list" where
  "example_form s = (if s = ''team=a'' then [(''team'', ''a'')] else [])"

lemma example_reads_back: "reads_back (example_ser d) (example_reader d)"
  by (auto simp: reads_back_def example_ser_def example_reader_def split: if_splits)


lemma acl_leaf_skipped:
  assumes "unpadded v" "\<not> as_in_uri s" "\<not> as_in_permission s" "n \<in> {''ID'', ''DisplayName''}"
  shows "acl_events (xml_events (leaf n v) @ es) s = acl_events es s"
  using assms by (auto simp: xml_events_leaf acl_start_def acl_end_def acl_text_def decode_text_def rbind_def)

lemma xml_events_pair:
  "xml_events (Element n as [leaf a v, leaf b w]) = StartEv n # xml_events (leaf a v) @ xml_events (leaf b w) @ [EndEv n]"
  by (simp add: leaf_def)

lemma xml_events_two:
  "xml_events (Element n as (Element m bs cs # xs)) = StartEv n # xml_events (Element m bs cs) @ concat (map xml_events xs) @ [EndEv n]"
  by simp

lemma unpadded_texts [simp]:
  "unpadded ''FULL_CONTROL''" "unpadded ''READ''" "unpadded ALL_USERS_URI" "ALL_USERS_URI \<noteq> []" "contains_str ''AllUsers'' ALL_USERS_URI"
  by (simp_all add: unpadded_def trim_blanks_def ALL_USERS_URI_def contains_str_def starts_with_def)

abbreviation grants_so_far :: "bool \<Rightarrow> acl_scan" where
  "grants_so_far w \<equiv>
     \<lparr>as_grantee = False, as_in_uri = False, as_in_permission = False, as_uri = None, as_permission = None, as_world = w\<rparr>"

lemma owner_grant_events:
  assumes "unpadded i" "unpadded d"
  shows "acl_events (xml_events (Grant_xml (Grantee_xml ''CanonicalUser'' (Some i) (Some d) None) ''FULL_CONTROL'') @ es) (grants_so_far w) =
         acl_events es (grants_so_far w)"
  using assms
  by (simp add: Grant_xml_def Grantee_xml_def opt_leaf_def xml_events_two xml_events_pair acl_leaf_skipped acl_start_def del: xml_events.simps)
     (simp add: xml_events_leaf acl_start_def acl_end_def acl_text_def decode_text_def rbind_def acl_leaf_skipped del: xml_events.simps)

lemma group_grant_events:
  "acl_events (xml_events (Grant_xml (Grantee_xml ''Group'' None None (Some ALL_USERS_URI)) ''READ'') @ es) (grants_so_far w) =
   acl_events es (grants_so_far True)"
proof -
  have "xml_events (Grant_xml (Grantee_xml ''Group'' None None (Some ALL_USERS_URI)) ''READ'') =
        [StartEv ''Grant'', StartEv ''Grantee''] @ xml_events (leaf ''URI'' ALL_USERS_URI) @ [EndEv ''Grantee''] @
        xml_events (leaf ''Permission'' ''READ'') @ [EndEv ''Grant'']"
    by (simp add: Grant_xml_def Grantee_xml_def opt_leaf_def leaf_def)
  then show ?thesis
    by (simp add: xml_events_leaf acl_start_def acl_end_def acl_text_def decode_text_def rbind_def unwrap_or_def
        eq_ignore_ascii_case_def)
qed

lemma acl_document_events:
  assumes "unpadded i" "unpadded d"
  shows "acl_events (xml_events (acl_document i d w)) acl_scan_new = Inr (grants_so_far w)"
proof -
  have ev: "xml_events (acl_document i d w) =
      [StartEv ''AccessControlPolicy'', StartEv ''Owner''] @ xml_events (leaf ''ID'' i) @ xml_events (leaf ''DisplayName'' d) @
      [EndEv ''Owner'', StartEv ''AccessControlList''] @
      xml_events (Grant_xml (Grantee_xml ''CanonicalUser'' (Some i) (Some d) None) ''FULL_CONTROL'') @
      (if w then xml_events (Grant_xml (Grantee_xml ''Group'' None None (Some ALL_USERS_URI)) ''READ'') else []) @
      [EndEv ''AccessControlList'', EndEv ''AccessControlPolicy'']"
    by (simp add: acl_document_def AccessControlPolicyDoc_def s3_doc_def Owner_xml_def xml_events_pair xml_events_two Grant_xml_def
        del: xml_events.simps)
  have new: "acl_scan_new = grants_so_far False" by (simp add: acl_scan_new_def)
  show ?thesis
    using assms group_grant_events [of _ False]
    by (simp add: ev new acl_start_def acl_end_def acl_leaf_skipped owner_grant_events del: xml_events.simps)
qed

lemma acl_document_plain:
  "\<not> list_ex special i \<Longrightarrow> \<not> list_ex special d \<Longrightarrow> plain_xml (acl_document i d w)"
  by (simp add: acl_document_def AccessControlPolicyDoc_def s3_doc_def Owner_xml_def Grant_xml_def Grantee_xml_def leaf_def opt_leaf_def
      xmlns_plain special_def is_printable_def)

text \<open>
  C27. What GetObjectAcl answers can be sent back: PutObjectAcl reads the same visibility from it.
\<close>
theorem acl_roundtrip:
  assumes "reads_back ser reader" "get_acl_body ser i d w = Inr body"
    "\<not> list_ex special i" "\<not> list_ex special d" "unpadded i" "unpadded d"
  shows "parse_put_acl_request_world_readable reader body = Inr w"
proof -
  have "ser (acl_document i d w) = Inr body"
    using assms(2) by (simp add: get_acl_body_def xml_string_def split: sum.splits)
  with assms(1) acl_document_plain [OF assms(3,4)]
  have "(\<exists>ys. body = CHR ''<'' # ys) \<and> reader body = xml_events (acl_document i d w)"
    unfolding acl_document_def AccessControlPolicyDoc_def s3_doc_def reads_back_def by blast
  with acl_document_events [OF assms(5,6)] show ?thesis
    by (auto simp: parse_put_acl_request_world_readable_def rbind_def is_ascii_whitespace_def)
qed

theorem acl_roundtrip_witness:
  "parse_put_acl_request_world_readable (example_reader (acl_document ''1000'' ''ann'' True)) ''<doc>'' = Inr True"
proof (rule acl_roundtrip [OF example_reads_back, where i = "''1000''" and d = "''ann''"])
  show "get_acl_body (example_ser (acl_document ''1000'' ''ann'' True)) ''1000'' ''ann'' True = Inr ''<doc>''"
    by (simp add: get_acl_body_def xml_string_def example_ser_def)
  show "\<not> list_ex special ''1000''" "\<not> list_ex special ''ann''" "unpadded ''1000''" "unpadded ''ann''"
    by code_simp+
qed

end
