(* ===== verification/S3_Replies.thy ===== *)
theory S3_Replies
  imports S3_Documents Range_Stream Object_Etag
begin

text \<open>
  The successful responses of \<open>crates/s32p-support/src/s3resp.rs\<close>. Whether a text is a header value or
  name is the \<open>http\<close> crate's decision. A body is either in memory or sent by the streaming tasks from
  the content of a file.
\<close>

datatype resp_body =
    Full str
  | StreamRange str u64 byte_range stream_cfg
  | StreamRanges str u64 "byte_range list" str stream_cfg

record http_response =
  hr_status :: nat
  hr_headers :: "(str \<times> str) list"
  hr_body :: resp_body

record http_env =
  he_value :: "str \<Rightarrow> bool"
  he_name :: "str \<Rightarrow> bool"
  he_ser :: serializer

definition put_header :: "str \<Rightarrow> str \<Rightarrow> (str \<times> str) list \<Rightarrow> (str \<times> str) list" where
  "put_header k v hs = filter (\<lambda>h. fst h \<noteq> k) hs @ [(k, v)]"

definition with_header :: "str \<Rightarrow> str \<Rightarrow> http_response \<Rightarrow> http_response" where
  "with_header k v r = r\<lparr>hr_headers := put_header k v (hr_headers r)\<rparr>"

definition with_server :: "http_response \<Rightarrow> http_response" where
  "with_server r = with_header ''server'' ''s32p-gateway'' r"

definition XML_TYPE :: str where "XML_TYPE = ''application/xml''"

definition response_bytes :: "http_env \<Rightarrow> nat \<Rightarrow> str \<Rightarrow> str \<Rightarrow> (str \<times> str) list \<Rightarrow> http_response" where
  "response_bytes he status content_type body headers =
     foldl (\<lambda>r (k, v). if he_value he v then with_header k v r else r)
       (with_header ''content-length'' (show_nat (length body))
         (with_header ''content-type'' content_type \<lparr>hr_status = status, hr_headers = [], hr_body = Full body\<rparr>))
       headers"

definition XML_FAILED :: str where
  "XML_FAILED = ''<Error><Code>InternalError</Code><Message>xml build failed</Message></Error>''"

definition or_else :: "str + str \<Rightarrow> str \<Rightarrow> str" where
  "or_else r d = (case r of Inr b \<Rightarrow> b | Inl e \<Rightarrow> d)"

definition error_response :: "http_env \<Rightarrow> s3_reply \<Rightarrow> str option \<Rightarrow> http_response" where
  "error_response he r request_id =
     response_bytes he (rp_status r) XML_TYPE
       (or_else (s3_error_body (he_ser he) (rp_code r) (rp_message r) (rp_resource r) request_id None)
          (''<Error><Code>'' @ rp_code r @ ''</Code><Message>'' @ rp_message r @ ''</Message></Error>''))
       (rp_headers r)"

definition not_modified :: "str option \<Rightarrow> str option \<Rightarrow> http_response" where
  "not_modified etag last_modified =
     (let r0 = with_header ''content-length'' ''0'' \<lparr>hr_status = 304, hr_headers = [], hr_body = Full []\<rparr>;
          r1 = (case etag of Some e \<Rightarrow> with_header ''etag'' e r0 | None \<Rightarrow> r0);
          r2 = (case last_modified of Some lm \<Rightarrow> with_header ''last-modified'' lm r1 | None \<Rightarrow> r1)
      in with_server r2)"

section \<open>Buckets\<close>

definition list_buckets_paginated ::
  "http_env \<Rightarrow> (system_time \<Rightarrow> str option) \<Rightarrow> str \<Rightarrow> str \<Rightarrow> bucket_info list \<Rightarrow> str option \<Rightarrow> str option \<Rightarrow> http_response" where
  "list_buckets_paginated he fmt owner_id owner_name buckets pfx next =
     response_bytes he 200 XML_TYPE
       (or_else (list_buckets_body_paginated (he_ser he) fmt owner_id owner_name buckets pfx next) XML_FAILED) []"

definition acl_fallback :: "str \<Rightarrow> str \<Rightarrow> str" where
  "acl_fallback owner_id owner_name =
     ''<AccessControlPolicy xmlns='' @ dquote @ ''http://s3.amazonaws.com/doc/2006-03-01/'' @ dquote @ ''>'' @
     ''<Owner><ID>'' @ owner_id @ ''</ID><DisplayName>'' @ owner_name @ ''</DisplayName></Owner>'' @
     ''<AccessControlList><Grant>'' @
     ''<Grantee xmlns:xsi='' @ dquote @ ''http://www.w3.org/2001/XMLSchema-instance'' @ dquote @ '' '' @
     ''xsi:type='' @ dquote @ ''CanonicalUser'' @ dquote @ ''><ID>'' @ owner_id @ ''</ID>'' @
     ''<DisplayName>'' @ owner_name @ ''</DisplayName></Grantee>'' @
     ''<Permission>FULL_CONTROL</Permission>'' @
     ''</Grant></AccessControlList></AccessControlPolicy>''"

definition get_acl :: "http_env \<Rightarrow> str \<Rightarrow> str \<Rightarrow> bool \<Rightarrow> http_response" where
  "get_acl he owner_id owner_name world_readable =
     response_bytes he 200 XML_TYPE
       (or_else (get_acl_body (he_ser he) owner_id owner_name world_readable) (acl_fallback owner_id owner_name)) []"

definition put_acl_ok :: "http_env \<Rightarrow> http_response" where
  "put_acl_ok he = with_server (response_bytes he 200 XML_TYPE [] [])"

definition get_object_tagging :: "http_env \<Rightarrow> (str \<Rightarrow> (str \<times> str) list) \<Rightarrow> str \<Rightarrow> http_response" where
  "get_object_tagging he form_parse tags =
     response_bytes he 200 XML_TYPE
       (or_else (get_object_tagging_body (he_ser he) form_parse tags)
          (''<Tagging xmlns='' @ dquote @ ''http://s3.amazonaws.com/doc/2006-03-01/'' @ dquote @ ''><TagSet/></Tagging>'')) []"

definition put_object_tagging_ok :: "http_env \<Rightarrow> http_response" where
  "put_object_tagging_ok he = response_bytes he 200 XML_TYPE [] []"

definition delete_object_tagging_ok :: "http_env \<Rightarrow> http_response" where
  "delete_object_tagging_ok he = response_bytes he 204 XML_TYPE [] []"

definition get_bucket_location :: "http_env \<Rightarrow> str \<Rightarrow> http_response" where
  "get_bucket_location he region =
     response_bytes he 200 XML_TYPE
       (or_else (get_bucket_location_body (he_ser he) region)
          (''<LocationConstraint xmlns='' @ dquote @ ''http://s3.amazonaws.com/doc/2006-03-01/'' @ dquote @ ''></LocationConstraint>''))
       [(''x-amz-bucket-region'', region)]"

definition head_bucket_ok :: "http_env \<Rightarrow> str \<Rightarrow> http_response" where
  "head_bucket_ok he region = response_bytes he 200 XML_TYPE [] [(''x-amz-bucket-region'', region)]"

section \<open>Objects\<close>

text \<open>
  The boundary of a body with several ranges: sixteen bytes of the system, or the time and a counter.
\<close>

definition to_le_bytes :: "u64 \<Rightarrow> str" where
  "to_le_bytes w = map (\<lambda>i. char_of (unat w div 256 ^ i mod 256)) [0..<8]"

definition multirange_boundary :: "str option \<Rightarrow> u64 \<Rightarrow> u64 \<Rightarrow> str" where
  "multirange_boundary rnd t n =
     (let buf = (case rnd of Some b \<Rightarrow> b | None \<Rightarrow> to_le_bytes t @ to_le_bytes n)
      in concat (map (\<lambda>b. [hex_char (byte b div 16), hex_char (byte b mod 16)]) buf))"

definition put_meta_header :: "http_env \<Rightarrow> http_response \<Rightarrow> str \<times> str \<Rightarrow> http_response" where
  "put_meta_header he r kv =
     (let name = ''x-amz-meta-'' @ fst kv
      in if he_name he name \<and> he_value he (snd kv) then with_header (to_ascii_lowercase name) (snd kv) r else r)"

definition apply_object_headers ::
  "http_env \<Rightarrow> str \<Rightarrow> u64 \<Rightarrow> str \<Rightarrow> str \<Rightarrow> str option \<Rightarrow> (str \<times> str) list \<Rightarrow> http_response \<Rightarrow> http_response" where
  "apply_object_headers he content_type content_length etag last_modified content_range user_meta r =
     (let r1 = with_header ''content-type'' (if he_value he content_type then content_type else OBJECT_CONTENT_TYPE) r;
          r2 = with_header ''content-length'' (show_nat (unat content_length)) r1;
          r3 = with_header ''accept-ranges'' ''bytes'' r2;
          r4 = with_header ''last-modified'' last_modified (with_header ''etag'' etag r3);
          r5 = (case content_range of Some cr \<Rightarrow> with_header ''content-range'' cr r4 | None \<Rightarrow> r4)
      in with_server (foldl (put_meta_header he) r5 user_meta))"

definition object_response ::
  "http_env \<Rightarrow> nat \<Rightarrow> resp_body \<Rightarrow> str \<Rightarrow> u64 \<Rightarrow> str \<Rightarrow> str \<Rightarrow> str option \<Rightarrow> (str \<times> str) list \<Rightarrow> http_response" where
  "object_response he status body content_type content_length etag last_modified content_range user_meta =
     apply_object_headers he content_type content_length etag last_modified content_range user_meta
       \<lparr>hr_status = status, hr_headers = [], hr_body = body\<rparr>"

text \<open>The names of a header map are in lower case.\<close>

fun user_meta_pairs :: "headers \<Rightarrow> str + (str \<times> str) list" where
  "user_meta_pairs [] = Inr []"
| "user_meta_pairs ((name, v) # hs) =
     (case strip_prefix ''x-amz-meta-'' name of
        None \<Rightarrow> user_meta_pairs hs
      | Some suffix \<Rightarrow>
          if suffix = [] then Inl ''x-amz-meta- header with empty key''
          else (case v of
              None \<Rightarrow> Inl ''non-ASCII x-amz-meta-* header value''
            | Some t \<Rightarrow> rbind (user_meta_pairs hs) (\<lambda>kvs. Inr ((to_ascii_lowercase suffix, t) # kvs))))"

definition extract_user_meta_headers :: "((str \<times> str) list \<Rightarrow> str) \<Rightarrow> headers \<Rightarrow> str + str" where
  "extract_user_meta_headers form_serialize hs =
     rbind (user_meta_pairs hs) (\<lambda>kvs. Inr (if kvs \<noteq> [] then form_serialize kvs else []))"

section \<open>Listings and changes\<close>

definition list_objects_v1 :: "http_env \<Rightarrow> str \<Rightarrow> list_v1_ok \<Rightarrow> http_response" where
  "list_objects_v1 he bucket r =
     response_bytes he 200 XML_TYPE (or_else (list_objects_v1_body (he_ser he) bucket r) XML_FAILED) []"

definition list_objects_v2 :: "http_env \<Rightarrow> str \<Rightarrow> list_v2_ok \<Rightarrow> http_response" where
  "list_objects_v2 he bucket r =
     response_bytes he 200 XML_TYPE (or_else (list_objects_v2_body (he_ser he) bucket r) XML_FAILED) []"

definition put_object_ok :: "http_env \<Rightarrow> str \<Rightarrow> http_response" where
  "put_object_ok he etag = with_server (response_bytes he 200 XML_TYPE [] [(''etag'', etag)])"

definition copy_object_ok :: "http_env \<Rightarrow> str \<Rightarrow> str \<Rightarrow> http_response" where
  "copy_object_ok he etag last_modified =
     with_server (response_bytes he 200 XML_TYPE
       (or_else (copy_object_result_body (he_ser he) last_modified etag) XML_FAILED) [(''etag'', etag)])"

definition delete_object_no_content :: "http_env \<Rightarrow> http_response" where
  "delete_object_no_content he = with_server (response_bytes he 204 XML_TYPE [] [])"

definition delete_objects_result :: "http_env \<Rightarrow> str list \<Rightarrow> delete_error_info list \<Rightarrow> http_response" where
  "delete_objects_result he deleted errors =
     with_server (response_bytes he 200 XML_TYPE (or_else (delete_objects_result_body (he_ser he) deleted errors) XML_FAILED) [])"

section \<open>Multipart uploads\<close>

definition create_multipart_upload_ok :: "http_env \<Rightarrow> str \<Rightarrow> str \<Rightarrow> str \<Rightarrow> http_response" where
  "create_multipart_upload_ok he bucket key upload_id =
     with_server (response_bytes he 200 XML_TYPE
       (or_else (initiate_multipart_upload_result_body (he_ser he) bucket key upload_id) XML_FAILED) [])"

definition upload_part_ok :: "http_env \<Rightarrow> str \<Rightarrow> http_response" where
  "upload_part_ok he etag = with_server (response_bytes he 200 XML_TYPE [] [(''etag'', etag)])"

definition upload_part_copy_ok :: "http_env \<Rightarrow> str \<Rightarrow> str \<Rightarrow> http_response" where
  "upload_part_copy_ok he etag last_modified =
     with_server (response_bytes he 200 XML_TYPE
       (or_else (copy_part_result_body (he_ser he) last_modified etag) XML_FAILED) [(''etag'', etag)])"

definition list_multipart_uploads_ok :: "http_env \<Rightarrow> str \<Rightarrow> multipart_upload_info list \<Rightarrow> http_response" where
  "list_multipart_uploads_ok he bucket uploads =
     with_server (response_bytes he 200 XML_TYPE (or_else (list_multipart_uploads_body (he_ser he) bucket uploads) XML_FAILED) [])"

definition list_parts_ok :: "http_env \<Rightarrow> str \<Rightarrow> str \<Rightarrow> str \<Rightarrow> multipart_part_info list \<Rightarrow> http_response" where
  "list_parts_ok he bucket key upload_id parts =
     with_server (response_bytes he 200 XML_TYPE (or_else (list_parts_body (he_ser he) bucket key upload_id parts) XML_FAILED) [])"

definition complete_multipart_upload_ok :: "http_env \<Rightarrow> str \<Rightarrow> str \<Rightarrow> str \<Rightarrow> str \<Rightarrow> http_response" where
  "complete_multipart_upload_ok he location bucket key etag =
     with_server (response_bytes he 200 XML_TYPE
       (or_else (complete_multipart_upload_result_body (he_ser he) location bucket key etag) XML_FAILED) [(''etag'', etag)])"

definition abort_multipart_upload_no_content :: "http_env \<Rightarrow> http_response" where
  "abort_multipart_upload_no_content he = with_server (response_bytes he 204 XML_TYPE [] [])"

section \<open>Headers and bodies\<close>

lemma put_header_get [simp]: "map_of (put_header k v hs) n = (if n = k then Some v else map_of hs n)"
proof -
  have "map_of (filter (\<lambda>h. fst h \<noteq> k) hs) n = (if n = k then None else map_of hs n)"
    by (induction hs) auto
  then show ?thesis by (auto simp: put_header_def map_add_def split: option.splits)
qed

lemma with_header_simps [simp]:
  "hr_status (with_header k v r) = hr_status r" "hr_body (with_header k v r) = hr_body r"
  "map_of (hr_headers (with_header k v r)) n = (if n = k then Some v else map_of (hr_headers r) n)"
  by (simp_all add: with_header_def)

lemma with_server_simps [simp]: "hr_status (with_server r) = hr_status r" "hr_body (with_server r) = hr_body r"
  by (simp_all add: with_server_def)

lemma response_bytes_simps [simp]:
  "hr_status (response_bytes he st ct b hs) = st" "hr_body (response_bytes he st ct b hs) = Full b"
proof -
  have "hr_status (foldl (\<lambda>r (k, v). if he_value he v then with_header k v r else r) r hs) = hr_status r \<and>
        hr_body (foldl (\<lambda>r (k, v). if he_value he v then with_header k v r else r) r hs) = hr_body r" for r
    by (induction hs arbitrary: r) (auto split: prod.splits)
  then show "hr_status (response_bytes he st ct b hs) = st" "hr_body (response_bytes he st ct b hs) = Full b"
    by (simp_all add: response_bytes_def)
qed

lemma meta_headers_simps:
  "hr_status (foldl (put_meta_header he) r kvs) = hr_status r \<and> hr_body (foldl (put_meta_header he) r kvs) = hr_body r"
  by (induction kvs arbitrary: r) (auto simp: put_meta_header_def Let_def)

lemma object_response_simps [simp]:
  "hr_status (object_response he st b ct cl etag lm cr um) = st" "hr_body (object_response he st b ct cl etag lm cr um) = b"
  by (simp_all add: object_response_def apply_object_headers_def Let_def meta_headers_simps split: option.splits)

text \<open>What a client that reads to the end receives.\<close>

definition received :: "resp_body \<Rightarrow> str" where
  "received b =
     (let out = \<lparr>sk_frames = [], sk_left = None\<rparr>
      in case b of
           Full c \<Rightarrow> c
         | StreamRange c sz want cfg \<Rightarrow> sent (snd (emit_range (Inr (reads c)) sz want cfg out))
         | StreamRanges c sz wants boundary cfg \<Rightarrow> sent (snd (emit_multirange (Inr (reads c)) sz wants boundary cfg out)))"

end
