(* ===== verification/Posix_Ops.thy ===== *)
theory Posix_Ops
  imports Posix_Fs
begin

text \<open>
  What changes the tree: removing files and directories, creating directories, writing files,
  renaming, and extended attributes. Each operation takes what the kernel supplies; a directory
  whose entries change gets the time of the change. A path with a zero byte never reaches the
  kernel: the standard library refuses it.
\<close>

definition nul_checked :: "str \<Rightarrow> io_kind + 'a \<Rightarrow> io_kind + 'a" where
  "nul_checked p r = (if CHR 0x00 \<in> set p then Inl NulInPath else r)"

definition fs_metadata :: "node \<Rightarrow> str \<Rightarrow> io_kind + node" where
  "fs_metadata fs p = nul_checked p (metadata fs p)"

definition fs_symlink_metadata :: "node \<Rightarrow> str \<Rightarrow> io_kind + node" where
  "fs_symlink_metadata fs p = nul_checked p (symlink_metadata fs p)"

text \<open>Opening a file or directory to read it.\<close>

definition open_read :: "node \<Rightarrow> str \<Rightarrow> io_kind + node" where
  "open_read fs p =
     (case fs_metadata fs p of
        Inl e \<Rightarrow> Inl e
      | Inr n \<Rightarrow> if at_access (node_attrs n) then Inr n else Inl PermissionDenied)"

section \<open>Entries\<close>

definition replace_entry :: "str \<Rightarrow> node \<Rightarrow> (str \<times> node) list \<Rightarrow> (str \<times> node) list" where
  "replace_entry s m es = map (\<lambda>(k, n). (k, if k = s then m else n)) es"

definition remove_entry :: "str \<Rightarrow> (str \<times> node) list \<Rightarrow> (str \<times> node) list" where
  "remove_entry s es = filter (\<lambda>e. fst e \<noteq> s) es"

definition put_entry :: "str \<Rightarrow> node \<Rightarrow> (str \<times> node) list \<Rightarrow> (str \<times> node) list" where
  "put_entry s m es = (if s \<in> fst ` set es then replace_entry s m es else es @ [(s, m)])"

lemma map_fst_replace [simp]: "map fst (replace_entry s m es) = map fst es"
  by (induction es) (auto simp: replace_entry_def)

lemma map_of_replace: "map_of (replace_entry s m es) t = (if t = s \<and> map_of es s \<noteq> None then Some m else map_of es t)"
  by (induction es) (auto simp: replace_entry_def)

lemma map_of_remove: "map_of (remove_entry s es) t = (if t = s then None else map_of es t)"
  by (induction es) (auto simp: remove_entry_def)

lemma map_of_put: "map_of (put_entry s m es) t = (if t = s then Some m else map_of es t)"
proof (cases "s \<in> fst ` set es")
  case True
  then have "map_of es s \<noteq> None" by (simp add: map_of_eq_None_iff)
  with True show ?thesis by (simp add: put_entry_def map_of_replace)
next
  case False
  then have "map_of es s = None" by (simp add: map_of_eq_None_iff)
  with False show ?thesis by (auto simp: put_entry_def map_add_def split: option.split)
qed

lemma replace_same: "distinct (map fst es) \<Longrightarrow> map_of es s = Some m \<Longrightarrow> replace_entry s m es = es"
  unfolding replace_entry_def by (rule map_idI) (auto dest: map_of_SomeD eq_key_imp_eq_value)

text \<open>A change of the node at a path.\<close>

fun alter :: "str list \<Rightarrow> (node \<Rightarrow> io_kind + node) \<Rightarrow> node \<Rightarrow> io_kind + node" where
  "alter [] f n = f n"
| "alter (s # ss) f n =
     (case n of
        Dir a sz es \<Rightarrow>
          (case map_of es s of
             None \<Rightarrow> Inl NotFound
           | Some m \<Rightarrow> (case alter ss f m of Inl e \<Rightarrow> Inl e | Inr m' \<Rightarrow> Inr (Dir a sz (replace_entry s m' es))))
      | Reg a c \<Rightarrow> Inl NotADirectory
      | Dangling a sz \<Rightarrow> Inl NotFound)"

text \<open>
  What the kernel gives a change: the time, the owner and the modes of what is created, the size of
  a new directory, and for a device the error of its attribute calls, if it has no attributes.
\<close>

record os_env =
  os_now :: system_time
  os_uid :: u32
  os_dir_mode :: u32
  os_file_mode :: u32
  os_dir_size :: u64
  os_xattr :: "u64 \<Rightarrow> int option"

definition touch :: "os_env \<Rightarrow> attrs \<Rightarrow> attrs" where
  "touch os a = a\<lparr>at_mtime := os_now os\<rparr>"

section \<open>Removing\<close>

definition unlink_entry :: "os_env \<Rightarrow> str \<Rightarrow> node \<Rightarrow> io_kind + node" where
  "unlink_entry os name n =
     (case n of
        Dir a sz es \<Rightarrow>
          (case map_of es name of
             None \<Rightarrow> Inl NotFound
           | Some m \<Rightarrow>
               if \<not> at_access a then Inl PermissionDenied
               else if is_dir m \<and> \<not> at_link (node_attrs m) then Inl IsADirectory
               else Inr (Dir (touch os a) sz (remove_entry name es)))
      | Reg a c \<Rightarrow> Inl NotADirectory
      | Dangling a sz \<Rightarrow> Inl NotFound)"

definition rmdir_entry :: "os_env \<Rightarrow> str \<Rightarrow> node \<Rightarrow> io_kind + node" where
  "rmdir_entry os name n =
     (case n of
        Dir a sz es \<Rightarrow>
          (case map_of es name of
             None \<Rightarrow> Inl NotFound
           | Some m \<Rightarrow>
               if \<not> at_access a then Inl PermissionDenied
               else (case m of
                   Dir a' sz' es' \<Rightarrow>
                     if at_link a' then Inl NotADirectory
                     else if es' \<noteq> [] then Inl DirectoryNotEmpty
                     else Inr (Dir (touch os a) sz (remove_entry name es))
                 | _ \<Rightarrow> Inl NotADirectory))
      | Reg a c \<Rightarrow> Inl NotADirectory
      | Dangling a sz \<Rightarrow> Inl NotFound)"

text \<open>The root of the tree cannot be removed.\<close>

definition at_parent :: "(str \<Rightarrow> node \<Rightarrow> io_kind + node) \<Rightarrow> str list \<Rightarrow> node \<Rightarrow> io_kind + node" where
  "at_parent f ss fs = (if ss = [] then Inl OtherIo else alter (butlast ss) (f (last ss)) fs)"

definition remove_file :: "os_env \<Rightarrow> node \<Rightarrow> str \<Rightarrow> io_kind + node" where
  "remove_file os fs p = nul_checked p (at_parent (unlink_entry os) (components p) fs)"

definition remove_dir :: "os_env \<Rightarrow> node \<Rightarrow> str \<Rightarrow> io_kind + node" where
  "remove_dir os fs p = nul_checked p (at_parent (rmdir_entry os) (components p) fs)"

section \<open>Creating\<close>

definition new_attrs :: "os_env \<Rightarrow> attrs \<Rightarrow> u64 \<Rightarrow> u32 \<Rightarrow> attrs" where
  "new_attrs os parent ino mode =
     \<lparr>at_dev = at_dev parent, at_ino = ino, at_mtime = os_now os, at_uid = os_uid os, at_mode = mode,
      at_access = True, at_link = False, at_xattrs = []\<rparr>"

text \<open>\<open>create_dir_all\<close>: the directories of a path that are missing, with the next inode numbers.\<close>

fun mkdirs :: "os_env \<Rightarrow> u64 \<Rightarrow> str list \<Rightarrow> node \<Rightarrow> io_kind + node \<times> u64" where
  "mkdirs os ino [] n = (if is_dir n then Inr (n, ino) else Inl EntryExists)"
| "mkdirs os ino (s # ss) n =
     (case n of
        Dir a sz es \<Rightarrow>
          (case map_of es s of
             Some m \<Rightarrow>
               (case mkdirs os ino ss m of
                  Inl e \<Rightarrow> Inl e
                | Inr (m', ino') \<Rightarrow> Inr (Dir a sz (replace_entry s m' es), ino'))
           | None \<Rightarrow>
               if \<not> at_access a then Inl PermissionDenied
               else (case mkdirs os (ino + 1) ss (Dir (new_attrs os a ino (os_dir_mode os)) (os_dir_size os) []) of
                   Inl e \<Rightarrow> Inl e
                 | Inr (m', ino') \<Rightarrow> Inr (Dir (touch os a) sz (es @ [(s, m')]), ino')))
      | Reg a c \<Rightarrow> Inl NotADirectory
      | Dangling a sz \<Rightarrow> Inl EntryExists)"

definition create_dir_all :: "os_env \<Rightarrow> u64 \<Rightarrow> node \<Rightarrow> str \<Rightarrow> io_kind + node \<times> u64" where
  "create_dir_all os ino fs p = nul_checked p (mkdirs os ino (components p) fs)"

text \<open>
  Opening a file to write it anew, with the content it then gets. A link that leads nowhere leads
  into a directory that is missing.
\<close>

definition write_entry :: "os_env \<Rightarrow> u64 \<Rightarrow> str \<Rightarrow> str \<Rightarrow> node \<Rightarrow> io_kind + node" where
  "write_entry os ino content name n =
     (case n of
        Dir a sz es \<Rightarrow>
          (case map_of es name of
             None \<Rightarrow>
               if \<not> at_access a then Inl PermissionDenied
               else Inr (Dir (touch os a) sz (es @ [(name, Reg (new_attrs os a ino (os_file_mode os)) content)]))
           | Some (Reg a' c) \<Rightarrow>
               if \<not> at_access a' then Inl PermissionDenied
               else Inr (Dir a sz (replace_entry name (Reg (touch os a') content) es))
           | Some (Dir a' sz' es') \<Rightarrow> Inl IsADirectory
           | Some (Dangling a' sz') \<Rightarrow> Inl NotFound)
      | Reg a c \<Rightarrow> Inl NotADirectory
      | Dangling a sz \<Rightarrow> Inl NotFound)"

definition write_file :: "os_env \<Rightarrow> u64 \<Rightarrow> node \<Rightarrow> str \<Rightarrow> str \<Rightarrow> io_kind + node" where
  "write_file os ino fs p content = nul_checked p (at_parent (write_entry os ino content) (components p) fs)"

section \<open>Renaming\<close>

definition place_entry :: "os_env \<Rightarrow> node \<Rightarrow> str \<Rightarrow> node \<Rightarrow> io_kind + node" where
  "place_entry os m name n =
     (case n of
        Dir a sz es \<Rightarrow>
          if at_dev a \<noteq> at_dev (node_attrs m) then Inl CrossesDevices
          else if \<not> at_access a then Inl PermissionDenied
          else (case map_of es name of
              None \<Rightarrow> Inr (Dir (touch os a) sz (put_entry name m es))
            | Some old \<Rightarrow>
                (let dir_new = is_dir m \<and> \<not> at_link (node_attrs m);
                     dir_old = is_dir old \<and> \<not> at_link (node_attrs old)
                 in if dir_new \<and> \<not> dir_old then Inl NotADirectory
                    else if \<not> dir_new \<and> dir_old then Inl IsADirectory
                    else (case old of
                        Dir a' sz' (e # es') \<Rightarrow>
                          if dir_old then Inl DirectoryNotEmpty else Inr (Dir (touch os a) sz (put_entry name m es))
                      | _ \<Rightarrow> Inr (Dir (touch os a) sz (put_entry name m es)))))
      | Reg a c \<Rightarrow> Inl NotADirectory
      | Dangling a sz \<Rightarrow> Inl NotFound)"

definition detach_entry :: "os_env \<Rightarrow> str \<Rightarrow> node \<Rightarrow> io_kind + node" where
  "detach_entry os name n =
     (case n of
        Dir a sz es \<Rightarrow> if at_access a then Inr (Dir (touch os a) sz (remove_entry name es)) else Inl PermissionDenied
      | _ \<Rightarrow> Inl NotADirectory)"

definition starts_path :: "str list \<Rightarrow> str list \<Rightarrow> bool" where
  "starts_path p q \<longleftrightarrow> take (length p) q = p"

text \<open>\<open>rename\<close>: a file or directory takes the place of a file or of an empty directory.\<close>

definition rename_path :: "os_env \<Rightarrow> node \<Rightarrow> str list \<Rightarrow> str list \<Rightarrow> io_kind + node" where
  "rename_path os fs src dst =
     (case node_at fs src of
        Inl e \<Rightarrow> Inl e
      | Inr m \<Rightarrow>
          if src = dst then Inr fs
          else if starts_path src dst then Inl InvalidPath
          else if starts_path dst src then Inl DirectoryNotEmpty
          else (case at_parent (place_entry os m) dst fs of
              Inl e \<Rightarrow> Inl e
            | Inr fs1 \<Rightarrow> at_parent (detach_entry os) src fs1))"

definition rename_file :: "os_env \<Rightarrow> node \<Rightarrow> str \<Rightarrow> str \<Rightarrow> io_kind + node" where
  "rename_file os fs src dst = nul_checked src (nul_checked dst (rename_path os fs (components src) (components dst)))"

section \<open>Attributes\<close>

fun map_attrs :: "(attrs \<Rightarrow> attrs) \<Rightarrow> node \<Rightarrow> node" where
  "map_attrs f (Reg a c) = Reg (f a) c"
| "map_attrs f (Dir a sz es) = Dir (f a) sz es"
| "map_attrs f (Dangling a sz) = Dangling (f a) sz"

fun errno :: "io_kind \<Rightarrow> int" where
  "errno NotFound = 2"
| "errno PermissionDenied = 13"
| "errno NotADirectory = 20"
| "errno DirectoryNotEmpty = 39"
| "errno IsADirectory = 21"
| "errno EntryExists = 17"
| "errno CrossesDevices = 18"
| "errno InvalidPath = 22"
| "errno NulInPath = 22"
| "errno OtherIo = 5"

definition set_xattr :: "str \<Rightarrow> str \<Rightarrow> attrs \<Rightarrow> attrs" where
  "set_xattr name v a = a\<lparr>at_xattrs := (name, v) # filter (\<lambda>e. fst e \<noteq> name) (at_xattrs a)\<rparr>"

definition drop_xattr :: "str \<Rightarrow> attrs \<Rightarrow> attrs" where
  "drop_xattr name a = a\<lparr>at_xattrs := filter (\<lambda>e. fst e \<noteq> name) (at_xattrs a)\<rparr>"

definition xattr_node :: "os_env \<Rightarrow> node \<Rightarrow> str \<Rightarrow> int + attrs" where
  "xattr_node os fs p =
     (case fs_metadata fs p of
        Inl e \<Rightarrow> Inl (errno e)
      | Inr m \<Rightarrow> (case os_xattr os (at_dev (node_attrs m)) of Some e \<Rightarrow> Inl e | None \<Rightarrow> Inr (node_attrs m)))"

definition alter_attrs :: "node \<Rightarrow> str \<Rightarrow> (attrs \<Rightarrow> attrs) \<Rightarrow> int + node" where
  "alter_attrs fs p f = (case alter (components p) (\<lambda>n. Inr (map_attrs f n)) fs of Inl e \<Rightarrow> Inl (errno e) | Inr fs' \<Rightarrow> Inr fs')"

definition path_xattrs :: "os_env \<Rightarrow> str \<Rightarrow> node xattr_api" where
  "path_xattrs os p =
     \<lparr>xa_get = (\<lambda>fs name. case xattr_node os fs p of Inl e \<Rightarrow> if e = ENODATA then Inr None else Inl e | Inr a \<Rightarrow> Inr (map_of (at_xattrs a) name)),
      xa_set = (\<lambda>fs name v. case xattr_node os fs p of
          Inl e \<Rightarrow> Inl e
        | Inr a \<Rightarrow> if at_access a then alter_attrs fs p (set_xattr name v) else Inl (errno PermissionDenied)),
      xa_remove = (\<lambda>fs name. case xattr_node os fs p of
          Inl e \<Rightarrow> Inl e
        | Inr a \<Rightarrow>
            if map_of (at_xattrs a) name = None then Inl ENODATA
            else if at_access a then alter_attrs fs p (drop_xattr name) else Inl (errno PermissionDenied))\<rparr>"

section \<open>Paths\<close>

text \<open>\<open>Path::parent\<close>, and the equality of paths, which skips empty segments and dots.\<close>

definition path_parent :: "str \<Rightarrow> str option" where
  "path_parent p =
     (if p = [] \<or> p = ''/'' then None
      else (case rsplit_once CHR ''/'' p of
          Some (a, b) \<Rightarrow> Some (if a = [] then ''/'' else a)
        | None \<Rightarrow> Some []))"

definition path_eq :: "str \<Rightarrow> str \<Rightarrow> bool" where
  "path_eq p q \<longleftrightarrow> starts_with ''/'' p = starts_with ''/'' q \<and>
     filter (\<lambda>s. s \<noteq> [] \<and> s \<noteq> ''.'') (split_on CHR ''/'' p) = filter (\<lambda>s. s \<noteq> [] \<and> s \<noteq> ''.'') (split_on CHR ''/'' q)"

lemma rsplit_once_Some: "rsplit_once c s = Some (a, b) \<Longrightarrow> s = a @ c # b \<and> c \<notin> set b"
proof -
  assume "rsplit_once c s = Some (a, b)"
  then have "split_once c (rev s) = Some (rev b, rev a)"
    by (auto simp: rsplit_once_def split: option.splits)
  then have "rev s = rev b @ c # rev a" "c \<notin> set b"
    by (simp_all add: split_once_Some_iff)
  then have "rev (rev s) = rev (rev b @ c # rev a)" by simp
  with \<open>c \<notin> set b\<close> show ?thesis by simp
qed

lemma path_parent_shorter: "path_parent p = Some q \<Longrightarrow> length q < length p"
proof -
  assume q: "path_parent p = Some q"
  show ?thesis
  proof (cases "rsplit_once CHR ''/'' p")
    case None
    with q show ?thesis by (auto simp: path_parent_def split: if_splits)
  next
    case (Some ab)
    then obtain a b where "rsplit_once CHR ''/'' p = Some (a, b)" by (cases ab) simp
    with q rsplit_once_Some [OF this] show ?thesis
      by (cases b) (auto simp: path_parent_def split: if_splits)
  qed
qed

section \<open>Changes at a path\<close>

lemma alter_Inr:
  "alter p f n = Inr n' \<Longrightarrow> \<exists>m m'. node_at n p = Inr m \<and> f m = Inr m' \<and> node_at n' p = Inr m'"
proof (induction p f n arbitrary: n' rule: alter.induct)
  case (2 s ss f n)
  then show ?case
    by (cases n) (auto split: option.splits sum.splits simp: map_of_replace)
qed simp

lemma alter_iff:
  "alter p f n = (case node_at n p of
     Inl e \<Rightarrow> Inl e
   | Inr m \<Rightarrow> (case f m of Inl e \<Rightarrow> Inl e | Inr m' \<Rightarrow> alter p (\<lambda>_. Inr m') n))"
proof (induction p f n rule: alter.induct)
  case (2 s ss f n)
  then show ?case
    by (cases n) (auto split: option.splits sum.splits)
qed (auto split: sum.splits)

lemma alter_defined: "node_at n p = Inr m \<Longrightarrow> \<exists>n'. alter p (\<lambda>_. Inr m') n = Inr n'"
proof (induction p "\<lambda>_ :: node. Inr m' :: io_kind + node" n rule: alter.induct)
  case (2 s ss n)
  then show ?case
    by (cases n) (fastforce split: option.splits)+
qed simp

lemma alter_elsewhere:
  "alter p f n = Inr n' \<Longrightarrow> \<not> starts_path p q \<Longrightarrow> \<not> starts_path q p \<Longrightarrow> node_at n' q = node_at n q"
proof (induction p f n arbitrary: n' q rule: alter.induct)
  case (2 s ss f n)
  from "2.prems"(1) obtain a sz es m m' where n: "n = Dir a sz es" "map_of es s = Some m" "alter ss f m = Inr m'" "n' = Dir a sz (replace_entry s m' es)"
    by (auto split: node.splits option.splits sum.splits)
  obtain t ts where q: "q = t # ts"
    using "2.prems"(3) by (cases q) (auto simp: starts_path_def)
  show ?case
  proof (cases "t = s")
    case True
    with "2.prems"(2,3) q have "\<not> starts_path ss ts" "\<not> starts_path ts ss"
      by (auto simp: starts_path_def)
    with "2.IH" [OF n(1,2) n(3)] n q True show ?thesis
      by (simp add: map_of_replace)
  qed (use n q in \<open>simp add: map_of_replace\<close>)
qed (simp add: starts_path_def)

lemma wf_replace:
  assumes "wf_node (Dir a sz es)" "wf_node m"
  shows "wf_node (Dir a' sz' (replace_entry s m es))"
proof -
  have "\<forall>(k, n)\<in>set (replace_entry s m es). valid_name k \<and> wf_node n"
    using assms by (auto simp: replace_entry_def)
  with assms(1) show ?thesis by simp
qed

lemma wf_remove: "wf_node (Dir a sz es) \<Longrightarrow> wf_node (Dir a' sz' (remove_entry s es))"
  by (auto simp: remove_entry_def distinct_map_filter)

lemma wf_append: "wf_node (Dir a sz es) \<Longrightarrow> wf_node m \<Longrightarrow> valid_name s \<Longrightarrow> map_of es s = None \<Longrightarrow> wf_node (Dir a' sz' (es @ [(s, m)]))"
  by (auto simp: map_of_eq_None_iff)

lemma wf_child: "wf_node (Dir a sz es) \<Longrightarrow> map_of es s = Some m \<Longrightarrow> wf_node m \<and> valid_name s"
  by (auto dest!: map_of_SomeD)

lemma wf_alter:
  "alter p f n = Inr n' \<Longrightarrow> wf_node n \<Longrightarrow> (\<And>m m'. wf_node m \<Longrightarrow> f m = Inr m' \<Longrightarrow> wf_node m') \<Longrightarrow> wf_node n'"
proof (induction p f n arbitrary: n' rule: alter.induct)
  case (2 s ss f n)
  from "2.prems"(1) obtain a sz es m m' where n: "n = Dir a sz es" "map_of es s = Some m" "alter ss f m = Inr m'" "n' = Dir a sz (replace_entry s m' es)"
    by (auto split: node.splits option.splits sum.splits)
  have "wf_node m'"
    using "2.IH" [OF n(1,2) n(3)] wf_child [OF _ n(2)] "2.prems"(2,3) n(1) by blast
  with wf_replace "2.prems"(2) n show ?case by blast
qed simp

section \<open>The attributes of a path\<close>

lemma map_attrs_simps [simp]:
  "node_attrs (map_attrs f n) = f (node_attrs n)" "is_dir (map_attrs f n) = is_dir n" "node_len (map_attrs f n) = node_len n"
  by (cases n; simp)+

text \<open>A change of attributes leaves the rest of the tree as it is.\<close>

fun like :: "node \<Rightarrow> node \<Rightarrow> bool" where
  "like (Reg a c) m \<longleftrightarrow> (\<exists>x. m = Reg (a\<lparr>at_xattrs := x\<rparr>) c)"
| "like (Dir a sz es) m \<longleftrightarrow> (\<exists>x es'. m = Dir (a\<lparr>at_xattrs := x\<rparr>) sz es' \<and> map fst es' = map fst es)"
| "like (Dangling a sz) m \<longleftrightarrow> (\<exists>x. m = Dangling (a\<lparr>at_xattrs := x\<rparr>) sz)"

definition keeps_rest :: "(attrs \<Rightarrow> attrs) \<Rightarrow> bool" where
  "keeps_rest f \<longleftrightarrow> (\<forall>a. \<exists>x. f a = a\<lparr>at_xattrs := x\<rparr>)"

lemma like_refl [simp]: "like n n"
  by (cases n) (auto intro: exI [of _ "at_xattrs (node_attrs n)"] exI [of _ "at_xattrs _"])

lemma like_simps: "like n m \<Longrightarrow> is_dir m = is_dir n \<and> node_len m = node_len n \<and> at_dev (node_attrs m) = at_dev (node_attrs n) \<and>
    at_access (node_attrs m) = at_access (node_attrs n) \<and> at_mode (node_attrs m) = at_mode (node_attrs n)"
  by (cases n) auto

lemma like_dangling: "like n m \<Longrightarrow> (\<exists>a sz. m = Dangling a sz) = (\<exists>a sz. n = Dangling a sz)"
  by (cases n) auto

lemma alter_attrs_like:
  assumes "alter p (\<lambda>n. Inr (map_attrs f n)) fs = Inr fs'" "keeps_rest f"
  shows "case node_at fs q of Inl e \<Rightarrow> node_at fs' q = Inl e | Inr n \<Rightarrow> \<exists>m. node_at fs' q = Inr m \<and> like n m"
  using assms(1)
proof (induction p "\<lambda>n. Inr (map_attrs f n) :: io_kind + node" fs arbitrary: fs' q rule: alter.induct)
  case (1 n)
  obtain x where x: "f (node_attrs n) = (node_attrs n)\<lparr>at_xattrs := x\<rparr>"
    using assms(2) by (auto simp: keeps_rest_def)
  show ?case
  proof (cases q)
    case Nil
    with 1 x show ?thesis by (cases n) auto
  next
    case (Cons s ss)
    with 1 x show ?thesis by (cases n) (auto split: option.splits sum.splits)
  qed
next
  case (2 s ss n)
  from "2.prems" obtain a sz es m m' where n: "n = Dir a sz es" "map_of es s = Some m"
      "alter ss (\<lambda>n. Inr (map_attrs f n)) m = Inr m'" "fs' = Dir a sz (replace_entry s m' es)"
    by (auto split: node.splits option.splits sum.splits)
  show ?case
  proof (cases q)
    case Nil
    with n show ?thesis by (auto intro: exI [of _ "at_xattrs a"])
  next
    case (Cons t ts)
    with n "2.hyps" [OF n(1,2,3), of ts] show ?thesis
      by (auto simp: map_of_replace split: option.splits sum.splits)
  qed
qed

lemma keeps_rest_xattr: "keeps_rest (set_xattr n v)" "keeps_rest (drop_xattr n)"
  by (auto simp: keeps_rest_def set_xattr_def drop_xattr_def)

lemma xattr_node_alter:
  assumes "alter_attrs fs p f = Inr fs'" "keeps_rest f" "xattr_node os fs p = Inr a"
  shows "xattr_node os fs' p = Inr (f a)"
proof -
  have alt: "alter (components p) (\<lambda>n. Inr (map_attrs f n)) fs = Inr fs'"
    using assms(1) by (auto simp: alter_attrs_def split: sum.splits)
  from alter_Inr [OF this] obtain m where m: "node_at fs (components p) = Inr m" "node_at fs' (components p) = Inr (map_attrs f m)"
    by auto
  have md: "fs_metadata fs p = Inr m" "a = node_attrs m" "os_xattr os (at_dev a) = None"
    using assms(3) m(1) by (auto simp: xattr_node_def fs_metadata_def nul_checked_def metadata_def split: sum.splits if_splits option.splits node.splits)
  then have "fs_metadata fs' p = Inr (map_attrs f m)"
    using m by (cases m) (auto simp: fs_metadata_def nul_checked_def metadata_def split: if_splits)
  moreover obtain x where "f a = a\<lparr>at_xattrs := x\<rparr>"
    using assms(2) unfolding keeps_rest_def by blast
  ultimately show ?thesis
    using md by (simp add: xattr_node_def)
qed

lemma map_of_filter_other: "map_of (filter (\<lambda>e. fst e \<noteq> n) xs) m = (if m = n then None else map_of xs m)"
  by (induction xs) auto

interpretation file_attrs: xattr_store "path_xattrs os p" for os p
proof
  fix fs n v fs' m
  assume "xa_set (path_xattrs os p) fs n v = Inr fs'"
  then obtain a where "xattr_node os fs p = Inr a" "alter_attrs fs p (set_xattr n v) = Inr fs'"
    by (auto simp: path_xattrs_def split: sum.splits if_splits)
  with xattr_node_alter [OF this(2) keeps_rest_xattr(1) this(1)]
  show "xa_get (path_xattrs os p) fs' m = (if m = n then Inr (Some v) else xa_get (path_xattrs os p) fs m)"
    by (simp add: path_xattrs_def set_xattr_def map_of_filter_other)
next
  fix fs n fs' m
  assume "xa_remove (path_xattrs os p) fs n = Inr fs'"
  then obtain a where "xattr_node os fs p = Inr a" "alter_attrs fs p (drop_xattr n) = Inr fs'"
    by (auto simp: path_xattrs_def split: sum.splits if_splits)
  with xattr_node_alter [OF this(2) keeps_rest_xattr(2) this(1)]
  show "xa_get (path_xattrs os p) fs' m = (if m = n then Inr None else xa_get (path_xattrs os p) fs m)"
    by (simp add: path_xattrs_def drop_xattr_def map_of_filter_other)
next
  have no_errno: "errno e \<noteq> ENODATA" "errno e \<noteq> ENOTSUP" for e
    by (cases e; simp add: ENODATA_def ENOTSUP_def)+
  have alt: "alter_attrs fs q f \<noteq> Inl ENODATA" "alter_attrs fs q f \<noteq> Inl ENOTSUP" for fs q f
    using no_errno by (auto simp: alter_attrs_def split: sum.splits)
  fix fs n
  show "xa_get (path_xattrs os p) fs n = Inr None" if "xa_remove (path_xattrs os p) fs n = Inl ENODATA"
    using that no_errno alt by (auto simp: path_xattrs_def ENODATA_def ENOTSUP_def split: sum.splits if_splits)
  show "xa_get (path_xattrs os p) fs n = Inl ENOTSUP" if "xa_remove (path_xattrs os p) fs n = Inl ENOTSUP"
    using that no_errno alt by (auto simp: path_xattrs_def ENODATA_def ENOTSUP_def split: sum.splits if_splits)
qed

end
