(* ===== verification/Gateway_Base.thy ===== *)
theory Gateway_Base
  imports Posix_Ops S3_Replies Preconditions Payload_Readers List_Complete
begin

text \<open>
  What the request handlers of \<open>crates/s32p-gateway/src/main.rs\<close> share: the state of a worker, requests,
  the guards before the work of a handler, request bodies, and the support of extended attributes.
  A handler ends with an error reply or a crash on the left, or with a response.
\<close>

section \<open>Workers and requests\<close>

record gw_env =
  ge_http :: http_env
  ge_os :: os_env
  ge_list :: list_env
  ge_reader :: xml_reader
  ge_form_parse :: "str \<Rightarrow> (str \<times> str) list"
  ge_form_serialize :: "(str \<times> str) list \<Rightarrow> str"
  ge_pdec :: "str \<Rightarrow> str option"
  ge_time :: "system_time \<Rightarrow> str option"
  ge_httpdate :: "str \<Rightarrow> system_time option"
  ge_fmt_http :: "system_time \<Rightarrow> str"
  ge_mime :: "str \<Rightarrow> str option"
  ge_random :: "str option"
  ge_clock :: u64
  ge_counter :: u64

record gw_app =
  ga_cfg :: gw_cfg
  ga_fs :: node
  ga_ino :: u64
  ga_xattr :: "(u64 \<times> bool) list"

record gw_request =
  gr_method :: str
  gr_uri :: uri
  gr_headers :: headers
  gr_body :: frames

datatype gw_fail = Reply s3_reply | Crash str

type_synonym gw_reply = "gw_fail + http_response"

abbreviation gr_path :: "gw_request \<Rightarrow> str" where
  "gr_path rq \<equiv> uri_path (gr_uri rq)"

definition guard :: "bool \<Rightarrow> s3_reply \<Rightarrow> gw_fail + unit" where
  "guard bad r = (if bad then Inl (Reply r) else Inr ())"

definition expect :: "'e + 'a \<Rightarrow> ('e \<Rightarrow> s3_reply) \<Rightarrow> gw_fail + 'a" where
  "expect x r = (case x of Inl e \<Rightarrow> Inl (Reply (r e)) | Inr v \<Rightarrow> Inr v)"

definition query_is_only_location :: "gw_env \<Rightarrow> gw_request \<Rightarrow> bool" where
  "query_is_only_location env rq \<longleftrightarrow>
     gr_method rq = ''GET'' \<and> is_only_effective (from_uri (ge_form_parse env) (gr_uri rq)) ''location''"

definition has_effective_query :: "gw_env \<Rightarrow> gw_request \<Rightarrow> bool" where
  "has_effective_query env rq \<longleftrightarrow> \<not> is_empty_effective (from_uri (ge_form_parse env) (gr_uri rq))"

text \<open>A step of a handler that may end it, in a given state.\<close>

definition and_then :: "gw_app \<Rightarrow> gw_fail + 'a \<Rightarrow> ('a \<Rightarrow> gw_reply \<times> gw_app) \<Rightarrow> gw_reply \<times> gw_app" where
  "and_then app x k = (case x of Inl e \<Rightarrow> (Inl e, app) | Inr v \<Rightarrow> k v)"

section \<open>Guards\<close>

definition bucket_found :: "gw_app \<Rightarrow> str \<Rightarrow> gw_request \<Rightarrow> gw_fail + unit" where
  "bucket_found app bucket rq =
     (case require_bucket (ga_cfg app) (ga_fs app) bucket (gr_path rq) of Some r \<Rightarrow> Inl (Reply r) | None \<Rightarrow> Inr ())"

definition object_path :: "gw_app \<Rightarrow> str \<Rightarrow> str \<Rightarrow> gw_fail + str" where
  "object_path app bucket key =
     expect (join_object_path (gc_root (ga_cfg app)) bucket key) (\<lambda>e. access_denied e None)"

definition object_found :: "gw_app \<Rightarrow> str \<Rightarrow> gw_request \<Rightarrow> gw_fail + node" where
  "object_found app p rq =
     expect (fs_metadata (ga_fs app) p) (\<lambda>e.
       if e = NotFound then no_such_key ''object not found'' (Some (gr_path rq))
       else access_denied (io_text e) (Some (gr_path rq)))"

definition conditions :: "gw_env \<Rightarrow> gw_request \<Rightarrow> gw_fail + conditional_headers" where
  "conditions env rq =
     (case parse_conditional_headers (ge_httpdate env) (gr_headers rq) of
        Inr c \<Rightarrow> Inr c
      | Inl (Err e) \<Rightarrow> Inl (Reply (invalid_request (''invalid conditional headers: '' @ e) (Some (gr_path rq))))
      | Inl (Panic m) \<Rightarrow> Inl (Crash m))"

section \<open>Request bodies\<close>

definition XML_BODY_MAX_BYTES :: usize where
  "XML_BODY_MAX_BYTES = 1048576"

datatype body_cap_err = TooLarge "u64 option" | ReadFailed str

definition content_length_over_cap :: "headers \<Rightarrow> usize \<Rightarrow> u64 option" where
  "content_length_over_cap hs cap =
     (case hdr_text hs ''content-length'' of
        None \<Rightarrow> None
      | Some v \<Rightarrow> (case parse_u64_std v of
          None \<Rightarrow> None
        | Some advertised \<Rightarrow> if advertised > cap then Some advertised else None))"

text \<open>\<open>Limited\<close> of the http-body-util crate, collected.\<close>

fun collect_limited :: "nat \<Rightarrow> frames \<Rightarrow> body_cap_err + str" where
  "collect_limited cap [] = Inr []"
| "collect_limited cap (Inl e # fs) = Inl (ReadFailed e)"
| "collect_limited cap (Inr b # fs) =
     (if length b > cap then Inl (TooLarge None)
      else rbind (collect_limited (cap - length b) fs) (\<lambda>bs. Inr (b @ bs)))"

definition collect_body_capped :: "headers \<Rightarrow> frames \<Rightarrow> usize \<Rightarrow> body_cap_err + str" where
  "collect_body_capped hs body cap =
     (case content_length_over_cap hs cap of
        Some advertised \<Rightarrow> Inl (TooLarge (Some advertised))
      | None \<Rightarrow> collect_limited (unat cap) body)"

definition xml_body :: "gw_request \<Rightarrow> gw_fail + str" where
  "xml_body rq =
     expect (collect_body_capped (gr_headers rq) (gr_body rq) XML_BODY_MAX_BYTES) (\<lambda>e.
       case e of
         TooLarge adv \<Rightarrow> s3_error 400 ''InvalidRequest'' ''request body too large'' (Some (gr_path rq)) None
       | ReadFailed m \<Rightarrow> invalid_request (''failed to read body: '' @ m) (Some (gr_path rq)))"

lemma collect_limited_Inr: "collect_limited cap fs = Inr b \<Longrightarrow> length b \<le> cap \<and> concat (map (case_sum (\<lambda>e. []) id) fs) = b"
proof (induction cap fs arbitrary: b rule: collect_limited.induct)
  case (3 cap x fs)
  then obtain y where "collect_limited (cap - length x) fs = Inr y" "b = x @ y" "length x \<le> cap"
    by (auto simp: rbind_def split: if_splits sum.splits)
  with "3.IH" [of y] show ?case by auto
qed auto

section \<open>Extended attributes\<close>

definition probe_user_xattrs_supported :: "os_env \<Rightarrow> node \<Rightarrow> str \<Rightarrow> int + bool" where
  "probe_user_xattrs_supported os fs p =
     (case xattr_node os fs p of
        Inr a \<Rightarrow> Inr True
      | Inl e \<Rightarrow> if e = ENOTSUP then Inr False else Inl e)"

definition user_xattrs_supported_for :: "gw_env \<Rightarrow> gw_app \<Rightarrow> str \<Rightarrow> (int + bool) \<times> gw_app" where
  "user_xattrs_supported_for env app p =
     (case fs_metadata (ga_fs app) p of
        Inl e \<Rightarrow> (Inl (errno e), app)
      | Inr n \<Rightarrow>
          (let dev = at_dev (node_attrs n)
           in case map_of (ga_xattr app) dev of
                Some v \<Rightarrow> (Inr v, app)
              | None \<Rightarrow>
                  (case probe_user_xattrs_supported (ge_os env) (ga_fs app) p of
                     Inl e \<Rightarrow> (Inl e, app)
                   | Inr v \<Rightarrow> (Inr v, app\<lparr>ga_xattr := (dev, v) # ga_xattr app\<rparr>))))"

definition require_xattr_support :: "gw_env \<Rightarrow> gw_app \<Rightarrow> str \<Rightarrow> str \<Rightarrow> (gw_fail + unit) \<times> gw_app" where
  "require_xattr_support env app p u =
     (case user_xattrs_supported_for env app p of
        (Inr True, app') \<Rightarrow> (Inr (), app')
      | (Inr False, app') \<Rightarrow>
          (Inl (Reply (not_implemented ''object tagging not supported on this storage backend'' (Some u))), app')
      | (Inl e, app') \<Rightarrow>
          (Inl (Reply (internal_error ''failed to probe object tagging support'' (Some u) None)), app'))"

definition resolve_object_headers :: "gw_env \<Rightarrow> node \<Rightarrow> str \<Rightarrow> str \<times> (str \<times> str) list" where
  "resolve_object_headers env fs p =
     (let api = path_xattrs (ge_os env) p;
          stored = (case read_content_type api fs of Inr c \<Rightarrow> c | Inl e \<Rightarrow> None);
          content_type = (case stored of
              Some c \<Rightarrow> c
            | None \<Rightarrow> unwrap_or (ge_mime env p) OBJECT_CONTENT_TYPE);
          meta = (case read_user_meta api fs of Inr m \<Rightarrow> m | Inl e \<Rightarrow> [])
      in (content_type, ge_form_parse env meta))"

lemma require_xattr_support_fs [simp]: "ga_fs (snd (require_xattr_support env app p u)) = ga_fs app"
  by (simp add: require_xattr_support_def user_xattrs_supported_for_def Let_def split: sum.splits option.splits bool.splits prod.splits)

lemma require_xattr_support_cfg [simp]: "ga_cfg (snd (require_xattr_support env app p u)) = ga_cfg app"
  by (simp add: require_xattr_support_def user_xattrs_supported_for_def Let_def split: sum.splits option.splits bool.splits prod.splits)

section \<open>An example\<close>

definition example_os :: os_env where
  "example_os = \<lparr>os_now = 5, os_uid = 1000, os_dir_mode = 493, os_file_mode = 420, os_dir_size = 4096, os_xattr = (\<lambda>d. None)\<rparr>"

definition example_http :: http_env where
  "example_http = \<lparr>he_value = (\<lambda>v. True), he_name = (\<lambda>n. True), he_ser = (\<lambda>d. Inr ''<doc>'')\<rparr>"

definition example_env :: gw_env where
  "example_env =
     \<lparr>ge_http = example_http, ge_os = example_os, ge_list = example_list_env, ge_reader = example_reader (TaggingDoc [(''team'', ''a'')]),
      ge_form_parse = example_form, ge_form_serialize = (\<lambda>kvs. if kvs = [(''team'', ''a'')] then ''team=a'' else []),
      ge_pdec = Some, ge_time = (\<lambda>t. None), ge_httpdate = (\<lambda>s. None), ge_fmt_http = (\<lambda>t. []), ge_mime = (\<lambda>p. None),
      ge_random = None, ge_clock = 0, ge_counter = 0\<rparr>"

definition example_app :: gw_app where
  "example_app = \<lparr>ga_cfg = example_gw_cfg, ga_fs = example_fs, ga_ino = 100, ga_xattr = []\<rparr>"

definition example_request :: "str \<Rightarrow> str \<Rightarrow> frames \<Rightarrow> gw_request" where
  "example_request meth path body =
     \<lparr>gr_method = meth, gr_uri = \<lparr>uri_path = path, uri_query = None, uri_authority = None\<rparr>, gr_headers = [], gr_body = body\<rparr>"

definition example_class :: "s3_op \<Rightarrow> str \<Rightarrow> s3_request_class" where
  "example_class op key = \<lparr>rc_bucket = Some ''b'', rc_key = Some key, rc_query = [], rc_op = op\<rparr>"

definition no_conditions :: conditional_headers where
  "no_conditions =
     \<lparr>if_match = None, if_none_match = None, if_modified_since = None, if_unmodified_since = None,
      copy_source_if_match = None, copy_source_if_none_match = None, copy_source_if_modified_since = None,
      copy_source_if_unmodified_since = None, amz_if_match_size = None, amz_if_match_last_modified_time = None\<rparr>"

lemma example_conditions: "gr_headers rq = [] \<Longrightarrow> conditions env rq = Inr no_conditions"
  by (simp add: conditions_def parse_conditional_headers_def parse_header_def header_to_str_def hdr_get_def rbind_def no_conditions_def)

end
