(* ===== verification/Object_Meta.thy ===== *)
theory Object_Meta
  imports Gateway_Base
begin

text \<open>
  The handlers of \<open>crates/s32p-gateway/src/main.rs\<close> that read or change what is known of a bucket or an
  object, but not its content: location, access control lists and tags.
\<close>

section \<open>Buckets\<close>

definition handle_get_bucket_location :: "gw_env \<Rightarrow> gw_app \<Rightarrow> gw_request \<Rightarrow> s3_request_class \<Rightarrow> gw_reply" where
  "handle_get_bucket_location env app rq cls =
     (let bucket = bucket_of cls in
      rbind (guard (uri_query (gr_uri rq) \<noteq> None \<and> \<not> query_is_only_location env rq)
               (not_implemented ''query parameters are not implemented'' None)) (\<lambda>_.
      rbind (guard (bucket = []) (not_implemented ''missing bucket'' (Some (gr_path rq)))) (\<lambda>_.
      rbind (bucket_found app bucket rq) (\<lambda>_.
      Inr (get_bucket_location (ge_http env) (gc_region (ga_cfg app)))))))"

definition handle_head_bucket :: "gw_env \<Rightarrow> gw_app \<Rightarrow> gw_request \<Rightarrow> s3_request_class \<Rightarrow> gw_reply" where
  "handle_head_bucket env app rq cls =
     (let bucket = bucket_of cls in
      rbind (guard (has_effective_query env rq) (not_implemented ''query parameters are not implemented'' None)) (\<lambda>_.
      rbind (guard (bucket = []) (not_implemented ''missing bucket'' (Some (gr_path rq)))) (\<lambda>_.
      rbind (bucket_found app bucket rq) (\<lambda>_.
      Inr (head_bucket_ok (ge_http env) (gc_region (ga_cfg app)))))))"

section \<open>Access control lists\<close>

definition world_readable :: "node \<Rightarrow> bool" where
  "world_readable n \<longleftrightarrow> at_mode (node_attrs n) div 4 mod 2 \<noteq> 0"

definition owner_info :: "gw_env \<Rightarrow> u32 \<Rightarrow> owner_info" where
  "owner_info env uid =
     (let i = show_nat (unat uid)
      in \<lparr>ow_id = i, ow_display_name = (case le_lookup (ge_list env) uid of Some n \<Rightarrow> n | None \<Rightarrow> i)\<rparr>)"

definition acl_reply :: "gw_env \<Rightarrow> node \<Rightarrow> http_response" where
  "acl_reply env n =
     (let ow = owner_info env (at_uid (node_attrs n))
      in get_acl (ge_http env) (ow_id ow) (ow_display_name ow) (world_readable n))"

definition handle_get_object_acl :: "gw_env \<Rightarrow> gw_app \<Rightarrow> gw_request \<Rightarrow> s3_request_class \<Rightarrow> gw_reply" where
  "handle_get_object_acl env app rq cls =
     (let bucket = bucket_of cls; key = key_of cls in
      rbind (guard (bucket = [] \<or> key = []) (not_implemented ''missing bucket or key'' (Some (gr_path rq)))) (\<lambda>_.
      rbind (guard (is_reserved_first_segment key (gc_mpu (ga_cfg app)))
               (access_denied ''reserved key prefix'' (Some (gr_path rq)))) (\<lambda>_.
      rbind (bucket_found app bucket rq) (\<lambda>_.
      rbind (object_path app bucket key) (\<lambda>p.
      rbind (object_found app p rq) (\<lambda>m.
      Inr (acl_reply env m)))))))"

definition bucket_node :: "gw_app \<Rightarrow> str \<Rightarrow> gw_request \<Rightarrow> gw_fail + node" where
  "bucket_node app bucket rq =
     rbind (expect (bucket_root_path (gc_root (ga_cfg app)) bucket) (\<lambda>e. access_denied e (Some (gr_path rq)))) (\<lambda>root.
     expect (fs_metadata (ga_fs app) root) (\<lambda>e. access_denied (io_text e) (Some (gr_path rq))))"

definition handle_get_bucket_acl :: "gw_env \<Rightarrow> gw_app \<Rightarrow> gw_request \<Rightarrow> s3_request_class \<Rightarrow> gw_reply" where
  "handle_get_bucket_acl env app rq cls =
     (let bucket = bucket_of cls in
      rbind (guard (bucket = []) (not_implemented ''missing bucket'' (Some (gr_path rq)))) (\<lambda>_.
      rbind (bucket_found app bucket rq) (\<lambda>_.
      rbind (bucket_node app bucket rq) (\<lambda>m.
      Inr (acl_reply env m)))))"

definition acl_request_world_readable_intent :: "xml_reader \<Rightarrow> headers \<Rightarrow> str \<Rightarrow> str + bool" where
  "acl_request_world_readable_intent reader hs body =
     (case hdr_text hs ''x-amz-acl'' of
        Some canned \<Rightarrow>
          (let v = to_ascii_lowercase (trim canned)
           in if v \<in> set [''private'', ''bucket-owner-read'', ''bucket-owner-full-control'', ''aws-exec-read'',
                   ''log-delivery-write'', ''authenticated-read''] then Inr False
              else if v = ''public-read'' \<or> v = ''public-read-write'' then Inr True
              else Inl (''unknown canned ACL: '' @ v))
      | None \<Rightarrow>
          if list_ex (hdr_contains hs) [''x-amz-grant-read'', ''x-amz-grant-write'', ''x-amz-grant-read-acp'',
               ''x-amz-grant-write-acp'', ''x-amz-grant-full-control'']
          then (let mentions = (\<lambda>h. case hdr_text hs h of Some s \<Rightarrow> contains_str ''AllUsers'' s | None \<Rightarrow> False)
                in Inr (mentions ''x-amz-grant-read'' \<or> mentions ''x-amz-grant-full-control''))
          else parse_put_acl_request_world_readable reader body)"

definition handle_put_object_acl :: "gw_env \<Rightarrow> gw_app \<Rightarrow> gw_request \<Rightarrow> s3_request_class \<Rightarrow> gw_reply" where
  "handle_put_object_acl env app rq cls =
     (let bucket = bucket_of cls; key = key_of cls; path = Some (gr_path rq) in
      rbind (guard (bucket = [] \<or> key = []) (s3_error 400 ''InvalidRequest'' ''missing bucket or key'' path None)) (\<lambda>_.
      rbind (guard (is_reserved_first_segment key (gc_mpu (ga_cfg app))) (access_denied ''reserved key prefix'' path)) (\<lambda>_.
      rbind (bucket_found app bucket rq) (\<lambda>_.
      rbind (object_path app bucket key) (\<lambda>p.
      rbind (object_found app p rq) (\<lambda>m.
      rbind (xml_body rq) (\<lambda>body.
      rbind (expect (acl_request_world_readable_intent (ge_reader env) (gr_headers rq) body)
               (\<lambda>e. invalid_request ''invalid ACL request'' path)) (\<lambda>requested.
      rbind (guard (requested \<noteq> world_readable m)
               (not_implemented ''PutObjectAcl is accepted only when it matches the current effective access'' path)) (\<lambda>_.
      Inr (put_acl_ok (ge_http env)))))))))))"

definition handle_put_bucket_acl :: "gw_env \<Rightarrow> gw_app \<Rightarrow> gw_request \<Rightarrow> s3_request_class \<Rightarrow> gw_reply" where
  "handle_put_bucket_acl env app rq cls =
     (let bucket = bucket_of cls; path = Some (gr_path rq) in
      rbind (guard (bucket = []) (s3_error 400 ''InvalidRequest'' ''missing bucket'' path None)) (\<lambda>_.
      rbind (bucket_found app bucket rq) (\<lambda>_.
      rbind (bucket_node app bucket rq) (\<lambda>m.
      rbind (xml_body rq) (\<lambda>body.
      rbind (expect (acl_request_world_readable_intent (ge_reader env) (gr_headers rq) body)
               (\<lambda>e. invalid_request ''invalid ACL request'' path)) (\<lambda>requested.
      rbind (guard (requested \<noteq> world_readable m)
               (not_implemented ''PutBucketAcl is accepted only when it matches the current effective access'' path)) (\<lambda>_.
      Inr (put_acl_ok (ge_http env)))))))))"

section \<open>Tags\<close>

text \<open>The guards the three handlers of tags share.\<close>

definition tagging_target :: "gw_app \<Rightarrow> gw_request \<Rightarrow> s3_request_class \<Rightarrow> gw_fail + str" where
  "tagging_target app rq cls =
     (let bucket = bucket_of cls; key = key_of cls; path = Some (gr_path rq) in
      rbind (guard (bucket = [] \<or> key = []) (s3_error 400 ''InvalidRequest'' ''missing bucket or key'' path None)) (\<lambda>_.
      rbind (guard (is_reserved_first_segment key (gc_mpu (ga_cfg app))) (access_denied ''reserved key prefix'' path)) (\<lambda>_.
      rbind (bucket_found app bucket rq) (\<lambda>_.
      rbind (object_path app bucket key) (\<lambda>p.
      rbind (object_found app p rq) (\<lambda>m. Inr p))))))"

definition handle_get_object_tagging :: "gw_env \<Rightarrow> gw_app \<Rightarrow> gw_request \<Rightarrow> s3_request_class \<Rightarrow> gw_reply" where
  "handle_get_object_tagging env app rq cls =
     rbind (tagging_target app rq cls) (\<lambda>p.
     rbind (expect (read_tags (path_xattrs (ge_os env) p) (ga_fs app))
              (\<lambda>e. internal_error ''failed to read object tags'' (Some (gr_path rq)) None)) (\<lambda>tags.
     Inr (get_object_tagging (ge_http env) (ge_form_parse env) tags)))"

definition handle_put_object_tagging :: "gw_env \<Rightarrow> gw_app \<Rightarrow> gw_request \<Rightarrow> s3_request_class \<Rightarrow> gw_reply \<times> gw_app" where
  "handle_put_object_tagging env app rq cls =
     and_then app (tagging_target app rq cls) (\<lambda>p.
     (case require_xattr_support env app p (gr_path rq) of (supported, app1) \<Rightarrow>
      and_then app1 supported (\<lambda>_.
      and_then app1 (xml_body rq) (\<lambda>body.
      and_then app1 (expect (parse_object_tagging_request (ge_reader env) (ge_form_serialize env) body)
                 (\<lambda>e. s3_error 400 ''MalformedXML'' ''malformed Tagging XML'' (Some (gr_path rq)) None)) (\<lambda>tags.
      and_then app1 (expect (validate_tagging_urlform (ge_form_parse env) tags)
                 (\<lambda>e. s3_error 400 ''InvalidTag'' ''invalid tag set'' (Some (gr_path rq)) None)) (\<lambda>_.
      and_then app1 (expect (write_tags (path_xattrs (ge_os env) p) (ga_fs app1) tags)
                 (\<lambda>e. internal_error ''failed to write object tags'' (Some (gr_path rq)) None)) (\<lambda>fs.
      (Inr (put_object_tagging_ok (ge_http env)), app1\<lparr>ga_fs := fs\<rparr>))))))))"

definition handle_delete_object_tagging :: "gw_env \<Rightarrow> gw_app \<Rightarrow> gw_request \<Rightarrow> s3_request_class \<Rightarrow> gw_reply \<times> gw_app" where
  "handle_delete_object_tagging env app rq cls =
     and_then app (tagging_target app rq cls) (\<lambda>p.
     (case require_xattr_support env app p (gr_path rq) of (supported, app1) \<Rightarrow>
      and_then app1 supported (\<lambda>_.
      and_then app1 (expect (remove_tags (path_xattrs (ge_os env) p) (ga_fs app1))
                 (\<lambda>e. internal_error ''failed to remove object tags'' (Some (gr_path rq)) None)) (\<lambda>fs.
      (Inr (delete_object_tagging_ok (ge_http env)), app1\<lparr>ga_fs := fs\<rparr>)))))"

section \<open>Requests that are not served\<close>

definition handle_versioning :: gw_reply where
  "handle_versioning = Inl (Reply (not_implemented ''versioning is not implemented'' None))"

definition handle_other :: "gw_request \<Rightarrow> gw_reply" where
  "handle_other rq =
     Inl (Reply (not_implemented (''unsupported request shape: '' @ gr_method rq @ '' '' @ path_and_query (gr_uri rq))
       (Some (gr_path rq))))"

section \<open>Tags are read back\<close>

definition same_but_attrs :: "node \<Rightarrow> node \<Rightarrow> bool" where
  "same_but_attrs fs fs' \<longleftrightarrow>
     (\<forall>q. case node_at fs q of Inl e \<Rightarrow> node_at fs' q = Inl e | Inr n \<Rightarrow> \<exists>m. node_at fs' q = Inr m \<and> like n m)"

lemma same_but_attrs_refl [simp]: "same_but_attrs fs fs"
  by (simp add: same_but_attrs_def split: sum.splits)

lemma write_tags_same:
  assumes "write_tags (path_xattrs os p) fs tags = Inr fs'"
  shows "same_but_attrs fs fs'"
proof -
  have alt: "same_but_attrs fs fs1" if "alter_attrs fs p f = Inr fs1" "keeps_rest f" for f fs1
  proof -
    have "alter (components p) (\<lambda>n. Inr (map_attrs f n)) fs = Inr fs1"
      using that(1) by (simp add: alter_attrs_def split: sum.splits)
    from alter_attrs_like [OF this that(2)] show ?thesis unfolding same_but_attrs_def by blast
  qed
  show ?thesis
    using assms alt keeps_rest_xattr
    by (auto simp: write_tags_def remove_tags_def remove_xattr_def path_xattrs_def split: sum.splits if_splits)
qed

lemma metadata_same:
  assumes "same_but_attrs fs fs'"
  shows "case metadata fs q of Inl e \<Rightarrow> metadata fs' q = Inl e | Inr n \<Rightarrow> \<exists>m. metadata fs' q = Inr m \<and> like n m"
proof (cases "node_at fs (components q)")
  case (Inl e)
  with assms show ?thesis by (auto simp: same_but_attrs_def metadata_def split: sum.splits)
next
  case (Inr n)
  with assms obtain m where "node_at fs' (components q) = Inr m" "like n m"
    by (auto simp: same_but_attrs_def split: sum.splits)
  with Inr show ?thesis by (cases n) (auto simp: metadata_def)
qed

lemma bucket_found_same:
  assumes "same_but_attrs fs fs'" "ga_cfg app' = ga_cfg app" "ga_fs app = fs" "ga_fs app' = fs'"
  shows "bucket_found app' bucket rq = bucket_found app bucket rq"
proof -
  have "is_dir_path fs' q = is_dir_path fs q" for q
    using metadata_same [OF assms(1), of q] by (auto simp: is_dir_path_def like_simps split: sum.splits)
  then have "bucket_exists_dir fs' root bucket = bucket_exists_dir fs root bucket" for root
    by (simp add: bucket_exists_dir_def split: sum.splits)
  with assms(2-4) show ?thesis by (simp add: bucket_found_def require_bucket_def)
qed

lemma object_found_same:
  assumes "same_but_attrs (ga_fs app) (ga_fs app')" "object_found app p rq = Inr m"
  shows "\<exists>m'. object_found app' p rq' = Inr m'"
  using assms(2) metadata_same [OF assms(1), of p]
  by (auto simp: object_found_def expect_def fs_metadata_def nul_checked_def split: sum.splits if_splits)

lemma tagging_target_same:
  assumes "same_but_attrs (ga_fs app) (ga_fs app')" "ga_cfg app' = ga_cfg app" "tagging_target app rq cls = Inr p"
  shows "tagging_target app' rq' cls = Inr p"
proof -
  from assms(3) obtain m where parts: "bucket_of cls \<noteq> []" "key_of cls \<noteq> []"
      "\<not> is_reserved_first_segment (key_of cls) (gc_mpu (ga_cfg app))" "bucket_found app (bucket_of cls) rq = Inr ()"
      "object_path app (bucket_of cls) (key_of cls) = Inr p" "object_found app p rq = Inr m"
    by (auto simp: tagging_target_def rbind_def guard_def Let_def split: sum.splits if_splits)
  have "bucket_found app' (bucket_of cls) rq' = Inr ()"
    using parts(4) bucket_found_same [OF assms(1,2) refl refl, of "bucket_of cls" rq']
    by (auto simp: bucket_found_def require_bucket_def split: option.splits sum.splits bool.splits)
  moreover have "object_path app' (bucket_of cls) (key_of cls) = Inr p"
    using parts(5) assms(2) by (simp add: object_path_def)
  moreover obtain m' where "object_found app' p rq' = Inr m'"
    using object_found_same [OF assms(1) parts(6)] by blast
  ultimately show ?thesis
    using parts(1-3) assms(2) by (simp add: tagging_target_def rbind_def guard_def Let_def)
qed

text \<open>
  C26. What PutObjectTagging has stored is what GetObjectTagging answers, and nothing but attributes has
  changed in the tree. The pairs are stored as the form encoding of the request's tag set.
\<close>
theorem put_then_get_tagging:
  assumes "handle_put_object_tagging env app rq cls = (Inr resp, app')"
    "\<forall>kvs. from_utf8 (ge_form_serialize env kvs)"
  shows "\<exists>body tags. xml_body rq = Inr body \<and>
           parse_object_tagging_request (ge_reader env) (ge_form_serialize env) body = Inr tags \<and>
           handle_get_object_tagging env app' rq' cls = Inr (get_object_tagging (ge_http env) (ge_form_parse env) tags) \<and>
           same_but_attrs (ga_fs app) (ga_fs app')"
proof -
  obtain p app1 where p: "tagging_target app rq cls = Inr p" and sup: "require_xattr_support env app p (gr_path rq) = (Inr (), app1)"
    using assms(1) by (auto simp: handle_put_object_tagging_def and_then_def split: sum.splits prod.splits)
  with assms(1) obtain body tags fs' where steps: "xml_body rq = Inr body"
      "parse_object_tagging_request (ge_reader env) (ge_form_serialize env) body = Inr tags"
      "write_tags (path_xattrs (ge_os env) p) (ga_fs app1) tags = Inr fs'" "app' = app1\<lparr>ga_fs := fs'\<rparr>"
    by (auto simp: handle_put_object_tagging_def and_then_def expect_def split: sum.splits prod.splits)
  have app1: "ga_fs app1 = ga_fs app" "ga_cfg app1 = ga_cfg app"
    using sup require_xattr_support_fs [of env app p "gr_path rq"] require_xattr_support_cfg [of env app p "gr_path rq"] by simp_all
  have same: "same_but_attrs (ga_fs app) (ga_fs app')"
    using write_tags_same [OF steps(3)] steps(4) app1 by simp
  have "from_utf8 tags"
    using steps(2) assms(2) by (auto simp: parse_object_tagging_request_def rbind_def split: if_splits sum.splits)
  then have "read_tags (path_xattrs (ge_os env) p) (ga_fs app') = Inr tags"
    using file_attrs.tags_stored [OF steps(3)] steps(4) by simp
  moreover have "tagging_target app' rq' cls = Inr p"
    using tagging_target_same [OF same _ p] steps(4) app1 by simp
  ultimately have "handle_get_object_tagging env app' rq' cls = Inr (get_object_tagging (ge_http env) (ge_form_parse env) tags)"
    by (simp add: handle_get_object_tagging_def rbind_def expect_def)
  with steps(1,2) same show ?thesis by blast
qed

theorem put_then_get_tagging_witness:
  "\<exists>app'. handle_put_object_tagging example_env example_app (example_request ''PUT'' ''/b/b'' [Inr ''<do'', Inr ''c>''])
       (example_class (Write PutObjectTagging) ''b'') = (Inr (put_object_tagging_ok example_http), app') \<and>
     handle_get_object_tagging example_env app' (example_request ''GET'' ''/b/b'' []) (example_class (Write PutObjectTagging) ''b'') =
       Inr (get_object_tagging example_http example_form ''team=a'')"
proof -
  let ?rq = "example_request ''PUT'' ''/b/b'' [Inr ''<do'', Inr ''c>'']" and ?cls = "example_class (Write PutObjectTagging) ''b''"
  let ?app1 = "example_app\<lparr>ga_xattr := [(1, True)]\<rparr>"
  have body: "xml_body ?rq = Inr ''<doc>''"
    by (simp add: xml_body_def example_request_def collect_body_capped_def content_length_over_cap_def hdr_text_def hdr_get_def
        XML_BODY_MAX_BYTES_def rbind_def expect_def)
  have parsed: "parse_object_tagging_request (ge_reader example_env) (ge_form_serialize example_env) ''<doc>'' = Inr ''team=a''"
    by code_simp
  have steps: "tagging_target example_app ?rq ?cls = Inr ''/srv/b/b''"
    "require_xattr_support example_env example_app ''/srv/b/b'' (gr_path ?rq) = (Inr (), ?app1)"
    "validate_tagging_urlform (ge_form_parse example_env) ''team=a'' = Inr ()"
    by code_simp+
  have "is_ok (write_tags (path_xattrs (ge_os example_env) ''/srv/b/b'') (ga_fs ?app1) ''team=a'')"
    by code_simp
  then obtain fs' where "write_tags (path_xattrs (ge_os example_env) ''/srv/b/b'') (ga_fs ?app1) ''team=a'' = Inr fs'"
    by (auto simp: is_ok_def split: sum.splits)
  with steps body parsed have put: "handle_put_object_tagging example_env example_app ?rq ?cls =
      (Inr (put_object_tagging_ok example_http), ?app1\<lparr>ga_fs := fs'\<rparr>)"
    by (simp add: handle_put_object_tagging_def and_then_def expect_def example_env_def)
  have "\<forall>kvs. from_utf8 (ge_form_serialize example_env kvs)"
    by (simp add: example_env_def ascii_from_utf8)
  from put_then_get_tagging [OF put this, of "example_request ''GET'' ''/b/b'' []"] body parsed put show ?thesis
    by (auto simp: example_env_def)
qed

end
