(* ===== verification/Object_Get.thy ===== *)
theory Object_Get
  imports Object_Meta
begin

text \<open>
  GetObject and HeadObject, \<open>handle_get_object\<close> of \<open>crates/s32p-gateway/src/main.rs\<close>.
\<close>

section \<open>The handler\<close>

text \<open>
  What an answer says of the version of an object, after the conditions on it: an early answer, or
  the entity tag and the time of the last modification.
\<close>

definition read_allowed :: "gw_env \<Rightarrow> gw_request \<Rightarrow> node \<Rightarrow> gw_fail + http_response option" where
  "read_allowed env rq n =
     (let lm_st = at_mtime (node_attrs n) in
      rbind (conditions env rq) (\<lambda>cond.
        case evaluate_read_preconditions cond (meta_etag_unquoted n) lm_st of
          Proceed \<Rightarrow> Inr None
        | NotModified \<Rightarrow> Inr (Some (not_modified (Some (meta_etag n)) (Some (ge_fmt_http env lm_st))))
        | PreconditionFailed \<Rightarrow> Inl (Reply (precondition_failed ''GET/HEAD precondition failed'' (Some (gr_path rq))))))"

definition bare_object :: "gw_env \<Rightarrow> node \<Rightarrow> u64 \<Rightarrow> http_response" where
  "bare_object env n sz =
     object_response (ge_http env) 200 (Full []) OBJECT_CONTENT_TYPE sz (meta_etag n) (ge_fmt_http env (at_mtime (node_attrs n))) None []"

definition head_response_from_lstat :: "gw_env \<Rightarrow> gw_request \<Rightarrow> node \<Rightarrow> gw_reply" where
  "head_response_from_lstat env rq n =
     rbind (read_allowed env rq n) (\<lambda>early.
       case early of Some r \<Rightarrow> Inr r | None \<Rightarrow> Inr (bare_object env n (node_len n)))"

definition open_failed :: "gw_env \<Rightarrow> gw_app \<Rightarrow> gw_request \<Rightarrow> bool \<Rightarrow> str \<Rightarrow> io_kind \<Rightarrow> gw_reply" where
  "open_failed env app rq is_head p e =
     (case e of
        NotFound \<Rightarrow>
          (case (if is_head then fs_symlink_metadata (ga_fs app) p else Inl NotFound) of
             Inr (Dangling a sz) \<Rightarrow> head_response_from_lstat env rq (Dangling a sz)
           | _ \<Rightarrow> Inl (Reply (no_such_key ''not found'' None)))
      | NotADirectory \<Rightarrow> Inl (Reply (no_such_key ''not found'' None))
      | PermissionDenied \<Rightarrow> Inl (Reply (access_denied ''permission denied'' None))
      | e \<Rightarrow> Inl (Reply (internal_error (io_text e) (Some (gr_path rq)) None)))"

definition requested_ranges :: "gw_request \<Rightarrow> u64 \<Rightarrow> gw_fail + byte_range list option" where
  "requested_ranges rq sz =
     (case hdr_get (gr_headers rq) ''range'' of
        None \<Rightarrow> Inr None
      | Some None \<Rightarrow> Inl (Reply (invalid_range ''bad Range header'' None))
      | Some (Some s) \<Rightarrow>
          (case parse_ranges_header s sz of
             Inr rs \<Rightarrow> Inr (Some rs)
           | Inl e \<Rightarrow> Inl (Reply (invalid_range (rerr_text e) None))))"

definition stream_cfg_of :: "gw_cfg \<Rightarrow> stream_cfg" where
  "stream_cfg_of cfg = \<lparr>cfg_chunk_size = gc_chunk_size cfg, cfg_inflight = gc_inflight cfg, cfg_direct_io = gc_direct_io cfg\<rparr>"

text \<open>\<open>read_small\<close>: one read into a pooled buffer.\<close>

definition read_small :: "str \<Rightarrow> u64 \<Rightarrow> usize \<Rightarrow> str + str" where
  "read_small content off len =
     (case reads content off len of
        Inl e \<Rightarrow> Inl (''read_at failed at off='' @ show_nat (unat off) @ '': '' @ e)
      | Inr b \<Rightarrow> if b = [] then Inl ''unexpected EOF'' else Inr b)"

text \<open>The answers for a regular file that is not empty.\<close>

definition serve_ranges :: "gw_env \<Rightarrow> gw_app \<Rightarrow> gw_request \<Rightarrow> node \<Rightarrow> str \<Rightarrow> str \<Rightarrow> (str \<times> str) list \<Rightarrow> byte_range list \<Rightarrow> http_response" where
  "serve_ranges env app rq n content content_type user_meta ranges =
     (let sz = node_len n;
          boundary = multirange_boundary (ge_random env) (ge_clock env) (ge_counter env)
      in object_response (ge_http env) 206 (StreamRanges content sz ranges boundary (stream_cfg_of (ga_cfg app)))
           (multirange_content_type boundary) (multirange_content_length boundary ranges sz)
           (meta_etag n) (ge_fmt_http env (at_mtime (node_attrs n))) None user_meta)"

definition serve_range :: "gw_env \<Rightarrow> gw_app \<Rightarrow> gw_request \<Rightarrow> bool \<Rightarrow> node \<Rightarrow> str \<Rightarrow> str \<Rightarrow> (str \<times> str) list \<Rightarrow> byte_range option \<Rightarrow> gw_reply" where
  "serve_range env app rq is_head n content content_type user_meta single =
     (let sz = node_len n;
          range_present = (single \<noteq> None);
          want = (case single of Some r \<Rightarrow> r | None \<Rightarrow> \<lparr>start = 0, end_excl = sz\<rparr>);
          want_len = end_excl want - start want;
          answer = (\<lambda>body len end_incl.
            object_response (ge_http env) (if range_present then 206 else 200) body content_type
              (if range_present then len else sz) (meta_etag n) (ge_fmt_http env (at_mtime (node_attrs n)))
              (if range_present then Some (object_content_range (start want) end_incl sz) else None) user_meta)
      in if is_head then Inr (answer (Full []) want_len (end_excl want - 1))
         else if want_len \<le> gc_chunk_size (ga_cfg app) then
           rbind (expect (read_small content (start want) want_len) (\<lambda>e. internal_error e (Some (gr_path rq)) None)) (\<lambda>b.
             Inr (answer (Full b) (of_nat (length b)) (start want + saturating_sub (of_nat (length b)) 1)))
         else Inr (answer (StreamRange content sz want (stream_cfg_of (ga_cfg app))) want_len (end_excl want - 1)))"

definition serve_file :: "gw_env \<Rightarrow> gw_app \<Rightarrow> gw_request \<Rightarrow> bool \<Rightarrow> str \<Rightarrow> node \<Rightarrow> str \<Rightarrow> gw_reply" where
  "serve_file env app rq is_head p n content =
     rbind (read_allowed env rq n) (\<lambda>early.
       case early of
         Some r \<Rightarrow> Inr r
       | None \<Rightarrow>
           (case resolve_object_headers env (ga_fs app) p of (content_type, user_meta) \<Rightarrow>
              if node_len n = 0
              then Inr (object_response (ge_http env) 200 (Full []) content_type 0 (meta_etag n)
                          (ge_fmt_http env (at_mtime (node_attrs n))) None user_meta)
              else rbind (requested_ranges rq (node_len n)) (\<lambda>ranges.
                case ranges of
                  None \<Rightarrow> serve_range env app rq is_head n content content_type user_meta None
                | Some [r] \<Rightarrow> serve_range env app rq is_head n content content_type user_meta (Some r)
                | Some rs \<Rightarrow>
                    if \<not> is_head \<and> length rs \<ge> 2 then Inr (serve_ranges env app rq n content content_type user_meta rs)
                    else serve_range env app rq is_head n content content_type user_meta None)))"

definition handle_get_object :: "gw_env \<Rightarrow> gw_app \<Rightarrow> gw_request \<Rightarrow> s3_request_class \<Rightarrow> gw_reply" where
  "handle_get_object env app rq cls =
     (let is_head = (rc_op cls = Read HeadObject); bucket = bucket_of cls; key = key_of cls in
      rbind (guard (has_effective_query env rq) (not_implemented ''query parameters are not implemented'' None)) (\<lambda>_.
      rbind (guard (is_reserved_first_segment key (gc_mpu (ga_cfg app))) (no_such_key ''not found'' None)) (\<lambda>_.
      rbind (bucket_found app bucket rq) (\<lambda>_.
      rbind (object_path app bucket key) (\<lambda>p.
      (case open_read (ga_fs app) p of
         Inl e \<Rightarrow> open_failed env app rq is_head p e
       | Inr n \<Rightarrow>
           if is_dir n then
             rbind (guard (\<not> ends_with ''/'' key) (no_such_key ''not found'' None)) (\<lambda>_.
             rbind (read_allowed env rq n) (\<lambda>early.
               case early of Some r \<Rightarrow> Inr r | None \<Rightarrow> Inr (bare_object env n 0)))
           else
             rbind (guard (ends_with ''/'' key) (no_such_key ''not found'' None)) (\<lambda>_.
               (case n of Reg a content \<Rightarrow> serve_file env app rq is_head p n content
                | _ \<Rightarrow> Inl (Reply (no_such_key ''not found'' None))))))))))"

section \<open>What is sent\<close>

definition chunk_ok :: "gw_cfg \<Rightarrow> bool" where
  "chunk_ok cfg \<longleftrightarrow> 0 < gc_chunk_size cfg \<and> unat (gc_chunk_size cfg) < 2 ^ 62"

definition served :: "str \<Rightarrow> str \<Rightarrow> byte_range list option \<Rightarrow> str" where
  "served content boundary ranges =
     (case ranges of
        None \<Rightarrow> content
      | Some [r] \<Rightarrow> slice content (unat (start r)) (unat (end_excl r))
      | Some rs \<Rightarrow> multirange_body content (of_nat (length content)) rs boundary)"

lemma unat_length: "length c < 2 ^ 63 \<Longrightarrow> unat (of_nat (length c) :: u64) = length c"
  by (simp add: unat_of_nat take_bit_nat_def)

lemma parsed_range_ok:
  assumes "chunk_ok cfg" "length c < 2 ^ 63" "c \<noteq> []" "range_within (of_nat (length c)) r"
  shows "range_ok c (of_nat (length c)) r (stream_cfg_of cfg)"
proof -
  have len: "unat (of_nat (length c) :: u64) = length c" by (rule unat_length [OF assms(2)])
  have "(0 :: u64) < of_nat (length c)"
    using len assms(3) by (simp add: word_less_nat_alt)
  with assms len show ?thesis
    by (simp add: range_ok_def range_within_def stream_cfg_of_def chunk_ok_def)
qed

lemma requested_ranges_within:
  assumes "requested_ranges rq sz = Inr (Some rs)"
  shows "rs \<noteq> [] \<and> (\<forall>r\<in>set rs. range_within sz r)"
proof -
  obtain h where "parse_ranges_header h sz = Inr rs"
    using assms by (auto simp: requested_ranges_def split: option.splits sum.splits)
  then obtain specs where "parse_ranges_loop sz [] specs = Inr rs" "rs \<noteq> []"
    by (auto simp: parse_ranges_header_def Let_def rbind_def split: if_splits sum.splits)
  with parse_ranges_loop_Inr [OF this(1)] parse_one_range_within show ?thesis
    by (fastforce simp: list_all2_conv_all_nth in_set_conv_nth)
qed

lemma whole_range_ok:
  assumes "chunk_ok cfg" "length c < 2 ^ 63" "c \<noteq> []"
  shows "range_ok c (of_nat (length c)) \<lparr>start = 0, end_excl = of_nat (length c)\<rparr> (stream_cfg_of cfg)"
  using assms by (intro parsed_range_ok) (auto simp: range_within_def)

lemma received_range:
  assumes "range_ok c sz r cfg"
  shows "received (StreamRange c sz r cfg) = slice c (unat (start r)) (unat (end_excl r))"
  using emit_range_sends [OF assms, of "\<lparr>sk_frames = [], sk_left = None\<rparr>"] by (auto simp: received_def delivers_def sent_def)

lemma received_ranges:
  assumes "\<forall>r\<in>set rs. range_ok c sz r cfg"
  shows "received (StreamRanges c sz rs boundary cfg) = multirange_body c sz rs boundary"
  using emit_multirange_sends [OF assms, of "\<lparr>sk_frames = [], sk_left = None\<rparr>" boundary]
  by (auto simp: received_def delivers_def sent_def)

lemma read_small_slice:
  assumes "range_ok c sz r cfg"
  shows "read_small c (start r) (end_excl r - start r) = Inr (slice c (unat (start r)) (unat (end_excl r)))"
proof -
  note r = range_okD [OF assms]
  have len: "unat (end_excl r - start r) = unat (end_excl r) - unat (start r)"
    using r(3) by (simp add: unat_sub word_le_nat_alt word_less_nat_alt)
  have "slice c (unat (start r)) (unat (end_excl r)) \<noteq> []"
    using r(6,7) by (simp add: slice_def)
  with len show ?thesis by (simp add: read_small_def reads_def slice_def)
qed

lemma content_length_header:
  "map_of (hr_headers (object_response he st b ct len etag lm cr um)) ''content-length'' = Some (show_nat (unat len))"
proof -
  have "map_of (hr_headers (foldl (put_meta_header he) r um)) ''content-length'' = map_of (hr_headers r) ''content-length''" for r
    by (induction um arbitrary: r) (auto simp: put_meta_header_def Let_def to_ascii_lowercase_def to_lower_def is_ascii_upper_def)
  then show ?thesis
    by (simp add: object_response_def apply_object_headers_def Let_def with_server_def split: option.splits)
qed

text \<open>An answer with the bytes of \<open>b\<close>, announced with their number.\<close>

definition answers :: "http_response \<Rightarrow> nat \<Rightarrow> str \<Rightarrow> bool" where
  "answers resp status b \<longleftrightarrow>
     hr_status resp = status \<and> received (hr_body resp) = b \<and>
     map_of (hr_headers resp) ''content-length'' = Some (show_nat (unat (of_nat (length b) :: u64)))"

lemma serve_range_answers:
  assumes "chunk_ok (ga_cfg app)" "length c < 2 ^ 63" "c \<noteq> []" "\<forall>r. single = Some r \<longrightarrow> range_within (of_nat (length c)) r"
  shows "\<exists>resp. serve_range env app rq False (Reg a c) c ct um single = Inr resp \<and>
    answers resp (if single = None then 200 else 206) (served c boundary (map_option (\<lambda>r. [r]) single))"
proof -
  let ?sz = "of_nat (length c) :: u64"
  define r where "r = (case single of Some r \<Rightarrow> r | None \<Rightarrow> \<lparr>start = 0, end_excl = ?sz\<rparr>)"
  have ok: "range_ok c ?sz r (stream_cfg_of (ga_cfg app))"
    using whole_range_ok [OF assms(1-3)] parsed_range_ok [OF assms(1-3)] assms(4) by (auto simp: r_def split: option.splits)
  have len: "end_excl r - start r = of_nat (length (slice c (unat (start r)) (unat (end_excl r))))"
    using range_okD(6,7) [OF ok] by (simp add: of_nat_diff)
  have body: "served c boundary (map_option (\<lambda>r. [r]) single) = slice c (unat (start r)) (unat (end_excl r))"
    using unat_length [OF assms(2)] by (auto simp: served_def r_def slice_def split: option.splits)
  have "single = None \<Longrightarrow> ?sz = of_nat (length (slice c (unat (start r)) (unat (end_excl r))))"
    using len by (simp add: r_def)
  with len read_small_slice [OF ok] received_range [OF ok] show ?thesis
    unfolding body serve_range_def Let_def node_len.simps r_def [symmetric]
    by (auto simp: answers_def expect_def rbind_def content_length_header received_def [of "Full _"])
qed

lemma serve_ranges_answers:
  assumes "chunk_ok (ga_cfg app)" "length c < 2 ^ 63" "c \<noteq> []" "\<forall>r\<in>set rs. range_within (of_nat (length c)) r" "length rs \<ge> 2"
  shows "answers (serve_ranges env app rq (Reg a c) c ct um rs) 206
    (served c (multirange_boundary (ge_random env) (ge_clock env) (ge_counter env)) (Some rs))"
proof -
  let ?b = "multirange_boundary (ge_random env) (ge_clock env) (ge_counter env)"
  have ok: "\<forall>r\<in>set rs. range_ok c (of_nat (length c)) r (stream_cfg_of (ga_cfg app))"
    using parsed_range_ok [OF assms(1-3)] assms(4) by blast
  have "multirange_content_length ?b rs (of_nat (length c)) = of_nat (length (multirange_body c (of_nat (length c)) rs ?b))"
    using multirange_sum_length [OF ok] by (simp add: multirange_content_length_def multirange_body_def)
  moreover have "served c ?b (Some rs) = multirange_body c (of_nat (length c)) rs ?b"
    using assms(5) by (auto simp: served_def split: list.splits)
  ultimately show ?thesis
    using received_ranges [OF ok] by (simp add: serve_ranges_def Let_def answers_def content_length_header)
qed

text \<open>What has to hold for an object to be served: it is there, and the conditions on it are met.\<close>

definition getable :: "gw_env \<Rightarrow> gw_app \<Rightarrow> gw_request \<Rightarrow> s3_request_class \<Rightarrow> attrs \<Rightarrow> str \<Rightarrow> bool" where
  "getable env app rq cls a c \<longleftrightarrow>
     \<not> has_effective_query env rq \<and> \<not> is_reserved_first_segment (key_of cls) (gc_mpu (ga_cfg app)) \<and>
     bucket_found app (bucket_of cls) rq = Inr () \<and> \<not> ends_with ''/'' (key_of cls) \<and>
     (\<exists>p. join_object_path (gc_root (ga_cfg app)) (bucket_of cls) (key_of cls) = Inr p \<and> open_read (ga_fs app) p = Inr (Reg a c)) \<and>
     read_allowed env rq (Reg a c) = Inr None"

lemma getable_serves:
  assumes "getable env app rq cls a c"
  shows "\<exists>p. handle_get_object env app rq cls = serve_file env app rq (rc_op cls = Read HeadObject) p (Reg a c) c"
  using assms by (auto simp: getable_def handle_get_object_def Let_def rbind_def guard_def object_path_def expect_def)



end
