(* ===== verification/Tree_Changes.thy ===== *)
theory Tree_Changes
  imports Posix_Ops List_Complete
begin

text \<open>
  What changes of the tree mean for the keys of a bucket: an entry that comes or goes adds or removes
  its keys, and a directory that becomes empty becomes a key of its own.
\<close>

lemma alter_append: "alter (p @ q) f n = alter p (alter q f) n"
  by (induction p arbitrary: n) (auto split: node.splits option.splits)

section \<open>Keys of entries\<close>

lemma tree_keys_nonempty: "tree_keys d e \<noteq> {}"
proof (induction d e rule: tree_keys.induct)
  case (1 d name a sz es)
  then show ?case by (cases es) auto
qed auto

lemma tree_keys_name:
  assumes "valid_name (fst e)" "wf_node (snd e)" "k \<in> tree_keys d e"
  shows "\<exists>u. k = d @ fst e @ u \<and> (u = [] \<or> hd u = CHR ''/'')"
  using tree_keys_start [OF assms(2,3)] by (cases "is_dir (snd e)") (auto simp: entry_key_def)

lemma name_prefix_eq:
  assumes "CHR ''/'' \<notin> set s" "CHR ''/'' \<notin> set t" "s @ u = t @ v" "u = [] \<or> hd u = CHR ''/''" "v = [] \<or> hd v = CHR ''/''"
  shows "s = t"
proof -
  have "takeWhile (\<lambda>c. c \<noteq> CHR ''/'') (s @ u) = s" if "CHR ''/'' \<notin> set s" "u = [] \<or> hd u = CHR ''/''" for s u
    using that by (cases u) (auto simp: takeWhile_append)
  from this [OF assms(1,4)] this [OF assms(2,5)] assms(3) show ?thesis by simp
qed

lemma tree_keys_disjoint:
  assumes "valid_name s" "valid_name t" "wf_node m" "wf_node n" "s \<noteq> t"
  shows "tree_keys d (s, m) \<inter> tree_keys d (t, n) = {}"
proof (rule equals0I)
  fix k
  assume k: "k \<in> tree_keys d (s, m) \<inter> tree_keys d (t, n)"
  obtain u where u: "k = d @ s @ u" "u = [] \<or> hd u = CHR ''/''"
    using tree_keys_name [of "(s, m)" k d] k assms(1,3) by auto
  obtain v where v: "k = d @ t @ v" "v = [] \<or> hd v = CHR ''/''"
    using tree_keys_name [of "(t, n)" k d] k assms(2,4) by auto
  have "s @ u = t @ v" using u(1) v(1) by simp
  from name_prefix_eq [OF valid_nameD(4) [OF assms(1)] valid_nameD(4) [OF assms(2)] this u(2) v(2)] assms(5) show False by simp
qed

lemma entry_of_map: "distinct (map fst es) \<Longrightarrow> map_of es s = Some m \<Longrightarrow> (t, n) \<in> set es \<Longrightarrow> t = s \<Longrightarrow> n = m"
  using map_of_is_SomeI by fastforce

lemma dir_keys_split:
  assumes "wf_node (Dir a sz es)" "map_of es s = Some m"
  shows "dir_keys d (remove_entry s es) = dir_keys d es - tree_keys d (s, m)" "tree_keys d (s, m) \<subseteq> dir_keys d es"
proof -
  have sm: "(s, m) \<in> set es" "valid_name s" "wf_node m"
    using assms map_of_SomeD [OF assms(2)] by auto
  have other: "tree_keys d (s, m) \<inter> tree_keys d e = {}" if "e \<in> set es" "fst e \<noteq> s" for e
    using tree_keys_disjoint [OF sm(2) _ sm(3), of "fst e" "snd e" d] that assms(1) by (cases e) auto
  have same: "e = (s, m)" if "e \<in> set es" "fst e = s" for e
    using entry_of_map [of es s m "fst e" "snd e"] that assms by (cases e) auto
  show "dir_keys d (remove_entry s es) = dir_keys d es - tree_keys d (s, m)"
  proof (rule set_eqI)
    fix k
    show "k \<in> dir_keys d (remove_entry s es) \<longleftrightarrow> k \<in> dir_keys d es - tree_keys d (s, m)"
      using other same by (fastforce simp: dir_keys_def remove_entry_def)
  qed
  show "tree_keys d (s, m) \<subseteq> dir_keys d es"
    using sm(1) by (auto simp: dir_keys_def)
qed

lemma dir_keys_replace:
  assumes "wf_node (Dir a sz es)" "map_of es s = Some m"
  shows "dir_keys d (replace_entry s m' es) = (dir_keys d es - tree_keys d (s, m)) \<union> tree_keys d (s, m')"
proof -
  have "set (replace_entry s m' es) = set (remove_entry s es) \<union> {(s, m')}"
    using map_of_SomeD [OF assms(2)] by (auto simp: replace_entry_def remove_entry_def image_iff) (force+)?
  then have "dir_keys d (replace_entry s m' es) = dir_keys d (remove_entry s es) \<union> tree_keys d (s, m')"
    by (auto simp: dir_keys_def)
  with dir_keys_split(1) [OF assms] show ?thesis by simp
qed

lemma replace_Nil [simp]: "replace_entry s m es = [] \<longleftrightarrow> es = []"
  by (simp add: replace_entry_def)

section \<open>A leaf is removed\<close>

lemma keys_at_leaf:
  "node_at (Dir a sz es) ds = Inr (Dir a1 sz1 es1) \<Longrightarrow> map_of es1 name = Some m \<Longrightarrow>
   tree_keys (d @ dir_key ds) (name, m) \<subseteq> dir_keys d es"
proof (induction ds arbitrary: a sz es d)
  case Nil
  then show ?case by (auto simp: dir_keys_def dir_key_def dest: map_of_SomeD)
next
  case (Cons s ss)
  then obtain m0 where m0: "map_of es s = Some m0" "node_at m0 ss = Inr (Dir a1 sz1 es1)"
    by (auto split: option.splits)
  obtain a0 sz0 es0 where d0: "m0 = Dir a0 sz0 es0"
    using m0(2) by (cases ss) (auto split: node.splits)
  have "tree_keys (d @ dir_key (s # ss)) (name, m) \<subseteq> dir_keys (d @ s @ ''/'') es0"
    using Cons.IH [of a0 sz0 es0 "d @ s @ ''/''"] m0(2) d0 Cons.prems(2) by (simp add: dir_key_def)
  also have "\<dots> \<subseteq> tree_keys d (s, m0)"
    using d0 by (auto simp: dir_keys_def)
  also have "\<dots> \<subseteq> dir_keys d es"
    using map_of_SomeD [OF m0(1)] by (auto simp: dir_keys_def)
  finally show ?case .
qed

text \<open>
  When an entry with a single key goes, that key goes, and the directory it was in appears, if it is
  empty now and not the top.
\<close>

lemma remove_leaf_keys:
  assumes "wf_node (Dir a sz es)" "node_at (Dir a sz es) ds = Inr (Dir a1 sz1 es1)" "map_of es1 name = Some m"
    "tree_keys (d @ dir_key ds) (name, m) = {k}"
    "alter ds (\<lambda>_. Inr (Dir a2 sz2 (remove_entry name es1))) (Dir a sz es) = Inr (Dir b sz3 es3)"
  shows "dir_keys d es3 = (dir_keys d es - {k}) \<union> (if ds \<noteq> [] \<and> remove_entry name es1 = [] then {d @ dir_key ds} else {})"
  using assms
proof (induction ds arbitrary: a sz es d b sz3 es3)
  case Nil
  with dir_keys_split(1) [OF Nil(1), of name m d] show ?case by (simp add: dir_key_def)
next
  case (Cons s ss)
  from Cons.prems(2) obtain m0 where m0: "map_of es s = Some m0" "node_at m0 ss = Inr (Dir a1 sz1 es1)"
    by (auto split: option.splits)
  obtain a0 sz0 es0 where d0: "m0 = Dir a0 sz0 es0"
    using m0(2) by (cases ss) (auto split: node.splits)
  from Cons.prems(5) m0(1) obtain m1 where m1: "alter ss (\<lambda>_. Inr (Dir a2 sz2 (remove_entry name es1))) m0 = Inr m1"
      "es3 = replace_entry s m1 es"
    by (auto split: sum.splits)
  have "\<exists>a' sz' es'. m1 = Dir a' sz' es'"
    using m1(1) d0 by (cases ss) (auto split: option.splits sum.splits)
  then obtain a' sz' es' where d1: "m1 = Dir a' sz' es'" by blast
  have wf0: "wf_node (Dir a0 sz0 es0)"
    using wf_child [OF Cons.prems(1) m0(1)] d0 by simp
  have keys': "dir_keys (d @ s @ ''/'') es' = (dir_keys (d @ s @ ''/'') es0 - {k}) \<union>
      (if ss \<noteq> [] \<and> remove_entry name es1 = [] then {d @ dir_key (s # ss)} else {})"
    using Cons.IH [OF wf0, of "d @ s @ ''/''" a' sz' es'] m0(2) Cons.prems(3,4) m1(1) d0 d1
    by (simp add: dir_key_def)
  have ne0: "es0 \<noteq> []"
    using m0(2) d0 Cons.prems(3) by (cases ss) (auto split: option.splits)
  have old: "tree_keys d (s, m0) = dir_keys (d @ s @ ''/'') es0"
    using ne0 d0 by (simp add: dir_keys_def)
  have kin: "k \<in> dir_keys (d @ s @ ''/'') es0"
    using keys_at_leaf [OF m0(2) [unfolded d0] Cons.prems(3), of "d @ s @ ''/''"] Cons.prems(4) by (simp add: dir_key_def)
  have empty': "es' = [] \<longleftrightarrow> ss = [] \<and> remove_entry name es1 = []"
    using m1(1) d0 d1 m0(2) ne0 by (cases ss) (auto split: option.splits sum.splits)
  have new: "tree_keys d (s, m1) = (dir_keys (d @ s @ ''/'') es0 - {k}) \<union> (if remove_entry name es1 = [] then {d @ dir_key (s # ss)} else {})"
  proof (cases "es' = []")
    case True
    with empty' keys' have "dir_keys (d @ s @ ''/'') es0 - {k} = {}" "ss = []" "remove_entry name es1 = []"
      by (auto simp: dir_keys_def)
    with True d1 show ?thesis by (auto simp: dir_key_def)
  next
    case False
    with d1 have "tree_keys d (s, m1) = dir_keys (d @ s @ ''/'') es'" by (simp add: dir_keys_def)
    with keys' False empty' show ?thesis by (simp add: dir_key_def)
  qed
  show ?case
    using dir_keys_replace [OF Cons.prems(1) m0(1), of d m1] dir_keys_split(2) [OF Cons.prems(1) m0(1), of d] old new kin m1(2)
    by auto
qed

section \<open>Changes inside a bucket\<close>

lemma open_replace: "s \<noteq> mpu \<Longrightarrow> open_entries mpu d (replace_entry s m es) = replace_entry s m (open_entries mpu d es)"
  by (induction es) (auto simp: open_entries_def replace_entry_def)

lemma open_remove: "open_entries mpu d (remove_entry s es) = remove_entry s (open_entries mpu d es)"
  by (induction es) (auto simp: open_entries_def remove_entry_def)

lemma map_of_open: "s \<noteq> mpu \<Longrightarrow> map_of (open_entries mpu d es) s = map_of es s"
  by (induction es) (auto simp: open_entries_def)

lemma wf_open: "wf_node (Dir a sz es) \<Longrightarrow> wf_node (Dir a sz (open_entries mpu d es))"
  by (auto simp: open_entries_def distinct_map_filter)

lemma node_at_open: "ds \<noteq> [] \<Longrightarrow> hd ds \<noteq> mpu \<Longrightarrow> node_at (Dir a sz (open_entries mpu [] es)) ds = node_at (Dir a sz es) ds"
  by (cases ds) (auto simp: map_of_open)

lemma alter_open:
  assumes "ds \<noteq> []" "hd ds \<noteq> mpu" "alter ds f (Dir a sz es) = Inr n"
  shows "\<exists>es'. n = Dir a sz es' \<and> alter ds f (Dir a sz (open_entries mpu [] es)) = Inr (Dir a sz (open_entries mpu [] es'))"
  using assms by (cases ds) (auto simp: map_of_open open_replace split: option.splits sum.splits)

text \<open>Where the bucket is, and what its directory holds.\<close>

definition in_bucket :: "gw_cfg \<Rightarrow> str \<Rightarrow> str list \<Rightarrow> str list" where
  "in_bucket cfg bucket ds = components (gc_root cfg) @ bucket # ds"

lemma bucket_keys_dir: "bucket_keys cfg fs bucket = dir_keys [] (open_entries (gc_mpu cfg) [] (bucket_dir cfg fs bucket))"
  by (simp add: bucket_keys_def dir_keys_def)

lemma alter_in_bucket:
  assumes "alter (in_bucket cfg bucket ds) f fs = Inr fs'" "node_at fs (in_bucket cfg bucket []) = Inr n"
  shows "\<exists>n'. alter ds f n = Inr n' \<and> node_at fs' (in_bucket cfg bucket []) = Inr n'"
proof -
  have "alter (in_bucket cfg bucket []) (alter ds f) fs = Inr fs'"
    using assms(1) alter_append [of "in_bucket cfg bucket []" ds f fs] by (simp add: in_bucket_def)
  from alter_Inr [OF this] assms(2) show ?thesis by auto
qed

lemma bucket_dir_at: "node_at fs (in_bucket cfg bucket []) = Inr (Dir a sz es) \<Longrightarrow> bucket_dir cfg fs bucket = es"
  by (simp add: bucket_dir_def in_bucket_def)

lemma remove_from_bucket:
  assumes "wf_node (Dir a sz es)" "node_at fs (in_bucket cfg bucket []) = Inr (Dir a sz es)"
    "node_at (Dir a sz es) ds = Inr (Dir a1 sz1 es1)" "map_of es1 name = Some m" "tree_keys (dir_key ds) (name, m) = {k}"
    "hd (ds @ [name]) \<noteq> gc_mpu cfg"
    "alter (in_bucket cfg bucket ds) (\<lambda>_. Inr (Dir a2 sz2 (remove_entry name es1))) fs = Inr fs'"
  shows "bucket_keys cfg fs' bucket = (bucket_keys cfg fs bucket - {k}) \<union> (if ds \<noteq> [] \<and> remove_entry name es1 = [] then {dir_key ds} else {})"
proof -
  let ?f = "\<lambda>_ :: node. Inr (Dir a2 sz2 (remove_entry name es1)) :: io_kind + node" and ?open = "open_entries (gc_mpu cfg) []"
  obtain n' where n': "alter ds ?f (Dir a sz es) = Inr n'" "node_at fs' (in_bucket cfg bucket []) = Inr n'"
    using alter_in_bucket [OF assms(7,2)] by blast
  show ?thesis
  proof (cases "ds = []")
    case True
    with assms(3,6) n' have es: "es1 = es" "name \<noteq> gc_mpu cfg" "bucket_dir cfg fs' bucket = remove_entry name es"
      by (auto dest: bucket_dir_at)
    have "dir_keys [] (remove_entry name (?open es)) = dir_keys [] (?open es) - tree_keys [] (name, m)"
      using dir_keys_split(1) [OF wf_open [OF assms(1)]] assms(4) es(1,2) map_of_open by metis
    with es assms(5) True bucket_dir_at [OF assms(2)] show ?thesis
      by (simp add: bucket_keys_dir open_remove dir_key_def)
  next
    case False
    with assms(6) have hd: "hd ds \<noteq> gc_mpu cfg" by simp
    from alter_open [OF False hd n'(1)] obtain es' where es': "n' = Dir a sz es'"
        "alter ds ?f (Dir a sz (?open es)) = Inr (Dir a sz (?open es'))"
      by blast
    have "node_at (Dir a sz (?open es)) ds = Inr (Dir a1 sz1 es1)"
      using node_at_open [OF False hd] assms(3) by simp
    from remove_leaf_keys [OF wf_open [OF assms(1)] this assms(4) _ es'(2), of "[]" k] assms(5)
    have "dir_keys [] (?open es') = (dir_keys [] (?open es) - {k}) \<union> (if ds \<noteq> [] \<and> remove_entry name es1 = [] then {dir_key ds} else {})"
      by simp
    with n'(2) es'(1) bucket_dir_at [OF assms(2)] bucket_dir_at [of fs' cfg bucket a sz es'] show ?thesis
      by (simp add: bucket_keys_dir)
  qed
qed

text \<open>A directory that is not empty is no key.\<close>

lemma full_dir_no_key:
  assumes "wf_node (Dir a sz es)" "node_at (Dir a sz es) ds = Inr (Dir a1 sz1 es1)" "es1 \<noteq> []" "ds \<noteq> []"
  shows "d @ dir_key ds \<notin> dir_keys d es"
  using assms
proof (induction ds arbitrary: a sz es d)
  case (Cons s ss)
  then obtain m0 where m0: "map_of es s = Some m0" "node_at m0 ss = Inr (Dir a1 sz1 es1)"
    by (auto split: option.splits)
  obtain a0 sz0 es0 where d0: "m0 = Dir a0 sz0 es0"
    using m0(2) by (cases ss) (auto split: node.splits)
  have sm: "(s, m0) \<in> set es" "valid_name s" "wf_node m0"
    using Cons.prems(1) map_of_SomeD [OF m0(1)] by auto
  have ne: "es0 \<noteq> []"
    using m0(2) d0 Cons.prems(3) by (cases ss) (auto split: option.splits)
  show ?case
  proof
    assume "d @ dir_key (s # ss) \<in> dir_keys d es"
    then obtain t n where tn: "(t, n) \<in> set es" "d @ s @ ''/'' @ dir_key ss \<in> tree_keys d (t, n)"
      by (auto simp: dir_keys_def dir_key_def)
    have vt: "valid_name t" "wf_node n" using Cons.prems(1) tn(1) by auto
    from tree_keys_name [of "(t, n)", OF _ _ tn(2)] vt obtain u where u: "s @ ''/'' @ dir_key ss = t @ u" "u = [] \<or> hd u = CHR ''/''"
      by auto
    have "s = t"
      using name_prefix_eq [OF valid_nameD(4) [OF sm(2)] valid_nameD(4) [OF vt(1)] u(1) _ u(2)] by simp
    with tn(1) m0(1) Cons.prems(1) have "n = m0" using entry_of_map by fastforce
    with tn(2) \<open>s = t\<close> d0 ne have below: "(d @ s @ ''/'') @ dir_key ss \<in> dir_keys (d @ s @ ''/'') es0"
      by (simp add: dir_keys_def)
    show False
    proof (cases "ss = []")
      case True
      with below obtain e where "e \<in> set es0" "d @ s @ ''/'' \<in> tree_keys (d @ s @ ''/'') e"
        by (auto simp: dir_keys_def dir_key_def)
      with tree_keys_longer [of e "d @ s @ ''/''" "d @ s @ ''/''"] sm(3) d0 show False by auto
    next
      case False
      from Cons.IH [of a0 sz0 es0 "d @ s @ ''/''", OF _ _ Cons.prems(3) False] m0(2) d0 sm(3) below show False by simp
    qed
  qed
qed simp

section \<open>Ordinary buckets\<close>

text \<open>
  A bucket in which everything is accessible and no name leads to a directory elsewhere.
\<close>

fun no_dir_links :: "node \<Rightarrow> bool" where
  "no_dir_links (Dir a sz es) \<longleftrightarrow> \<not> at_link a \<and> (\<forall>e\<in>set es. no_dir_links (snd e))"
| "no_dir_links n \<longleftrightarrow> True"

fun plain_dir :: "node \<Rightarrow> bool" where
  "plain_dir (Dir a sz es) \<longleftrightarrow> wf_node (Dir a sz es) \<and> all_access (Dir a sz es) \<and> (\<forall>e\<in>set es. no_dir_links (snd e))"
| "plain_dir n \<longleftrightarrow> False"

lemma plain_dir_at:
  assumes "plain_dir n" "node_at n ds = Inr (Dir a1 sz1 es1)"
  shows "plain_dir (Dir a1 sz1 es1) \<and> (ds \<noteq> [] \<longrightarrow> \<not> at_link a1)"
proof -
  have wf: "wf_node (Dir a1 sz1 es1)" "all_access (Dir a1 sz1 es1)"
    using assms wf_node_at [OF _ assms(2)] all_access_at [OF _ assms(2)] by (cases n; simp)+
  have links: "no_dir_links n0 \<Longrightarrow> node_at n0 q = Inr m \<Longrightarrow> no_dir_links m" for n0 q m
  proof (induction n0 q rule: node_at.induct)
    case (2 n s ss)
    then show ?case by (cases n) (auto split: option.splits dest!: map_of_SomeD)
  qed simp
  have "ds \<noteq> [] \<Longrightarrow> no_dir_links (Dir a1 sz1 es1)"
  proof -
    assume "ds \<noteq> []"
    then obtain s ss where ds: "ds = s # ss" by (cases ds) auto
    with assms obtain a sz es m0 where "n = Dir a sz es" "map_of es s = Some m0" "node_at m0 ss = Inr (Dir a1 sz1 es1)"
      by (cases n) (auto split: option.splits)
    with assms(1) links show ?thesis by (force dest: map_of_SomeD)
  qed
  with wf assms show ?thesis by (cases "ds = []") auto
qed

lemma set_replace: "e \<in> set (replace_entry s m es) \<Longrightarrow> e \<in> set es \<or> e = (s, m)"
  by (auto simp: replace_entry_def split: if_splits)

lemma plain_dir_alter:
  assumes "plain_dir n" "node_at n ds = Inr (Dir a1 sz1 es1)" "alter ds (\<lambda>_. Inr (Dir a2 sz2 es2)) n = Inr n'"
    "plain_dir (Dir a2 sz2 es2)" "at_link a2 = at_link a1"
  shows "plain_dir n' \<and> at_link (node_attrs n') = at_link (node_attrs n)"
  using assms(1-3)
proof (induction ds arbitrary: n n')
  case Nil
  with assms(4,5) show ?case by auto
next
  case (Cons s ss)
  then obtain a sz es m0 m1 where n: "n = Dir a sz es" "map_of es s = Some m0" "node_at m0 ss = Inr (Dir a1 sz1 es1)"
      "alter ss (\<lambda>_. Inr (Dir a2 sz2 es2)) m0 = Inr m1" "n' = Dir a sz (replace_entry s m1 es)"
    by (cases n) (auto split: option.splits sum.splits)
  obtain a0 sz0 es0 where d0: "m0 = Dir a0 sz0 es0"
    using n(3) by (cases ss) (auto split: node.splits)
  have p0: "plain_dir m0 \<and> \<not> at_link (node_attrs m0)"
    using plain_dir_at [OF Cons.prems(1), of "[s]" a0 sz0 es0] n(1,2) d0 by simp
  with Cons.IH [OF _ n(3,4)] have p1: "plain_dir m1" "\<not> at_link (node_attrs m1)" by simp_all
  then obtain b0 sz3 es3 where d1: "m1 = Dir b0 sz3 es3" by (cases m1) auto
  have "no_dir_links m1" "wf_node m1" "all_access m1"
    using p1 d1 by auto
  then show ?case
    using Cons.prems(1) n wf_replace [of a sz es m1 a sz s] by (auto dest!: set_replace)
qed

lemma plain_dir_remove: "plain_dir (Dir a sz es) \<Longrightarrow> plain_dir (Dir (touch os a) sz' (remove_entry s es))"
  using wf_remove [of a sz es "touch os a" sz' s] by (auto simp: remove_entry_def touch_def)

text \<open>Every key of a bucket has its node.\<close>

lemma key_has_node:
  assumes "wf_node (Dir a sz es)" "d @ dir_key ds @ x @ t \<in> dir_keys d es" "t = [] \<or> t = ''/''"
    "\<forall>s\<in>set (ds @ [x]). safe_segment s"
  shows "\<exists>m. node_at (Dir a sz es) (ds @ [x]) = Inr m"
  using assms(1,2,4)
proof (induction ds arbitrary: a sz es d)
  case Nil
  then obtain y m where e: "(y, m) \<in> set es" "d @ x @ t \<in> tree_keys d (y, m)"
    by (auto simp: dir_keys_def dir_key_def)
  have vy: "valid_name y" "wf_node m" using Nil(1) e(1) by auto
  obtain u where u: "x @ t = y @ u" "u = [] \<or> hd u = CHR ''/''"
    using tree_keys_name [of "(y, m)", OF _ _ e(2)] vy by auto
  have "CHR ''/'' \<notin> set x" using Nil(3) by (simp add: safe_segment_def)
  from name_prefix_eq [OF this valid_nameD(4) [OF vy(1)] u(1) _ u(2)] assms(3) have "x = y" by auto
  with e(1) Nil(1) show ?case by (auto simp: map_of_is_SomeI)
next
  case (Cons s ss)
  then obtain y m where e: "(y, m) \<in> set es" "d @ s @ ''/'' @ dir_key ss @ x @ t \<in> tree_keys d (y, m)"
    by (auto simp: dir_keys_def dir_key_def)
  have vy: "valid_name y" "wf_node m" using Cons.prems(1) e(1) by auto
  obtain u where u: "s @ ''/'' @ dir_key ss @ x @ t = y @ u" "u = [] \<or> hd u = CHR ''/''"
    using tree_keys_name [of "(y, m)", OF _ _ e(2)] vy by auto
  have s: "CHR ''/'' \<notin> set s" and x: "x \<noteq> []" using Cons.prems(3) by (auto simp: safe_segment_def)
  from name_prefix_eq [OF s valid_nameD(4) [OF vy(1)] u(1) _ u(2)] have y: "y = s" by simp
  obtain a0 sz0 es0 where m: "m = Dir a0 sz0 es0" "(d @ s @ ''/'') @ dir_key ss @ x @ t \<in> dir_keys (d @ s @ ''/'') es0"
    using e(2) y x by (cases m) (auto simp: dir_keys_def split: if_splits)
  have "\<exists>m'. node_at (Dir a0 sz0 es0) (ss @ [x]) = Inr m'"
    using Cons.IH [of a0 sz0 es0 "d @ s @ ''/''"] m vy(2) Cons.prems(3) by simp
  moreover have "map_of es s = Some m" using e(1) y Cons.prems(1) by (auto simp: map_of_is_SomeI)
  ultimately show ?case using m(1) by simp
qed

end
