(* ===== verification/Object_Delete.thy ===== *)
theory Object_Delete
  imports Object_Meta Tree_Changes
begin

text \<open>
  DeleteObject and DeleteObjects of \<open>crates/s32p-gateway/src/main.rs\<close>. Directories that a deletion leaves
  empty are removed, up to the bucket.
\<close>

section \<open>The handlers\<close>

function prune_empty_parents :: "os_env \<Rightarrow> str \<Rightarrow> str \<Rightarrow> node \<Rightarrow> node" where
  "prune_empty_parents os bucket_root dir fs =
     (if path_eq dir bucket_root then fs
      else (case remove_dir os fs dir of
          Inl e \<Rightarrow> fs
        | Inr fs' \<Rightarrow>
            (case path_parent dir of
               None \<Rightarrow> fs'
             | Some parent \<Rightarrow> prune_empty_parents os bucket_root parent fs')))"
  by pat_completeness auto
termination
  by (relation "measure (\<lambda>(os, root, dir, fs). length dir)") (auto simp: path_parent_shorter)

declare prune_empty_parents.simps [simp del]

definition prune_after :: "os_env \<Rightarrow> gw_cfg \<Rightarrow> str \<Rightarrow> str \<Rightarrow> node \<Rightarrow> node" where
  "prune_after os cfg bucket p fs =
     (case (bucket_root_path (gc_root cfg) bucket, path_parent p) of
        (Inr bucket_root, Some parent) \<Rightarrow> prune_empty_parents os bucket_root parent fs
      | _ \<Rightarrow> fs)"

definition delete_marker :: "gw_env \<Rightarrow> gw_app \<Rightarrow> gw_request \<Rightarrow> str \<Rightarrow> str \<Rightarrow> gw_reply \<times> gw_app" where
  "delete_marker env app rq bucket p =
     (let os = ge_os env; path = Some (gr_path rq); ok = Inr (delete_object_no_content (ge_http env)) in
      case remove_dir os (ga_fs app) p of
        Inr fs \<Rightarrow> (ok, app\<lparr>ga_fs := prune_after os (ga_cfg app) bucket p fs\<rparr>)
      | Inl NotFound \<Rightarrow> (ok, app)
      | Inl DirectoryNotEmpty \<Rightarrow> (Inl (Reply (s3_error 409 ''BucketNotEmpty'' ''directory not empty'' path None)), app)
      | Inl PermissionDenied \<Rightarrow> (Inl (Reply (access_denied ''permission denied'' path)), app)
      | Inl e \<Rightarrow> (Inl (Reply (internal_error (io_text e) path None)), app))"

definition delete_allowed :: "gw_app \<Rightarrow> gw_request \<Rightarrow> str \<Rightarrow> conditional_headers \<Rightarrow> gw_fail + unit" where
  "delete_allowed app rq p cond =
     (let path = Some (gr_path rq) in
      case fs_metadata (ga_fs app) p of
        Inr m \<Rightarrow>
          rbind (guard (evaluate_write_preconditions cond (Some (meta_etag_unquoted m, at_mtime (node_attrs m))) = PreconditionFailed)
                   (precondition_failed ''DELETE precondition failed'' path)) (\<lambda>_.
          rbind (guard (case amz_if_match_size cond of Some want \<Rightarrow> want \<noteq> node_len m | None \<Rightarrow> False)
                   (precondition_failed ''x-amz-if-match-size mismatch'' path)) (\<lambda>_.
          guard (case amz_if_match_last_modified_time cond of Some want \<Rightarrow> at_mtime (node_attrs m) \<noteq> want | None \<Rightarrow> False)
            (precondition_failed ''x-amz-if-match-last-modified-time mismatch'' path)))
      | Inl e \<Rightarrow> guard (if_match cond \<noteq> None) (precondition_failed ''DELETE If-Match but object does not exist'' path))"

definition delete_file :: "gw_env \<Rightarrow> gw_app \<Rightarrow> gw_request \<Rightarrow> str \<Rightarrow> str \<Rightarrow> gw_reply \<times> gw_app" where
  "delete_file env app rq bucket p =
     (let os = ge_os env; path = Some (gr_path rq); ok = Inr (delete_object_no_content (ge_http env)) in
      case remove_file os (ga_fs app) p of
        Inr fs \<Rightarrow> (ok, app\<lparr>ga_fs := prune_after os (ga_cfg app) bucket p fs\<rparr>)
      | Inl NotFound \<Rightarrow> (ok, app)
      | Inl PermissionDenied \<Rightarrow> (Inl (Reply (access_denied ''permission denied'' path)), app)
      | Inl e \<Rightarrow> (Inl (Reply (internal_error (io_text e) path None)), app))"

definition handle_delete_object :: "gw_env \<Rightarrow> gw_app \<Rightarrow> gw_request \<Rightarrow> s3_request_class \<Rightarrow> gw_reply \<times> gw_app" where
  "handle_delete_object env app rq cls =
     (let bucket = bucket_of cls; key = key_of cls; path = Some (gr_path rq) in
      and_then app (guard (has_effective_query env rq) (not_implemented ''query parameters are not implemented'' None)) (\<lambda>_.
      and_then app (guard (is_reserved_first_segment key (gc_mpu (ga_cfg app))) (access_denied ''reserved key prefix'' path)) (\<lambda>_.
      and_then app (guard (bucket = [] \<or> key = []) (s3_error 400 ''InvalidRequest'' ''missing bucket or key'' path None)) (\<lambda>_.
      and_then app (bucket_found app bucket rq) (\<lambda>_.
      and_then app (object_path app bucket key) (\<lambda>p.
      if ends_with ''/'' key then delete_marker env app rq bucket p
      else
        and_then app (conditions env rq) (\<lambda>cond.
        and_then app (delete_allowed app rq p cond) (\<lambda>_.
        delete_file env app rq bucket p))))))))"

text \<open>One key of DeleteObjects: what is reported deleted, what failed, and the tree.\<close>

definition delete_one ::
  "os_env \<Rightarrow> gw_cfg \<Rightarrow> str \<Rightarrow> str \<Rightarrow> bool \<Rightarrow> str \<Rightarrow> str list \<times> delete_error_info list \<times> node \<Rightarrow> str list \<times> delete_error_info list \<times> node" where
  "delete_one os cfg bucket bucket_root quiet key s =
     (case s of (deleted, errors, fs) \<Rightarrow>
        let failed = (\<lambda>code msg. (deleted, errors @ [\<lparr>dx_key = key, dx_code = code, dx_message = msg\<rparr>], fs));
            done_with = (\<lambda>fs'. (if quiet then deleted else deleted @ [key], errors, fs'))
        in if key = [] then failed ''InvalidRequest'' ''empty key''
           else if is_reserved_first_segment key (gc_mpu cfg) then failed ''AccessDenied'' ''reserved key prefix''
           else (case join_object_path (gc_root cfg) bucket key of
               Inl e \<Rightarrow> failed ''InvalidRequest'' e
             | Inr p \<Rightarrow>
                 (case (if ends_with ''/'' key then remove_dir os fs p else remove_file os fs p) of
                    Inr fs' \<Rightarrow>
                      done_with (case path_parent p of
                          Some parent \<Rightarrow> prune_empty_parents os bucket_root parent fs'
                        | None \<Rightarrow> fs')
                  | Inl NotFound \<Rightarrow> done_with fs
                  | Inl DirectoryNotEmpty \<Rightarrow> failed ''BucketNotEmpty'' ''directory not empty''
                  | Inl PermissionDenied \<Rightarrow> failed ''AccessDenied'' ''permission denied''
                  | Inl e \<Rightarrow> failed ''InternalError'' (io_text e))))"

definition delete_body :: "gw_request \<Rightarrow> gw_fail + str" where
  "delete_body rq =
     expect (collect_body_capped (gr_headers rq) (gr_body rq) XML_BODY_MAX_BYTES) (\<lambda>e.
       s3_error 400 ''InvalidRequest''
         (case e of TooLarge adv \<Rightarrow> ''request body too large'' | ReadFailed m \<Rightarrow> ''failed to read body: '' @ m) (Some (gr_path rq)) None)"

definition handle_delete_objects :: "gw_env \<Rightarrow> gw_app \<Rightarrow> gw_request \<Rightarrow> s3_request_class \<Rightarrow> gw_reply \<times> gw_app" where
  "handle_delete_objects env app rq cls =
     (let bucket = bucket_of cls; path = Some (gr_path rq); cfg = ga_cfg app in
      and_then app (guard (\<not> has (rc_query cls) ''delete'') (not_implemented ''missing ?delete'' None)) (\<lambda>_.
      and_then app (guard (bucket = []) (s3_error 400 ''InvalidRequest'' ''missing bucket'' path None)) (\<lambda>_.
      and_then app (bucket_found app bucket rq) (\<lambda>_.
      and_then app (delete_body rq) (\<lambda>body.
      and_then app (expect (parse_delete_objects_request (ge_reader env) body) (\<lambda>e. s3_error 400 ''InvalidRequest'' e path None)) (\<lambda>(quiet, keys).
      and_then app (guard (length keys > 1000) (s3_error 400 ''InvalidRequest'' ''too many keys in DeleteObjects (max 1000)'' path None)) (\<lambda>_.
      and_then app (expect (bucket_root_path (gc_root cfg) bucket) (\<lambda>e. access_denied e path)) (\<lambda>bucket_root.
      (case fold (delete_one (ge_os env) cfg bucket bucket_root quiet) keys ([], [], ga_fs app) of
         (deleted, errors, fs) \<Rightarrow> (Inr (delete_objects_result (ge_http env) deleted errors), app\<lparr>ga_fs := fs\<rparr>))))))))))"

section \<open>Paths inside a bucket\<close>

definition seg_path :: "str \<Rightarrow> str list \<Rightarrow> str" where
  "seg_path root qs = root @ concat (map (\<lambda>q. CHR ''/'' # q) qs)"

lemma components_seg:
  assumes "\<forall>q\<in>set qs. safe_segment q"
  shows "components (seg_path root qs) = components root @ qs"
proof -
  have "\<forall>q\<in>set qs. CHR ''/'' \<notin> set q" using assms by (auto simp: safe_segment_def)
  from split_on_segments [OF this, of root] show ?thesis
    unfolding components_def seg_path_def by (simp only: walk_append) (rule walk_safe, use assms in auto)
qed

lemma path_eq_seg:
  assumes "\<forall>q\<in>set (b # qs). safe_segment q" "root \<noteq> []"
  shows "path_eq (seg_path root (b # qs)) (seg_path root [b]) \<longleftrightarrow> qs = []"
proof -
  have no_sep: "\<forall>q\<in>set (b # qs). CHR ''/'' \<notin> set q" using assms(1) by (auto simp: safe_segment_def)
  let ?F = "filter (\<lambda>s. s \<noteq> [] \<and> s \<noteq> ''.'')"
  have kept: "?F xs = xs" if "\<forall>q\<in>set xs. safe_segment q" for xs
    using that by (induction xs) (auto simp: safe_segment_def)
  have "?F (split_on CHR ''/'' (seg_path root (b # qs))) = ?F (split_on CHR ''/'' root) @ b # qs"
    "?F (split_on CHR ''/'' (seg_path root [b])) = ?F (split_on CHR ''/'' root) @ [b]"
    using split_on_segments [OF no_sep, of root] split_on_segments [of "[b]" root] no_sep kept [of "b # qs"] kept [of "[b]"] assms(1)
    by (simp_all add: seg_path_def)
  with assms(2) show ?thesis by (auto simp: path_eq_def seg_path_def starts_with_def)
qed

lemma rsplit_once_last: "c \<notin> set b \<Longrightarrow> rsplit_once c (a @ c # b) = Some (a, b)"
proof -
  assume "c \<notin> set b"
  then have "split_once c (rev b @ c # rev a) = Some (rev b, rev a)" by (simp add: split_once_Some_iff)
  then show ?thesis by (simp add: rsplit_once_def)
qed

lemma path_parent_seg:
  assumes "safe_segment q" "root \<noteq> []"
  shows "path_parent (seg_path root (qs @ [q])) = Some (seg_path root qs)"
proof -
  have q: "CHR ''/'' \<notin> set q" "q \<noteq> []" using assms(1) by (auto simp: safe_segment_def)
  have eq: "seg_path root (qs @ [q]) = seg_path root qs @ CHR ''/'' # q" by (simp add: seg_path_def)
  have "seg_path root qs \<noteq> []" "seg_path root qs @ CHR ''/'' # q \<noteq> ''/''"
    using assms(2) q(2) by (auto simp: seg_path_def append_eq_Cons_conv)
  with rsplit_once_last [OF q(1), of "seg_path root qs"] show ?thesis
    by (simp add: eq path_parent_def)
qed

lemma join_seg:
  assumes "proper_root root" "join_object_path root b key = Inr p"
  shows "p = seg_path root (b # key_segments key)" "\<forall>q\<in>set (b # key_segments key). safe_segment q"
  using assms join_object_path_ok [OF assms(1)] by (auto simp: seg_path_def)

lemma bucket_root_seg:
  assumes "proper_root root" "safe_segment b"
  shows "bucket_root_path root b = Inr (seg_path root [b])"
  unfolding bucket_root_path_def join_object_path_ok [OF assms(1)] using assms(2) by (simp add: key_segments_def seg_path_def)

lemma nul_prefix: "CHR 0x00 \<notin> set (seg_path root (qs @ rs)) \<Longrightarrow> CHR 0x00 \<notin> set (seg_path root qs)"
  by (auto simp: seg_path_def)

section \<open>Removing and pruning\<close>

lemma at_parent_in_bucket: "at_parent g (in_bucket cfg b (ds @ [name])) fs = alter (in_bucket cfg b ds) (g name) fs"
proof -
  have "in_bucket cfg b (ds @ [name]) = in_bucket cfg b ds @ [name]" by (simp add: in_bucket_def)
  then show ?thesis by (simp add: at_parent_def)
qed

lemma node_at_in_bucket:
  assumes "node_at fs (in_bucket cfg b []) = Inr n"
  shows "node_at fs (in_bucket cfg b ds) = node_at n ds"
  using assms node_at_append [of fs "in_bucket cfg b []" ds] by (simp add: in_bucket_def)

definition plain_bucket :: "gw_cfg \<Rightarrow> node \<Rightarrow> str \<Rightarrow> bool" where
  "plain_bucket cfg fs b \<longleftrightarrow> (\<exists>n. node_at fs (in_bucket cfg b []) = Inr n \<and> plain_dir n)"

lemma leaf_removed:
  assumes "node_at fs (in_bucket cfg b []) = Inr n" "plain_dir n" "node_at n ds = Inr (Dir a1 sz1 es1)" "map_of es1 name = Some m"
    "tree_keys (dir_key ds) (name, m) = {k}" "hd (ds @ [name]) \<noteq> gc_mpu cfg"
    "g name (Dir a1 sz1 es1) = Inr (Dir (touch os a1) sz1 (remove_entry name es1))"
  shows "\<exists>fs' n'. at_parent g (in_bucket cfg b (ds @ [name])) fs = Inr fs' \<and>
    node_at fs' (in_bucket cfg b []) = Inr n' \<and> plain_dir n' \<and> node_at n' ds = Inr (Dir (touch os a1) sz1 (remove_entry name es1)) \<and>
    bucket_keys cfg fs' b = (bucket_keys cfg fs b - {k}) \<union> (if ds \<noteq> [] \<and> remove_entry name es1 = [] then {dir_key ds} else {})"
proof -
  let ?new = "Dir (touch os a1) sz1 (remove_entry name es1)"
  have at: "node_at fs (in_bucket cfg b ds) = Inr (Dir a1 sz1 es1)"
    using node_at_in_bucket [OF assms(1)] assms(3) by simp
  from alter_defined [OF this, of ?new] obtain fs' where fs': "alter (in_bucket cfg b ds) (\<lambda>_. Inr ?new) fs = Inr fs'" by blast
  have removed: "at_parent g (in_bucket cfg b (ds @ [name])) fs = Inr fs'"
    unfolding at_parent_in_bucket alter_iff [of "in_bucket cfg b ds" "g name"] using at assms(7) fs' by simp
  from alter_in_bucket [OF fs' assms(1)] obtain n' where n': "alter ds (\<lambda>_. Inr ?new) n = Inr n'" "node_at fs' (in_bucket cfg b []) = Inr n'"
    by blast
  obtain a sz es where n: "n = Dir a sz es" using assms(2) by (cases n) auto
  have "plain_dir ?new" "at_link (touch os a1) = at_link a1"
    using plain_dir_at [OF assms(2,3)] plain_dir_remove by (auto simp: touch_def simp del: plain_dir.simps)
  then have "plain_dir n'"
    using plain_dir_alter [OF assms(2,3) n'(1)] by blast
  moreover have "node_at n' ds = Inr ?new" using alter_Inr [OF n'(1)] by auto
  moreover have "wf_node (Dir a sz es)" using assms(2) n by simp
  from remove_from_bucket [OF this assms(1) [unfolded n] assms(3) [unfolded n] assms(4-6) fs']
  have "bucket_keys cfg fs' b = (bucket_keys cfg fs b - {k}) \<union> (if ds \<noteq> [] \<and> remove_entry name es1 = [] then {dir_key ds} else {})" .
  ultimately show ?thesis using removed n'(2) by blast
qed

lemma dir_key_snoc: "dir_key (ds @ [x]) = dir_key ds @ x @ ''/''"
  by (simp add: dir_key_def)

lemma prune_keys:
  assumes "node_at fs (in_bucket cfg b []) = Inr n" "plain_dir n" "node_at n ds = Inr (Dir a1 sz1 es1)"
    "\<forall>q\<in>set (b # ds). safe_segment q" "CHR 0x00 \<notin> set (seg_path (gc_root cfg) (b # ds))" "gc_root cfg \<noteq> []"
    "ds \<noteq> [] \<longrightarrow> hd ds \<noteq> gc_mpu cfg" "\<forall>xs ys. ds = xs @ ys \<longrightarrow> xs \<noteq> [] \<longrightarrow> dir_key xs \<notin> K"
    "bucket_keys cfg fs b = K \<union> (if ds \<noteq> [] \<and> es1 = [] then {dir_key ds} else {})"
  shows "bucket_keys cfg (prune_empty_parents os (seg_path (gc_root cfg) [b]) (seg_path (gc_root cfg) (b # ds)) fs) b = K \<and>
    plain_bucket cfg (prune_empty_parents os (seg_path (gc_root cfg) [b]) (seg_path (gc_root cfg) (b # ds)) fs) b"
  using assms
proof (induction ds arbitrary: fs n a1 sz1 es1 rule: rev_induct)
  case Nil
  then show ?case
    using path_eq_seg [of b "[]" "gc_root cfg"] by (auto simp: prune_empty_parents.simps plain_bucket_def)
next
  case (snoc x xs)
  note prems = snoc.prems
  have ne: "\<not> path_eq (seg_path (gc_root cfg) (b # xs @ [x])) (seg_path (gc_root cfg) [b])"
    using path_eq_seg [OF prems(4,6)] by simp
  from prems(3) obtain n0 where n0: "node_at n xs = Inr n0" "node_at n0 [x] = Inr (Dir a1 sz1 es1)"
    by (auto simp: node_at_append split: sum.splits)
  then obtain a0 sz0 es0 where d0: "n0 = Dir a0 sz0 es0" "map_of es0 x = Some (Dir a1 sz1 es1)"
    by (cases n0) (auto split: option.splits)
  have access: "at_access a0" "\<not> at_link a1"
    using plain_dir_at [OF prems(2) n0(1) [unfolded d0(1)]] plain_dir_at [OF prems(2,3)] by simp_all
  have comps: "components (seg_path (gc_root cfg) (b # xs @ [x])) = in_bucket cfg b (xs @ [x])"
    using components_seg [OF prems(4)] by (simp add: in_bucket_def)
  have rm: "remove_dir os fs (seg_path (gc_root cfg) (b # xs @ [x])) = at_parent (rmdir_entry os) (in_bucket cfg b (xs @ [x])) fs"
    using prems(5) comps by (simp add: remove_dir_def nul_checked_def)
  show ?case
  proof (cases "es1 = []")
    case False
    have "at_parent (rmdir_entry os) (in_bucket cfg b (xs @ [x])) fs = Inl DirectoryNotEmpty"
      unfolding at_parent_in_bucket alter_iff [of "in_bucket cfg b xs" "rmdir_entry os x"]
      using node_at_in_bucket [OF prems(1), of xs] n0(1) d0 access False by (simp add: rmdir_entry_def)
    with rm ne prems(1,2,9) False show ?thesis by (auto simp: prune_empty_parents.simps plain_bucket_def)
  next
    case True
    have g: "rmdir_entry os x (Dir a0 sz0 es0) = Inr (Dir (touch os a0) sz0 (remove_entry x es0))"
      using d0 access True by (simp add: rmdir_entry_def)
    have key: "tree_keys (dir_key xs) (x, Dir a1 sz1 es1) = {dir_key (xs @ [x])}"
      using True by (simp add: dir_key_snoc)
    have hd: "hd (xs @ [x]) \<noteq> gc_mpu cfg" using prems(7) by simp
    from leaf_removed [OF prems(1,2) n0(1) [unfolded d0(1)] d0(2) key hd, of "rmdir_entry os" os, OF g]
    obtain fs' n' where fs': "at_parent (rmdir_entry os) (in_bucket cfg b (xs @ [x])) fs = Inr fs'"
      "node_at fs' (in_bucket cfg b []) = Inr n'" "plain_dir n'" "node_at n' xs = Inr (Dir (touch os a0) sz0 (remove_entry x es0))"
      "bucket_keys cfg fs' b = (bucket_keys cfg fs b - {dir_key (xs @ [x])}) \<union> (if xs \<noteq> [] \<and> remove_entry x es0 = [] then {dir_key xs} else {})"
      by blast
    have "dir_key (xs @ [x]) \<notin> K" using prems(8) by blast
    with prems(9) True fs'(5) have keys: "bucket_keys cfg fs' b = K \<union> (if xs \<noteq> [] \<and> remove_entry x es0 = [] then {dir_key xs} else {})"
      by auto
    have parent: "path_parent (seg_path (gc_root cfg) (b # xs @ [x])) = Some (seg_path (gc_root cfg) (b # xs))"
      using path_parent_seg [of x "gc_root cfg" "b # xs"] prems(4,6) by simp
    have safe: "\<forall>q\<in>set (b # xs). safe_segment q" and hd': "xs \<noteq> [] \<longrightarrow> hd xs \<noteq> gc_mpu cfg"
      using prems(4) hd by auto
    have nul: "CHR 0x00 \<notin> set (seg_path (gc_root cfg) (b # xs))"
      using nul_prefix [of "gc_root cfg" "b # xs" "[x]"] prems(5) by simp
    have above: "\<forall>ys zs. xs = ys @ zs \<longrightarrow> ys \<noteq> [] \<longrightarrow> dir_key ys \<notin> K"
      using prems(8) by auto
    have "bucket_keys cfg (prune_empty_parents os (seg_path (gc_root cfg) [b]) (seg_path (gc_root cfg) (b # xs)) fs') b = K \<and>
        plain_bucket cfg (prune_empty_parents os (seg_path (gc_root cfg) [b]) (seg_path (gc_root cfg) (b # xs)) fs') b"
      by (rule snoc.IH [OF fs'(2-4) safe nul prems(6) hd' above keys])
    with rm ne fs'(1) parent show ?thesis by (simp add: prune_empty_parents.simps [of os _ "seg_path (gc_root cfg) (b # xs @ [x])"])
  qed
qed

section \<open>What a deletion leaves\<close>

text \<open>The key that names the same object, without empty segments.\<close>

definition canonical_key :: "str \<Rightarrow> str" where
  "canonical_key key = join ''/'' (key_segments key) @ (if ends_with ''/'' key then ''/'' else [])"

lemma open_keys_subset: "dir_keys d (open_entries mpu d' es) \<subseteq> dir_keys d es"
  by (auto simp: dir_keys_def open_entries_def)

text \<open>The calls that remove an entry: how they succeed, and when there is nothing to remove.\<close>

definition removes :: "os_env \<Rightarrow> bool \<Rightarrow> str \<Rightarrow> node \<Rightarrow> io_kind + node" where
  "removes os marker = (if marker then rmdir_entry os else unlink_entry os)"

lemma removes_Inr:
  assumes "removes os marker name n0 = Inr n1"
  obtains a1 sz1 es1 m where "n0 = Dir a1 sz1 es1" "map_of es1 name = Some m" "n1 = Dir (touch os a1) sz1 (remove_entry name es1)"
    "marker \<longrightarrow> (\<exists>a2 sz2. m = Dir a2 sz2 [])" "\<not> marker \<longrightarrow> is_dir m \<longrightarrow> at_link (node_attrs m)"
  using assms
  by (cases n0) (auto simp: removes_def unlink_entry_def rmdir_entry_def split: if_splits option.splits node.splits)

lemma removes_missing:
  assumes "removes os marker name n0 = Inl NotFound"
  shows "node_at n0 [name] = Inl NotFound"
  using assms
  by (cases n0) (auto simp: removes_def unlink_entry_def rmdir_entry_def split: if_splits option.splits node.splits)

lemma map_of_nonempty: "map_of es s = Some m \<Longrightarrow> es \<noteq> []"
  by auto

lemma remove_and_prune_keys:
  assumes "node_at fs (in_bucket cfg b []) = Inr n" "plain_dir n" "proper_root (gc_root cfg)"
    "\<forall>q\<in>set (b # ds @ [x]). safe_segment q" "hd (ds @ [x]) \<noteq> gc_mpu cfg" "CHR 0x00 \<notin> set (seg_path (gc_root cfg) (b # ds @ [x]))"
    "at_parent (removes os marker) (in_bucket cfg b (ds @ [x])) fs = Inr fs1"
  shows "bucket_keys cfg (prune_empty_parents os (seg_path (gc_root cfg) [b]) (seg_path (gc_root cfg) (b # ds)) fs1) b =
    bucket_keys cfg fs b - {dir_key ds @ x @ (if marker then ''/'' else [])} \<and>
    plain_bucket cfg (prune_empty_parents os (seg_path (gc_root cfg) [b]) (seg_path (gc_root cfg) (b # ds)) fs1) b"
proof -
  let ?k = "dir_key ds @ x @ (if marker then ''/'' else [])"
  have "alter (in_bucket cfg b ds) (removes os marker x) fs = Inr fs1"
    using assms(7) by (simp add: at_parent_in_bucket)
  from alter_Inr [OF this] obtain n0 n1 where n0: "node_at n ds = Inr n0" "removes os marker x n0 = Inr n1"
    using node_at_in_bucket [OF assms(1), of ds] by auto
  from n0(2) obtain a1 sz1 es1 m where d: "n0 = Dir a1 sz1 es1" "map_of es1 x = Some m"
      "n1 = Dir (touch os a1) sz1 (remove_entry x es1)" "marker \<longrightarrow> (\<exists>a2 sz2. m = Dir a2 sz2 [])"
      "\<not> marker \<longrightarrow> is_dir m \<longrightarrow> at_link (node_attrs m)"
    by (rule removes_Inr)
  have key: "tree_keys (dir_key ds) (x, m) = {?k}"
  proof (cases marker)
    case True
    with d(4) show ?thesis by auto
  next
    case False
    have "\<not> at_link (node_attrs m)" if "is_dir m"
      using plain_dir_at [OF assms(2), of "ds @ [x]"] n0(1) d(1,2) that by (cases m) (auto simp: node_at_append)
    with d(5) False have "\<not> is_dir m" by blast
    with False show ?thesis by (cases m) auto
  qed
  from leaf_removed [OF assms(1,2) n0(1) [unfolded d(1)] d(2) key assms(5), of "removes os marker" os] n0(2) d(1,3)
  obtain n' where n': "node_at fs1 (in_bucket cfg b []) = Inr n'" "plain_dir n'"
      "node_at n' ds = Inr (Dir (touch os a1) sz1 (remove_entry x es1))"
      "bucket_keys cfg fs1 b = (bucket_keys cfg fs b - {?k}) \<union> (if ds \<noteq> [] \<and> remove_entry x es1 = [] then {dir_key ds} else {})"
    using assms(7) by auto
  obtain a sz es where n: "n = Dir a sz es" using assms(2) by (cases n) auto
  have "dir_key xs \<notin> bucket_keys cfg fs b - {?k}" if ds: "ds = xs @ ys" and xs: "xs \<noteq> []" for xs ys
  proof -
    obtain a3 sz3 es3 where "node_at n xs = Inr (Dir a3 sz3 es3)" "es3 \<noteq> []"
      using n0(1) d(1,2) ds map_of_nonempty
      by (cases ys) (fastforce simp: node_at_append split: sum.splits node.splits option.splits)+
    from full_dir_no_key [OF _ this(1) [unfolded n] this(2) xs, of "[]"] assms(2) n
    have "dir_key xs \<notin> dir_keys [] es" by simp
    with open_keys_subset [of "[]" "gc_mpu cfg" "[]" es] bucket_dir_at [OF assms(1) [unfolded n]] show ?thesis
      by (auto simp: bucket_keys_dir)
  qed
  then have above: "\<forall>xs ys. ds = xs @ ys \<longrightarrow> xs \<noteq> [] \<longrightarrow> dir_key xs \<notin> bucket_keys cfg fs b - {?k}" by blast
  have safe: "\<forall>q\<in>set (b # ds). safe_segment q" and hd: "ds \<noteq> [] \<longrightarrow> hd ds \<noteq> gc_mpu cfg" and root: "gc_root cfg \<noteq> []"
    using assms(3-5) by (auto simp: proper_root_def)
  have nul: "CHR 0x00 \<notin> set (seg_path (gc_root cfg) (b # ds))"
    using nul_prefix [of "gc_root cfg" "b # ds" "[x]"] assms(6) by simp
  show ?thesis
    by (rule prune_keys [OF n'(1-3) safe nul root hd above n'(4)])
qed

lemma nothing_to_remove:
  assumes "node_at fs (in_bucket cfg b []) = Inr n" "plain_dir n" "\<forall>q\<in>set (ds @ [x]). safe_segment q"
    "at_parent (removes os marker) (in_bucket cfg b (ds @ [x])) fs = Inl NotFound" "t = [] \<or> t = ''/''"
  shows "dir_key ds @ x @ t \<notin> bucket_keys cfg fs b"
proof
  assume k: "dir_key ds @ x @ t \<in> bucket_keys cfg fs b"
  obtain a sz es where n: "n = Dir a sz es" using assms(2) by (cases n) auto
  have "dir_key ds @ x @ t \<in> dir_keys [] es"
    using k open_keys_subset [of "[]" "gc_mpu cfg" "[]" es] bucket_dir_at [OF assms(1) [unfolded n]] by (auto simp: bucket_keys_dir)
  with key_has_node [of a sz es "[]" ds x t] assms(2,3,5) n obtain m where m: "node_at n (ds @ [x]) = Inr m" by auto
  have "alter (in_bucket cfg b ds) (removes os marker x) fs = Inl NotFound"
    using assms(4) by (simp add: at_parent_in_bucket)
  moreover obtain n0 where n0: "node_at n ds = Inr n0" "node_at n0 [x] = Inr m"
    using m by (auto simp: node_at_append split: sum.splits)
  moreover have at: "node_at fs (in_bucket cfg b ds) = Inr n0"
    using node_at_in_bucket [OF assms(1)] n0(1) by simp
  ultimately show False
  proof (cases "removes os marker x n0")
    case (Inl e)
    with \<open>alter _ _ fs = _\<close> at have "removes os marker x n0 = Inl NotFound"
      unfolding alter_iff [of "in_bucket cfg b ds" "removes os marker x"] by simp
    from removes_missing [OF this] n0(2) show False by simp
  next
    case (Inr n1)
    with \<open>alter _ _ fs = _\<close> at alter_defined [OF at, of n1] show False
      unfolding alter_iff [of "in_bucket cfg b ds" "removes os marker x"] by auto
  qed
qed

definition remove_object :: "os_env \<Rightarrow> node \<Rightarrow> bool \<Rightarrow> str \<Rightarrow> io_kind + node" where
  "remove_object os fs marker p = (if marker then remove_dir os fs p else remove_file os fs p)"

lemma remove_object_removes: "remove_object os fs marker p = nul_checked p (at_parent (removes os marker) (components p) fs)"
  by (simp add: remove_object_def removes_def remove_dir_def remove_file_def)

lemma deleted_tree:
  assumes "handle_delete_object env app rq cls = (Inr resp, app')"
  shows "\<exists>p. join_object_path (gc_root (ga_cfg app)) (bucket_of cls) (key_of cls) = Inr p \<and>
    (case remove_object (ge_os env) (ga_fs app) (ends_with ''/'' (key_of cls)) p of
       Inl e \<Rightarrow> e = NotFound \<and> app' = app
     | Inr fs \<Rightarrow> app' = app\<lparr>ga_fs := prune_after (ge_os env) (ga_cfg app) (bucket_of cls) p fs\<rparr>)"
  using assms
  by (auto simp: handle_delete_object_def Let_def and_then_def guard_def object_path_def expect_def delete_marker_def delete_file_def
      remove_object_def split: if_splits sum.splits io_kind.splits)

lemma key_deleted:
  assumes "node_at fs (in_bucket cfg b []) = Inr n" "plain_dir n" "proper_root (gc_root cfg)"
    "join_object_path (gc_root cfg) b key = Inr p" "key_segments key \<noteq> []" "hd (key_segments key) \<noteq> gc_mpu cfg"
    "remove_object os fs (ends_with ''/'' key) p = r" "r = Inl NotFound \<and> fs' = fs \<or> (\<exists>fs1. r = Inr fs1 \<and> fs' = prune_after os cfg b p fs1)"
  shows "bucket_keys cfg fs' b = bucket_keys cfg fs b - {canonical_key key} \<and> plain_bucket cfg fs' b"
proof -
  obtain ds x where segs: "key_segments key = ds @ [x]"
    using assms(5) by (metis append_butlast_last_id)
  note p = join_seg [OF assms(3,4)]
  have safe: "\<forall>q\<in>set (b # ds @ [x]). safe_segment q" and hd: "hd (ds @ [x]) \<noteq> gc_mpu cfg"
    using p(2) assms(6) segs by auto
  have comps: "components p = in_bucket cfg b (ds @ [x])"
    using components_seg [OF safe] p(1) segs by (simp add: in_bucket_def)
  have key: "canonical_key key = dir_key ds @ x @ (if ends_with ''/'' key then ''/'' else [])"
    by (simp add: canonical_key_def segs join_dir_key)
  have nul: "CHR 0x00 \<notin> set p" and r: "at_parent (removes os (ends_with ''/'' key)) (in_bucket cfg b (ds @ [x])) fs = r"
    using assms(7,8) comps by (auto simp: remove_object_removes nul_checked_def split: if_splits)
  show ?thesis
    using assms(8)
  proof
    assume "r = Inl NotFound \<and> fs' = fs"
    with nothing_to_remove [OF assms(1,2), of ds x] safe r assms(1,2) show ?thesis by (auto simp: key plain_bucket_def)
  next
    assume "\<exists>fs1. r = Inr fs1 \<and> fs' = prune_after os cfg b p fs1"
    then obtain fs1 where fs1: "r = Inr fs1" "fs' = prune_after os cfg b p fs1" by blast
    have root: "bucket_root_path (gc_root cfg) b = Inr (seg_path (gc_root cfg) [b])"
      using bucket_root_seg [OF assms(3)] safe by simp
    have "path_parent p = Some (seg_path (gc_root cfg) (b # ds))"
      using path_parent_seg [of x "gc_root cfg" "b # ds"] p(1) segs safe assms(3) by (simp add: proper_root_def)
    with fs1(2) root have "fs' = prune_empty_parents os (seg_path (gc_root cfg) [b]) (seg_path (gc_root cfg) (b # ds)) fs1"
      by (simp add: prune_after_def)
    with remove_and_prune_keys [OF assms(1-3) safe hd _ r [unfolded fs1(1)]] nul p(1) segs show ?thesis
      by (simp add: key)
  qed
qed

lemma example_bucket:
  "bucket_keys (ga_cfg example_app) (ga_fs example_app) ''b'' = {''a/'', ''b''}"
  "plain_bucket (ga_cfg example_app) (ga_fs example_app) ''b''" "proper_root (gc_root (ga_cfg example_app))"
proof -
  show "bucket_keys (ga_cfg example_app) (ga_fs example_app) ''b'' = {''a/'', ''b''}"
    by (auto simp: example_app_def bucket_keys_def bucket_dir_def example_gw_cfg_def example_fs_def components_def open_entries_def)
  have "node_at (ga_fs example_app) (in_bucket (ga_cfg example_app) ''b'' []) = Inr (Dir example_attrs 0
     [(''b'', Reg example_attrs ''hi''), (''.mpu'', Dir example_attrs 0 [(''up'', Reg example_attrs [])]), (''a'', Dir example_attrs 0 [])])"
    by (simp add: example_app_def example_fs_def example_gw_cfg_def in_bucket_def components_def)
  then show "plain_bucket (ga_cfg example_app) (ga_fs example_app) ''b''"
    unfolding plain_bucket_def by (auto simp: example_attrs_def valid_name_def safe_segment_def)
  show "proper_root (gc_root (ga_cfg example_app))"
    by (simp add: example_app_def example_gw_cfg_def proper_root_def)
qed



section \<open>Several keys\<close>

definition deletable :: "gw_cfg \<Rightarrow> str \<Rightarrow> bool" where
  "deletable cfg key \<longleftrightarrow> key_segments key \<noteq> [] \<and> hd (key_segments key) \<noteq> gc_mpu cfg"

lemma delete_one_step:
  assumes "plain_bucket cfg fs b" "proper_root (gc_root cfg)" "deletable cfg key" "bucket_root_path (gc_root cfg) b = Inr root"
    "delete_one os cfg b root quiet key (deleted, errors, fs) = (deleted', errors', fs')"
  shows "(fs' = fs \<and> deleted' = deleted \<and> (\<exists>e. errors' = errors @ [e] \<and> dx_key e = key)) \<or>
    (errors' = errors \<and> deleted' = (if quiet then deleted else deleted @ [key]) \<and> plain_bucket cfg fs' b \<and>
     bucket_keys cfg fs' b = bucket_keys cfg fs b - {canonical_key key})"
proof -
  obtain n where n: "node_at fs (in_bucket cfg b []) = Inr n" "plain_dir n"
    using assms(1) by (auto simp: plain_bucket_def)
  show ?thesis
  proof (cases "\<exists>e. errors' = errors @ [e]")
    case True
    then show ?thesis
      using assms(5) by (auto simp: delete_one_def Let_def split: if_splits sum.splits io_kind.splits)
  next
    case False
    then obtain p where p: "join_object_path (gc_root cfg) b key = Inr p" and
      out: "errors' = errors \<and> deleted' = (if quiet then deleted else deleted @ [key]) \<and>
       (remove_object os fs (ends_with ''/'' key) p = Inl NotFound \<and> fs' = fs \<or>
        (\<exists>fs1. remove_object os fs (ends_with ''/'' key) p = Inr fs1 \<and> fs' = prune_after os cfg b p fs1))"
      using assms(4,5)
      by (auto simp: delete_one_def Let_def remove_object_def prune_after_def split: if_splits sum.splits io_kind.splits option.splits)
    from key_deleted [OF n assms(2) p _ _ refl, of os fs'] out assms(3) show ?thesis by (auto simp: deletable_def)
  qed
qed

lemma delete_fold:
  assumes "proper_root (gc_root cfg)" "bucket_root_path (gc_root cfg) b = Inr root" "plain_bucket cfg fs b" "\<forall>k\<in>set keys. deletable cfg k"
    "fold (delete_one os cfg b root quiet) keys (deleted, errors, fs) = (deleted', errors', fs')"
  shows "\<exists>D. D \<union> dx_key ` set errors' = set keys \<union> dx_key ` set errors \<and> D \<subseteq> set keys \<and>
    set deleted' = (if quiet then set deleted else set deleted \<union> D) \<and>
    bucket_keys cfg fs' b = bucket_keys cfg fs b - canonical_key ` D"
  using assms(3-5)
proof (induction keys arbitrary: deleted errors fs)
  case Nil
  then show ?case by (intro exI [of _ "{}"]) auto
next
  case (Cons key keys)
  obtain d1 e1 fs1 where one: "delete_one os cfg b root quiet key (deleted, errors, fs) = (d1, e1, fs1)"
    by (cases "delete_one os cfg b root quiet key (deleted, errors, fs)") auto
  have key: "deletable cfg key" and keys: "\<forall>k\<in>set keys. deletable cfg k" using Cons.prems(2) by auto
  have rest: "fold (delete_one os cfg b root quiet) keys (d1, e1, fs1) = (deleted', errors', fs')"
    using Cons.prems(3) one by simp
  from delete_one_step [OF Cons.prems(1) assms(1) key assms(2) one] show ?case
  proof
    assume "fs1 = fs \<and> d1 = deleted \<and> (\<exists>e. e1 = errors @ [e] \<and> dx_key e = key)"
    with Cons.IH [OF _ keys rest] Cons.prems(1) obtain D where "D \<union> dx_key ` set errors' = set keys \<union> dx_key ` set e1" "D \<subseteq> set keys"
      "set deleted' = (if quiet then set deleted else set deleted \<union> D)" "bucket_keys cfg fs' b = bucket_keys cfg fs b - canonical_key ` D"
      by auto
    with \<open>fs1 = fs \<and> _\<close> show ?thesis by (intro exI [of _ D]) auto
  next
    assume step: "e1 = errors \<and> d1 = (if quiet then deleted else deleted @ [key]) \<and> plain_bucket cfg fs1 b \<and>
      bucket_keys cfg fs1 b = bucket_keys cfg fs b - {canonical_key key}"
    with Cons.IH [OF _ keys rest] obtain D where "D \<union> dx_key ` set errors' = set keys \<union> dx_key ` set errors" "D \<subseteq> set keys"
      "set deleted' = (if quiet then set d1 else set d1 \<union> D)" "bucket_keys cfg fs' b = bucket_keys cfg fs1 b - canonical_key ` D"
      by auto
    with step show ?thesis by (intro exI [of _ "insert key D"]) auto
  qed
qed


definition delete_example :: gw_env where
  "delete_example = example_env\<lparr>ge_reader := (\<lambda>t. [StartEv ''Delete'', StartEv ''Object'', StartEv ''Key'', TextEv (Inr ''b''), EndEv ''Key'',
     EndEv ''Object'', StartEv ''Object'', StartEv ''Key'', TextEv (Inr ''zz''), EndEv ''Key'', EndEv ''Object'', EndEv ''Delete''])\<rparr>"


end
