(* ===== verification/Spec2Isabelle.thy ===== *)
theory Spec2Isabelle
  imports Http_Utils Preconditions Uri_Encoding Log_Redact Nss Directory_Cache Single_Flight
    Session_Store Conn_Limit Classifier Sigv4 S3_Responses Proxy_Filter Proxy_Lifecycle
    Utf8 Fs_Helpers Payload_Readers Uring_Io Range_Stream Object_Write Object_Copy
    Posix_Fs Object_Etag Gateway_Config Listing Listing_Order List_Objects List_Complete
    S3_Xml S3_Documents S3_Replies Posix_Ops Gateway_Base Object_Meta Object_Get Tree_Changes Object_Delete
begin

text \<open>
  A verification of \<open>s32p-proxy\<close>, an S3 front end to POSIX file systems. Paths below are relative to
  \<open>src/crates/\<close>.

  \<^bold>\<open>The program.\<close> A proxy (\<open>s32p-proxy\<close>) takes S3 requests, limits and authenticates them, and hands them to
  a worker process of the user they belong to. A worker (\<open>s32p-gateway\<close>) serves the buckets of one
  user from directories: an object is a regular file, its tags and metadata are extended attributes.
  Both share the request classifier, signature verification, header parsing and responses of
  \<open>s32p-support\<close>; the users and buckets come from a directory service behind the cache of
  \<open>s32p-directory\<close>.

  \<^bold>\<open>Conventions.\<close> A Rust string or byte slice is the list of its bytes; integers keep their width
  (\<open>u64\<close>, \<open>usize\<close>, \<open>u32\<close> are words); a \<open>Result\<close> is a sum with the error on the left; instants and
  times are integers, in nanoseconds. State is a record, passed and returned; tasks that interleave
  are a step relation. Code of other packages (the signer, base64, percent decoding, date parsing,
  JSON, the XML reader), the clock, random bytes and the answers of the kernel are parameters, with
  what is documented of them as hypotheses where a theorem needs it.

  \<^bold>\<open>Shared code\<close> (\<open>s32p-support/src\<close>).
  \<^item> \<open>Rust_Std\<close>, \<open>Utf8\<close>: what the crates use of the standard library; the lemmas all theories share.
  \<^item> \<open>Http_Utils\<close> (\<open>utils.rs\<close>), \<open>Preconditions\<close> (\<open>preconditions.rs\<close>): ranges, dates, entity tags and the
    conditional headers; that accepted ranges lie in the file, and the truth tables of RFC 9110.
  \<^item> \<open>Uri_Encoding\<close> (\<open>uri_encoding.rs\<close>), \<open>Log_Redact\<close> (\<open>log_redact.rs\<close>): the canonical path against
    RFC 3986; that a log line depends on a credential only through its first characters.
  \<^item> \<open>Classifier\<close> (\<open>classifier.rs\<close>): every operation with its guards, query parameters, path-style and
    virtual-hosted addresses; that each class has the method and parameters it stands for.
  \<^item> \<open>Sigv4\<close> (\<open>lib.rs\<close>): verification of signed headers and presigned URLs; that an accepted request
    carries the signature the signer gives for it, within its time.
  \<^item> \<open>S3_Xml\<close>, \<open>S3_Documents\<close> (\<open>s3xml.rs\<close>): the request bodies over the events of the XML reader, and the
    response documents; that a document the gateway sent is understood when it is sent back.
  \<^item> \<open>S3_Responses\<close>, \<open>S3_Replies\<close> (\<open>s3resp.rs\<close>): error replies and responses.

  \<^bold>\<open>Proxy\<close> (\<open>s32p-proxy/src\<close>, \<open>s32p-directory/src\<close>).
  \<^item> \<open>Expiring_Map\<close>: the contract of maps with deadlines, met by \<open>Directory_Cache\<close> (\<open>cache.rs\<close>),
    \<open>Session_Store\<close> (\<open>session.rs\<close>) and \<open>Nss\<close> (\<open>nss_*.rs\<close>): a lookup gives the last value stored, never
    after its deadline. \<open>Single_Flight\<close>: the interleaved lookups of \<open>cache.rs\<close>; one backend call per
    key at a time.
  \<^item> \<open>Conn_Limit\<close> (\<open>conn_limit.rs\<close>): the limiter, and the admission contract it meets.
  \<^item> \<open>Proxy_Filter\<close>, \<open>Proxy_Lifecycle\<close> (\<open>main.rs\<close>, \<open>responses.rs\<close>): the whole request filter, the upstream
    request, the release of slots, the log; that only authenticated requests are forwarded or have
    effects, and that slots are given back over every history of requests.

  \<^bold>\<open>Gateway\<close> (\<open>s32p-gateway/src\<close>).
  \<^item> \<open>Fs_Helpers\<close> (\<open>fs_helpers.rs\<close>), \<open>Posix_Fs\<close>, \<open>Posix_Ops\<close>: object paths and file helpers; the file system as a
    tree, with the calls that change it. The locale \<open>xattr_store\<close> is the contract of extended
    attributes, met by the files of the tree.
  \<^item> \<open>Payload_Readers\<close>, \<open>Range_Stream\<close>, \<open>Object_Write\<close>, \<open>Object_Copy\<close> (\<open>streaming.rs\<close>, part of
    \<open>multipart.rs\<close>): bodies in, bodies out, and copies; that the bytes stored and sent are the right ones
    whatever the frames, chunk size and order of completions.
  \<^item> \<open>Uring_Io\<close> (\<open>uring_io.rs\<close>): senders, I/O thread and kernel as interleaved steps.
  \<^item> \<open>Gateway_Config\<close>, \<open>Object_Etag\<close>, \<open>Listing\<close>, \<open>Listing_Order\<close>, \<open>List_Objects\<close>, \<open>List_Complete\<close>
    (\<open>main.rs\<close>): the configuration, entity tags, and both listings; that the pages of a listing hold
    every key of the prefix once and in order.
  \<^item> \<open>Gateway_Base\<close>, \<open>Object_Meta\<close>, \<open>Object_Get\<close>, \<open>Object_Delete\<close> (\<open>main.rs\<close>): the request handlers, from a
    request and the state of a worker to a response and the next state; that tags are read as they
    were written, that an object is sent as it is stored, and that a deletion removes its keys and no
    others. \<open>Tree_Changes\<close> has what a change of the tree means for the keys.

  \<^bold>\<open>Bounds.\<close> Loops are structural or have a termination proof; the walk of a listing is a partial
  function, proved to return on every tree. No fuel is used.

  \<^bold>\<open>Not modelled.\<close> Start-up, sockets, TLS and process spawning (calls of the runtime and the kernel);
  the Lustre library, loaded at run time; the SQL and LDAP back ends and the command line tools.
\<close>

end
